(* ===== verification/Snow_Prelude.thy ===== *)
theory Snow_Prelude
  imports Main "HOL-Library.Word"
begin

unbundle bit_operations_syntax

text \<open>
  Shared vocabulary of the development: the machine types of the Rust sources, \<open>Result\<close>,
  and the pieces of the Rust standard library the sources call on byte vectors
  (\<open>to_be_bytes\<close>, \<open>from_be_bytes\<close>, \<open>chunks\<close>, \<open>Vec::resize\<close>,
  \<open>TryInto<[u8; 32]>\<close>), each with the lemmas the component theories rely on.

  A fallible Rust function returns a value of type \<open>('a, 'e) result\<close>. A function that takes
  \<open>&mut self\<close> returns the pair of its result and the new state, in that order, whether the
  result is \<open>Ok\<close> or \<open>Err\<close>.
\<close>

section \<open>Machine types\<close>

type_synonym u8 = "8 word"
type_synonym u16 = "16 word"
type_synonym u32 = "32 word"
type_synonym u64 = "64 word"
type_synonym bytes = "u8 list"

named_theorems wire_simps \<open>rewrites for headers, frames and byte-order conversions\<close>
named_theorems op_defs \<open>definitions of the modelled operations\<close>

section \<open>Result\<close>

datatype ('a, 'e) result = Ok 'a | Err 'e

fun is_ok :: "('a, 'e) result \<Rightarrow> bool" where
  "is_ok (Ok _) = True"
| "is_ok (Err _) = False"

fun map_err :: "('e \<Rightarrow> 'f) \<Rightarrow> ('a, 'e) result \<Rightarrow> ('a, 'f) result" where
  "map_err f (Ok a) = Ok a"
| "map_err f (Err e) = Err (f e)"

fun and_then :: "('a, 'e) result \<Rightarrow> ('a \<Rightarrow> ('b, 'e) result) \<Rightarrow> ('b, 'e) result" where
  "and_then (Ok a) k = k a"
| "and_then (Err e) k = Err e"

lemma is_ok_iff: "is_ok r \<longleftrightarrow> (\<exists>a. r = Ok a)"
  by (cases r) auto

lemma map_err_eq_Ok [simp]: "map_err f r = Ok a \<longleftrightarrow> r = Ok a"
  by (cases r) auto

lemma map_err_eq_Err: "map_err f r = Err e \<longleftrightarrow> (\<exists>e'. r = Err e' \<and> e = f e')"
  by (cases r) auto

lemma is_ok_map_err [simp]: "is_ok (map_err f r) = is_ok r"
  by (cases r) auto

lemma and_then_eq_Ok: "and_then r k = Ok b \<longleftrightarrow> (\<exists>a. r = Ok a \<and> k a = Ok b)"
  by (cases r) auto

lemma and_then_eq_Err: "and_then r k = Err e \<longleftrightarrow> r = Err e \<or> (\<exists>a. r = Ok a \<and> k a = Err e)"
  by (cases r) auto

section \<open>Big-endian byte order\<close>

text \<open>\<open>u16::to_be_bytes\<close> and \<open>u16::from_be_bytes\<close>.\<close>

definition u16_to_be_bytes :: "u16 \<Rightarrow> bytes" where
  "u16_to_be_bytes w = [ucast (drop_bit 8 w), ucast w]"

definition u16_from_be_bytes :: "u8 \<Rightarrow> u8 \<Rightarrow> u16" where
  "u16_from_be_bytes hi lo = (push_bit 8 (ucast hi)) OR ucast lo"

lemma length_u16_to_be_bytes [simp]: "length (u16_to_be_bytes w) = 2"
  by (simp add: u16_to_be_bytes_def)

lemma u16_from_to_be_bytes [simp, wire_simps]:
  "u16_from_be_bytes (ucast (drop_bit 8 w)) (ucast w) = w"
  unfolding u16_from_be_bytes_def
  by (rule bit_word_eqI) (auto simp: bit_simps)

lemma bit_u8_high: "8 \<le> n \<Longrightarrow> \<not> bit (b :: u8) n"
  by (auto dest: bit_imp_le_length)

lemma u16_to_from_be_bytes [simp, wire_simps]:
  "u16_to_be_bytes (u16_from_be_bytes hi lo) = [hi, lo]"
  unfolding u16_from_be_bytes_def u16_to_be_bytes_def
  by (auto intro!: bit_word_eqI simp: bit_simps bit_u8_high)

text \<open>\<open>u32::to_be_bytes\<close> and \<open>u64::to_be_bytes\<close>: the bytes of a word, most significant first.\<close>

definition u32_to_be_bytes :: "u32 \<Rightarrow> bytes" where
  "u32_to_be_bytes w = map (\<lambda>i. ucast (drop_bit (8 * i) w)) [3, 2, 1, 0]"

definition u64_to_be_bytes :: "u64 \<Rightarrow> bytes" where
  "u64_to_be_bytes w = map (\<lambda>i. ucast (drop_bit (8 * i) w)) [7, 6, 5, 4, 3, 2, 1, 0]"

lemma length_u32_to_be_bytes [simp]: "length (u32_to_be_bytes w) = 4"
  by (simp add: u32_to_be_bytes_def)

lemma length_u64_to_be_bytes [simp]: "length (u64_to_be_bytes w) = 8"
  by (simp add: u64_to_be_bytes_def)

lemma byte_slice_eqD:
  fixes v w :: "'a::len word"
  assumes "(ucast (drop_bit k v) :: u8) = ucast (drop_bit k w)" and "k \<le> n" "n < k + 8"
  shows "bit v n = bit w n"
proof -
  have "bit (ucast (drop_bit k v) :: u8) (n - k) = bit (ucast (drop_bit k w) :: u8) (n - k)"
    using assms(1) by simp
  then show ?thesis using assms(2,3) by (auto simp: bit_simps)
qed

lemma inj_u32_to_be_bytes: "inj u32_to_be_bytes"
proof (rule injI, rule bit_word_eqI)
  fix v w :: u32 and n
  assume eq: "u32_to_be_bytes v = u32_to_be_bytes w" and n: "n < LENGTH(32)"
  have slice: "(ucast (drop_bit (8 * i) v) :: u8) = ucast (drop_bit (8 * i) w)"
    if "i \<in> {0, 1, 2, 3}" for i
    using eq that by (auto simp: u32_to_be_bytes_def)
  have "n div 8 \<in> {0, 1, 2, 3}" using n by auto
  from slice [OF this] show "bit v n = bit w n"
    by (rule byte_slice_eqD) auto
qed

lemma inj_u64_to_be_bytes: "inj u64_to_be_bytes"
proof (rule injI, rule bit_word_eqI)
  fix v w :: u64 and n
  assume eq: "u64_to_be_bytes v = u64_to_be_bytes w" and n: "n < LENGTH(64)"
  have slice: "(ucast (drop_bit (8 * i) v) :: u8) = ucast (drop_bit (8 * i) w)"
    if "i \<in> {0, 1, 2, 3, 4, 5, 6, 7}" for i
    using eq that by (auto simp: u64_to_be_bytes_def)
  have "n div 8 \<in> {0, 1, 2, 3, 4, 5, 6, 7}" using n by auto
  from slice [OF this] show "bit v n = bit w n"
    by (rule byte_slice_eqD) auto
qed

text \<open>A length that fits in 16 bits survives \<open>n as u16\<close>.\<close>

lemma unat_of_nat_u16 [simp, wire_simps]: "n \<le> 65535 \<Longrightarrow> unat (of_nat n :: u16) = n"
  by (simp add: unat_of_nat)

section \<open>Byte vectors\<close>

text \<open>\<open>Vec::resize(n, 0)\<close>.\<close>

definition vec_resize :: "bytes \<Rightarrow> nat \<Rightarrow> bytes" where
  "vec_resize v n = take n v @ replicate (n - length v) 0"

lemma length_vec_resize [simp]: "length (vec_resize v n) = n"
  by (simp add: vec_resize_def)

text \<open>\<open>slice.try_into()\<close> at type \<open>[u8; 32]\<close>.\<close>

definition try_into_array32 :: "bytes \<Rightarrow> bytes option" where
  "try_into_array32 bs = (if length bs = 32 then Some bs else None)"

lemma try_into_array32_eq_Some [simp]: "try_into_array32 bs = Some a \<longleftrightarrow> a = bs \<and> length bs = 32"
  by (auto simp: try_into_array32_def)

lemma try_into_array32_eq_None [simp]: "try_into_array32 bs = None \<longleftrightarrow> length bs \<noteq> 32"
  by (auto simp: try_into_array32_def)

text \<open>\<open>slice.chunks(n)\<close>: consecutive pieces of \<open>n\<close> elements, the last one possibly shorter.
  Rust panics for \<open>n = 0\<close>; every caller passes a positive constant.\<close>

function chunks :: "nat \<Rightarrow> 'a list \<Rightarrow> 'a list list" where
  "chunks n xs = (if xs = [] \<or> n = 0 then [] else take n xs # chunks n (drop n xs))"
  by pat_completeness auto
termination
  by (relation "measure (\<lambda>(n, xs). length xs)") auto

declare chunks.simps [simp del]

lemma chunks_Nil [simp]: "chunks n [] = []"
  by (simp add: chunks.simps)

lemma chunks_eq_Nil: "0 < n \<Longrightarrow> chunks n xs = [] \<longleftrightarrow> xs = []"
  by (simp add: chunks.simps)

lemma chunks_step: "0 < n \<Longrightarrow> xs \<noteq> [] \<Longrightarrow> chunks n xs = take n xs # chunks n (drop n xs)"
  by (simp add: chunks.simps)

lemma chunks_short: "0 < n \<Longrightarrow> xs \<noteq> [] \<Longrightarrow> length xs \<le> n \<Longrightarrow> chunks n xs = [xs]"
  by (simp add: chunks_step)

lemma concat_chunks: "0 < n \<Longrightarrow> concat (chunks n xs) = xs"
proof (induction n xs rule: chunks.induct)
  case (1 n xs)
  then show ?case by (cases "xs = []") (simp_all add: chunks_step)
qed

lemma chunks_bounds: "0 < n \<Longrightarrow> c \<in> set (chunks n xs) \<Longrightarrow> c \<noteq> [] \<and> length c \<le> n"
proof (induction n xs rule: chunks.induct)
  case (1 n xs)
  then show ?case by (cases "xs = []") (auto simp: chunks_step)
qed

lemma length_chunks:
  "0 < n \<Longrightarrow> length (chunks n xs) = (length xs + (n - 1)) div n"
proof (induction n xs rule: chunks.induct)
  case (1 n xs)
  show ?case
  proof (cases "xs = []")
    case True
    with "1.prems" show ?thesis by simp
  next
    case False
    then have IH: "length (chunks n (drop n xs)) = (length xs - n + (n - 1)) div n"
      using "1.IH" "1.prems" by simp
    have pos: "0 < length xs" using False by simp
    show ?thesis
    proof (cases "n \<le> length xs")
      case True
      then have "length xs + (n - 1) = n + (length xs - n + (n - 1))" by simp
      with "1.prems" have "(length xs + (n - 1)) div n = Suc ((length xs - n + (n - 1)) div n)"
        by (metis div_add_self1 add.commute plus_1_eq_Suc less_irrefl)
      with IH False "1.prems" show ?thesis by (simp add: chunks_step)
    next
      case small: False
      then have "n \<le> length xs + (n - 1)" "length xs + (n - 1) < 2 * n"
        using pos "1.prems" by linarith+
      then have "(length xs + (n - 1)) div n = 1"
        by (intro div_nat_eqI) simp_all
      with small False "1.prems" show ?thesis by (simp add: chunks_short)
    qed
  qed
qed

end
