(* ===== verification/Packet_State.thy ===== *)
theory Packet_State
  imports Snow_Prelude
begin

unbundle bit_operations_syntax

text \<open>
  Model of \<open>src/packet_state.rs\<close>: the 2-byte packet header, the \<open>PacketBuilder\<close> that
  frames outgoing payloads and the \<open>PacketReader\<close> that validates incoming packets.

  The section on the data model and the operations follows the source top to bottom. The
  theory then gives an abstract specification of the reader (a message stream is a sequence
  of complete messages), the well-formedness invariants of both state machines, and the
  interface \<open>packet_codec\<close> that the packet layer relies on: a builder and a reader that are
  in step stay in step, and every packet the builder emits is accepted with its kind, type
  and payload.
\<close>

section \<open>Constants\<close>

definition KIND_SHIFT :: nat where
  "KIND_SHIFT = 12"

definition KIND_MASK :: u16 where
  "KIND_MASK = 0xF000"

definition TYPE_MASK :: u16 where
  "TYPE_MASK = 0x0FFF"

definition FRAME_HEADER_SIZE :: nat where
  "FRAME_HEADER_SIZE = 2"

definition MAX_CIPHERTEXT_SIZE :: nat where
  "MAX_CIPHERTEXT_SIZE = 0xFFFF"

definition CIPHER_OVERHEAD_SIZE :: nat where
  "CIPHER_OVERHEAD_SIZE = 16"

definition MAX_RAW_PACKET_SIZE :: nat where
  "MAX_RAW_PACKET_SIZE = MAX_CIPHERTEXT_SIZE - CIPHER_OVERHEAD_SIZE"

definition MAX_PACKET_SIZE :: nat where
  "MAX_PACKET_SIZE = MAX_RAW_PACKET_SIZE - 2"

lemmas size_defs = FRAME_HEADER_SIZE_def MAX_CIPHERTEXT_SIZE_def CIPHER_OVERHEAD_SIZE_def
  MAX_RAW_PACKET_SIZE_def MAX_PACKET_SIZE_def

section \<open>Data\<close>

datatype PacketKind = Sole | First | Mid | Last | Abort

text \<open>The discriminants of the \<open>repr(u8)\<close> enum, as the cast \<open>kind as u16\<close> yields them.\<close>

fun kind_as_u16 :: "PacketKind \<Rightarrow> u16" where
  "kind_as_u16 Sole = 0"
| "kind_as_u16 First = 1"
| "kind_as_u16 Mid = 2"
| "kind_as_u16 Last = 3"
| "kind_as_u16 Abort = 4"

datatype PacketBuildError =
    MessageAlreadyInProgress
  | NoMessageInProgress
  | MessageTypeTooLarge u16

datatype PacketReadError =
    PacketTooShort
  | UnknownKind u8
  | UnexpectedMessageStart (ums_from: u16) (ums_to: u16)
  | MissingMessageStart (mms_msg_type: u16)
  | MessageTypeChange (mtc_from: u16) (mtc_to: u16)

record PacketBuilder =
  pb_in_progress :: bool
  pb_is_first :: bool
  pb_msg_type :: u16
  pb_buf :: bytes

record PacketReader =
  pr_in_progress :: bool
  pr_msg_type :: u16

record PacketHeader =
  ph_kind :: PacketKind
  ph_msg_type :: u16

section \<open>Operations\<close>

definition from_u8 :: "u8 \<Rightarrow> (PacketKind, PacketReadError) result" where
  "from_u8 v =
     (if v = 0 then Ok Sole
      else if v = 1 then Ok First
      else if v = 2 then Ok Mid
      else if v = 3 then Ok Last
      else if v = 4 then Ok Abort
      else Err (UnknownKind v))"

definition builder_new :: PacketBuilder where
  "builder_new = \<lparr>pb_in_progress = False, pb_is_first = False, pb_msg_type = 0, pb_buf = []\<rparr>"

definition prepare :: "PacketBuilder \<Rightarrow> u16 \<Rightarrow> (unit, PacketBuildError) result \<times> PacketBuilder" where
  "prepare b msg_type =
     (if msg_type > TYPE_MASK then (Err (MessageTypeTooLarge msg_type), b)
      else if pb_in_progress b then (Err MessageAlreadyInProgress, b)
      else (Ok (), b\<lparr>pb_in_progress := True, pb_is_first := True, pb_msg_type := msg_type\<rparr>))"

text \<open>The \<open>match (self.is_first, last)\<close> of \<open>pack\<close>.\<close>

fun pack_kind :: "bool \<Rightarrow> bool \<Rightarrow> PacketKind" where
  "pack_kind True True = Sole"
| "pack_kind True False = First"
| "pack_kind False False = Mid"
| "pack_kind False True = Last"

text \<open>\<open>((kind as u16) << KIND_SHIFT) | self.msg_type\<close>.\<close>

definition header_word :: "PacketKind \<Rightarrow> u16 \<Rightarrow> u16" where
  "header_word kind msg_type = push_bit KIND_SHIFT (kind_as_u16 kind) OR msg_type"

definition pack :: "PacketBuilder \<Rightarrow> bytes \<Rightarrow> bool
    \<Rightarrow> (bytes, PacketBuildError) result \<times> PacketBuilder" where
  "pack b payload is_last =
     (if \<not> pb_in_progress b then (Err NoMessageInProgress, b)
      else
        let kind = pack_kind (pb_is_first b) is_last;
            header = header_word kind (pb_msg_type b);
            buf = u16_to_be_bytes header @ payload
        in (Ok buf, b\<lparr>pb_buf := buf, pb_is_first := False, pb_in_progress := \<not> is_last\<rparr>))"

definition abort :: "PacketBuilder \<Rightarrow> bytes option \<times> PacketBuilder" where
  "abort b =
     (if \<not> pb_in_progress b then (None, b)
      else
        let header = header_word Abort (pb_msg_type b);
            buf = u16_to_be_bytes header
        in (Some buf, b\<lparr>pb_buf := buf, pb_in_progress := False, pb_is_first := True\<rparr>))"

definition reader_new :: PacketReader where
  "reader_new = \<lparr>pr_in_progress = False, pr_msg_type = 0\<rparr>"

text \<open>The \<open>match kind\<close> of \<open>PacketReader::read\<close>: the state machine behind the header decoder.\<close>

definition read_kind :: "PacketReader \<Rightarrow> PacketKind \<Rightarrow> u16
    \<Rightarrow> (PacketHeader, PacketReadError) result \<times> PacketReader" where
  "read_kind r kind msg_type =
     (if kind = Sole \<or> kind = First then
        if pr_in_progress r then (Err (UnexpectedMessageStart (pr_msg_type r) msg_type), r)
        else if kind = First then
          (Ok \<lparr>ph_kind = kind, ph_msg_type = msg_type\<rparr>,
           r\<lparr>pr_in_progress := True, pr_msg_type := msg_type\<rparr>)
        else (Ok \<lparr>ph_kind = kind, ph_msg_type = msg_type\<rparr>, r)
      else
        if \<not> pr_in_progress r then (Err (MissingMessageStart msg_type), r)
        else if pr_msg_type r \<noteq> msg_type then
          (Err (MessageTypeChange (pr_msg_type r) msg_type), r)
        else if kind = Last \<or> kind = Abort then
          (Ok \<lparr>ph_kind = kind, ph_msg_type = msg_type\<rparr>,
           r\<lparr>pr_in_progress := False, pr_msg_type := 0\<rparr>)
        else (Ok \<lparr>ph_kind = kind, ph_msg_type = msg_type\<rparr>, r))"

definition read :: "PacketReader \<Rightarrow> bytes
    \<Rightarrow> (PacketHeader, PacketReadError) result \<times> PacketReader" where
  "read r raw_packet =
     (case raw_packet of
        b0 # b1 # _ \<Rightarrow>
          (let header = u16_from_be_bytes b0 b1;
               kind_raw = ucast (drop_bit KIND_SHIFT (header AND KIND_MASK));
               msg_type = header AND TYPE_MASK
           in case from_u8 kind_raw of
                Err e \<Rightarrow> (Err e, r)
              | Ok kind \<Rightarrow> read_kind r kind msg_type)
      | _ \<Rightarrow> (Err PacketTooShort, r))"

lemmas [op_defs] = builder_new_def prepare_def pack_def abort_def reader_new_def read_def

section \<open>Abstract specification\<close>

text \<open>What a message stream is: the type of the open message, if there is one, and how a packet
  of a given kind and type moves it. \<open>None\<close> is a protocol violation.\<close>

fun stream_step :: "u16 option \<Rightarrow> PacketKind \<Rightarrow> u16 \<Rightarrow> u16 option option" where
  "stream_step None Sole t = Some None"
| "stream_step None First t = Some (Some t)"
| "stream_step (Some u) Mid t = (if u = t then Some (Some u) else None)"
| "stream_step (Some u) Last t = (if u = t then Some None else None)"
| "stream_step (Some u) Abort t = (if u = t then Some None else None)"
| "stream_step _ _ _ = None"

definition open_message :: "PacketReader \<Rightarrow> u16 option" where
  "open_message r = (if pr_in_progress r then Some (pr_msg_type r) else None)"

text \<open>A complete stream: whole messages one after the other.\<close>

inductive whole_messages :: "(PacketKind \<times> u16) list \<Rightarrow> bool" where
  no_message: "whole_messages []"
| sole_message: "whole_messages ps \<Longrightarrow> whole_messages ((Sole, t) # ps)"
| split_message: "k \<in> {Last, Abort} \<Longrightarrow> whole_messages ps \<Longrightarrow>
    whole_messages ((First, t) # replicate n (Mid, t) @ (k, t) # ps)"

text \<open>Feeding a sequence of packets to a reader or payloads to a builder, up to the first error.\<close>

fun read_all :: "('r \<Rightarrow> bytes \<Rightarrow> ('h, 'e) result \<times> 'r) \<Rightarrow> 'r \<Rightarrow> bytes list
    \<Rightarrow> ('h list, 'e) result \<times> 'r" where
  "read_all rd r [] = (Ok [], r)"
| "read_all rd r (p # ps) =
     (case rd r p of
        (Err e, r') \<Rightarrow> (Err e, r')
      | (Ok h, r') \<Rightarrow>
          (case read_all rd r' ps of
             (Err e, r'') \<Rightarrow> (Err e, r'')
           | (Ok hs, r'') \<Rightarrow> (Ok (h # hs), r'')))"

fun pack_all :: "('b \<Rightarrow> bytes \<Rightarrow> bool \<Rightarrow> (bytes, 'e) result \<times> 'b) \<Rightarrow> 'b
    \<Rightarrow> (bytes \<times> bool) list \<Rightarrow> (bytes list, 'e) result \<times> 'b" where
  "pack_all pk b [] = (Ok [], b)"
| "pack_all pk b ((payload, is_last) # ps) =
     (case pk b payload is_last of
        (Err e, b') \<Rightarrow> (Err e, b')
      | (Ok raw, b') \<Rightarrow>
          (case pack_all pk b' ps of
             (Err e, b'') \<Rightarrow> (Err e, b'')
           | (Ok raws, b'') \<Rightarrow> (Ok (raw # raws), b'')))"

text \<open>The kinds and the last-flags of the pieces of one message: only the final piece may carry
  \<open>last = true\<close>.\<close>

fun flags_ok :: "bool list \<Rightarrow> bool" where
  "flags_ok [] = True"
| "flags_ok (l # ls) = ((l \<longrightarrow> ls = []) \<and> flags_ok ls)"

fun piece_kinds :: "bool \<Rightarrow> bool list \<Rightarrow> PacketKind list" where
  "piece_kinds is_first [] = []"
| "piece_kinds is_first (l # ls) = pack_kind is_first l # piece_kinds False ls"

section \<open>The header word\<close>

declare drop_bit_and [simp del]

lemma TYPE_MASK_mask: "TYPE_MASK = mask 12"
  by (simp add: TYPE_MASK_def mask_eq_exp_minus_1)

lemma KIND_MASK_not_mask: "KIND_MASK = NOT (mask 12)"
  by (simp add: KIND_MASK_def mask_eq_exp_minus_1)

lemma type_bits [wire_simps]: "w AND TYPE_MASK = take_bit 12 w"
  by (simp add: TYPE_MASK_mask take_bit_eq_mask)

lemma kind_bits [wire_simps]: "drop_bit KIND_SHIFT (w AND KIND_MASK) = drop_bit 12 w"
  unfolding KIND_MASK_not_mask KIND_SHIFT_def
  by (rule bit_word_eqI) (auto simp: bit_simps dest: bit_imp_le_length)

lemma le_TYPE_MASK_iff: "w \<le> TYPE_MASK \<longleftrightarrow> take_bit 12 w = w"
proof
  assume "w \<le> TYPE_MASK"
  then have "unat w < 2 ^ 12" by (simp add: TYPE_MASK_def word_le_nat_alt)
  then show "take_bit 12 w = w"
    by (simp add: word_unat_eq_iff unsigned_take_bit_eq take_bit_nat_eq_self)
next
  assume "take_bit 12 w = w"
  then have "w = w AND TYPE_MASK" by (simp add: type_bits)
  then show "w \<le> TYPE_MASK" by (metis word_and_le1)
qed

lemma le_TYPE_MASK_and [simp]: "w AND TYPE_MASK \<le> TYPE_MASK"
  by (rule word_and_le1)

lemma kind_as_u16_less: "kind_as_u16 k \<le> 4"
  by (cases k) simp_all

lemma header_word_type [wire_simps]:
  assumes "t \<le> TYPE_MASK" shows "header_word k t AND TYPE_MASK = t"
proof -
  have t: "take_bit 12 t = t" using assms by (simp add: le_TYPE_MASK_iff)
  have "take_bit 12 (push_bit 12 (kind_as_u16 k)) = 0" by (simp add: take_bit_push_bit)
  with t show ?thesis
    by (simp add: type_bits header_word_def KIND_SHIFT_def)
qed

lemma header_word_kind [wire_simps]:
  assumes "t \<le> TYPE_MASK"
  shows "drop_bit KIND_SHIFT (header_word k t AND KIND_MASK) = kind_as_u16 k"
proof -
  have "drop_bit 12 t = drop_bit 12 (take_bit 12 t)"
    using assms by (simp add: le_TYPE_MASK_iff)
  then have t: "drop_bit 12 t = 0" by (simp add: drop_bit_take_bit)
  have "drop_bit 12 (push_bit 12 (kind_as_u16 k)) = kind_as_u16 k"
    by (cases k) simp_all
  with t show ?thesis
    unfolding kind_bits by (simp add: header_word_def KIND_SHIFT_def)
qed

lemma from_u8_kind [simp]: "from_u8 (ucast (kind_as_u16 k)) = Ok k"
  by (cases k) (simp_all add: from_u8_def)

lemma from_u8_Ok_iff: "from_u8 v = Ok k \<longleftrightarrow> v = ucast (kind_as_u16 k)"
  by (cases k) (auto simp: from_u8_def)

lemma from_u8_Err_iff: "from_u8 v = Err e \<longleftrightarrow> 4 < v \<and> e = UnknownKind v"
proof (cases "v \<le> 4")
  case True
  then have "v = 0 \<or> v = 1 \<or> v = 2 \<or> v = 3 \<or> v = 4" by unat_arith
  then show ?thesis by (auto simp: from_u8_def)
next
  case False
  then have "v \<noteq> 0" "v \<noteq> 1" "v \<noteq> 2" "v \<noteq> 3" "v \<noteq> 4" by auto
  with False show ?thesis by (auto simp: from_u8_def)
qed

text \<open>Every header word is the header of its own kind nibble and type bits.\<close>

lemma header_word_split:
  assumes "from_u8 (ucast (drop_bit KIND_SHIFT (w AND KIND_MASK))) = Ok k"
  shows "header_word k (w AND TYPE_MASK) = w"
proof -
  have nib: "drop_bit 12 w = kind_as_u16 k"
  proof -
    have k: "(ucast (drop_bit 12 w) :: u8) = ucast (kind_as_u16 k)"
      using assms unfolding from_u8_Ok_iff kind_bits .
    have "bit (drop_bit 12 w) n = bit (kind_as_u16 k) n" if "n < 16" for n
    proof (cases "n < 8")
      case True
      have "bit (ucast (drop_bit 12 w) :: u8) n = bit (ucast (kind_as_u16 k) :: u8) n"
        using k by simp
      with True show ?thesis by (simp add: bit_simps)
    next
      case False
      then have "\<not> bit (drop_bit 12 w) n"
        by (auto simp: bit_drop_bit_eq dest: bit_imp_le_length)
      moreover have "\<not> bit (kind_as_u16 k) n"
      proof -
        have "kind_as_u16 k = take_bit 8 (kind_as_u16 k)" by (cases k) simp_all
        with False show ?thesis by (metis bit_take_bit_iff)
      qed
      ultimately show ?thesis by simp
    qed
    then show ?thesis by (intro bit_word_eqI) simp
  qed
  show ?thesis
    unfolding header_word_def KIND_SHIFT_def nib [symmetric] type_bits
    by (rule bit_word_eqI) (auto simp: bit_simps)
qed

section \<open>The reader against its specification\<close>

text \<open>Decoding the two header bytes of a raw packet, without the stream state.\<close>

definition decode_header :: "bytes \<Rightarrow> (PacketKind \<times> u16, PacketReadError) result" where
  "decode_header raw =
     (case raw of
        b0 # b1 # _ \<Rightarrow>
          and_then
            (from_u8 (ucast (drop_bit KIND_SHIFT (u16_from_be_bytes b0 b1 AND KIND_MASK))))
            (\<lambda>k. Ok (k, u16_from_be_bytes b0 b1 AND TYPE_MASK))
      | _ \<Rightarrow> Err PacketTooShort)"

fun run_stream :: "u16 option \<Rightarrow> (PacketKind \<times> u16) list \<Rightarrow> u16 option option" where
  "run_stream s [] = Some s"
| "run_stream s ((k, t) # ps) =
     (case stream_step s k t of None \<Rightarrow> None | Some s' \<Rightarrow> run_stream s' ps)"

definition reader_inv :: "PacketReader \<Rightarrow> bool" where
  "reader_inv r \<longleftrightarrow> pr_msg_type r \<le> TYPE_MASK \<and> (\<not> pr_in_progress r \<longrightarrow> pr_msg_type r = 0)"

definition builder_inv :: "PacketBuilder \<Rightarrow> bool" where
  "builder_inv b \<longleftrightarrow> pb_msg_type b \<le> TYPE_MASK"

lemma read_decode:
  "read r raw = (case decode_header raw of
     Err e \<Rightarrow> (Err e, r) | Ok (k, t) \<Rightarrow> read_kind r k t)"
  by (auto simp: read_def decode_header_def Let_def split: list.splits result.splits)

lemma decode_header_bytes [simp, wire_simps]:
  assumes "t \<le> TYPE_MASK"
  shows "decode_header (u16_to_be_bytes (header_word k t) @ p) = Ok (k, t)"
  using header_word_type [OF assms, of k] header_word_kind [OF assms, of k]
  by (simp add: decode_header_def u16_to_be_bytes_def)

lemma decode_header_Ok_inv:
  assumes "decode_header raw = Ok (k, t)"
  shows "t \<le> TYPE_MASK \<and> raw = u16_to_be_bytes (header_word k t) @ drop 2 raw"
proof -
  obtain b0 b1 p where raw: "raw = b0 # b1 # p"
    using assms by (auto simp: decode_header_def split: list.splits)
  let ?w = "u16_from_be_bytes b0 b1"
  have k: "from_u8 (ucast (drop_bit KIND_SHIFT (?w AND KIND_MASK))) = Ok k" and t: "t = ?w AND TYPE_MASK"
    using assms by (auto simp: raw decode_header_def and_then_eq_Ok)
  have "u16_to_be_bytes (header_word k t) = [b0, b1]"
    unfolding t header_word_split [OF k] by simp
  with t raw show ?thesis by simp
qed

lemma read_packed [simp, wire_simps]:
  "t \<le> TYPE_MASK \<Longrightarrow> read r (u16_to_be_bytes (header_word k t) @ p) = read_kind r k t"
  by (simp add: read_decode)

lemma read_packed_empty [simp, wire_simps]:
  "t \<le> TYPE_MASK \<Longrightarrow> read r (u16_to_be_bytes (header_word k t)) = read_kind r k t"
  using read_packed [of t r k "[]"] by simp

text \<open>The concrete state machine is a refinement of \<open>stream_step\<close> under \<open>open_message\<close>:
  it accepts exactly what the specification accepts, and a rejected packet leaves it unchanged.\<close>

lemma read_kind_refines:
  "case stream_step (open_message r) k t of
     None \<Rightarrow> (\<exists>e. read_kind r k t = (Err e, r))
   | Some s \<Rightarrow> (\<exists>r'. read_kind r k t = (Ok \<lparr>ph_kind = k, ph_msg_type = t\<rparr>, r') \<and> open_message r' = s)"
  by (cases k) (auto simp: read_kind_def open_message_def)

lemma read_kind_Ok_iff:
  "(\<exists>r'. read_kind r k t = (Ok h, r') \<and> open_message r' = s) \<longleftrightarrow>
   stream_step (open_message r) k t = Some s \<and> h = \<lparr>ph_kind = k, ph_msg_type = t\<rparr>"
  using read_kind_refines [of r k t] by (auto split: option.splits)

lemma read_kind_inv:
  "reader_inv r \<Longrightarrow> t \<le> TYPE_MASK \<Longrightarrow> reader_inv (snd (read_kind r k t))"
  by (auto simp: reader_inv_def read_kind_def)

lemma read_inv: "reader_inv r \<Longrightarrow> reader_inv (snd (read r raw))"
  by (auto simp: read_decode split: result.splits prod.splits
      dest!: decode_header_Ok_inv intro: read_kind_inv)

lemma reader_new_inv: "reader_inv reader_new"
  by (simp add: reader_inv_def reader_new_def)

lemma read_Err_unchanged: "read r raw = (Err e, r') \<Longrightarrow> r' = r"
  by (auto simp: read_decode read_kind_def split: result.splits prod.splits if_splits)

lemma run_stream_mids: "run_stream (Some t) (replicate n (Mid, t) @ ps) = run_stream (Some t) ps"
  by (induction n) simp_all

lemma run_stream_open:
  "run_stream (Some t) ps = Some None \<Longrightarrow>
   \<exists>n k ps'. ps = replicate n (Mid, t) @ (k, t) # ps' \<and> k \<in> {Last, Abort}
     \<and> run_stream None ps' = Some None"
proof (induction ps)
  case Nil
  then show ?case by simp
next
  case (Cons p ps)
  obtain k u where p: "p = (k, u)" by force
  show ?case
  proof (cases "k = Mid")
    case True
    with Cons.prems p have "u = t" and "run_stream (Some t) ps = Some None"
      by (auto split: if_splits)
    then obtain n k' ps' where "ps = replicate n (Mid, t) @ (k', t) # ps'" "k' \<in> {Last, Abort}"
      "run_stream None ps' = Some None"
      using Cons.IH by blast
    then have "p # ps = replicate (Suc n) (Mid, t) @ (k', t) # ps'"
      using True p \<open>u = t\<close> by simp
    with \<open>k' \<in> {Last, Abort}\<close> \<open>run_stream None ps' = Some None\<close> show ?thesis by blast
  next
    case False
    with Cons.prems p have "k \<in> {Last, Abort}" "u = t" "run_stream None ps = Some None"
      by (cases k; auto split: if_splits)+
    with p have "p # ps = replicate 0 (Mid, t) @ (k, t) # ps" by simp
    with \<open>k \<in> {Last, Abort}\<close> \<open>run_stream None ps = Some None\<close> show ?thesis by blast
  qed
qed

lemma run_stream_whole: "run_stream None ps = Some None \<longleftrightarrow> whole_messages ps"
proof
  show "run_stream None ps = Some None" if "whole_messages ps"
    using that by (induction rule: whole_messages.induct) (auto simp: run_stream_mids)
next
  show "whole_messages ps" if "run_stream None ps = Some None"
    using that
  proof (induction "length ps" arbitrary: ps rule: less_induct)
    case less
    show ?case
    proof (cases ps)
      case Nil
      then show ?thesis by (simp add: whole_messages.no_message)
    next
      case (Cons p qs)
      obtain k t where p: "p = (k, t)" by force
      with less.prems Cons consider "k = Sole" "run_stream None qs = Some None"
        | "k = First" "run_stream (Some t) qs = Some None"
        by (cases k) auto
      then show ?thesis
      proof cases
        case 1
        with less.hyps [of qs] Cons p show ?thesis by (simp add: whole_messages.sole_message)
      next
        case 2
        from run_stream_open [OF 2(2)] obtain n k' ps' where
          "qs = replicate n (Mid, t) @ (k', t) # ps'" "k' \<in> {Last, Abort}"
          "run_stream None ps' = Some None" by blast
        with less.hyps [of ps'] Cons p 2(1) show ?thesis
          by (simp add: whole_messages.split_message)
      qed
    qed
  qed
qed

lemma read_all_run_stream:
  "(\<exists>hs r'. read_all read r raws = (Ok hs, r') \<and> open_message r' = s
      \<and> hs = map (\<lambda>(k, t). \<lparr>ph_kind = k, ph_msg_type = t\<rparr>) ps) \<and> map decode_header raws = map Ok ps
   \<longleftrightarrow> map decode_header raws = map Ok ps \<and> run_stream (open_message r) ps = Some s"
proof (induction raws arbitrary: r ps)
  case Nil
  then show ?case by auto
next
  case (Cons raw raws)
  show ?case
  proof (cases ps)
    case Nil
    then show ?thesis by simp
  next
    case (Cons p qs)
    obtain k t where p: "p = (k, t)" by force
    show ?thesis
    proof (cases "stream_step (open_message r) k t")
      case None
      with read_kind_refines [of r k t] show ?thesis
        by (auto simp: Cons p read_decode)
    next
      case (Some s')
      with read_kind_refines [of r k t] obtain r1 where
        "read_kind r k t = (Ok \<lparr>ph_kind = k, ph_msg_type = t\<rparr>, r1)" "open_message r1 = s'" by auto
      with Some Cons.IH [of r1 qs] show ?thesis
        by (auto simp: Cons p read_decode split: result.splits prod.splits)
    qed
  qed
qed

lemma read_all_snoc:
  "read_all rd r xs = (Ok hs, r1) \<Longrightarrow> rd r1 x = (Ok h, r2) \<Longrightarrow>
   read_all rd r (xs @ [x]) = (Ok (hs @ [h]), r2)"
  by (induction xs arbitrary: r hs) (auto split: result.splits prod.splits)

section \<open>The interface between the codec and the packet layer\<close>

text \<open>
  What \<open>PacketTx\<close> and \<open>PacketRx\<close> rely on. \<open>opened\<close> is the type of the message being sent,
  \<open>started\<close> says that a packet of it has left, and \<open>in_step\<close> relates the two ends of a
  connection between packets.
\<close>

locale packet_codec =
  fixes prepare :: "'b \<Rightarrow> u16 \<Rightarrow> (unit, 'e) result \<times> 'b"
    and pack :: "'b \<Rightarrow> bytes \<Rightarrow> bool \<Rightarrow> (bytes, 'e) result \<times> 'b"
    and abort :: "'b \<Rightarrow> bytes option \<times> 'b"
    and read :: "'r \<Rightarrow> bytes \<Rightarrow> (PacketHeader, 'f) result \<times> 'r"
    and opened :: "'b \<Rightarrow> u16 option"
    and started :: "'b \<Rightarrow> bool"
    and in_step :: "'b \<Rightarrow> 'r \<Rightarrow> bool"
  assumes prepare_step:
    "in_step b r \<Longrightarrow> opened b = None \<Longrightarrow> t \<le> TYPE_MASK \<Longrightarrow>
     \<exists>b'. prepare b t = (Ok (), b') \<and> opened b' = Some t \<and> \<not> started b' \<and> in_step b' r"
  and pack_step:
    "in_step b r \<Longrightarrow> opened b = Some t \<Longrightarrow>
     \<exists>raw b' r'. pack b p l = (Ok raw, b')
       \<and> read r raw = (Ok \<lparr>ph_kind = pack_kind (\<not> started b) l, ph_msg_type = t\<rparr>, r')
       \<and> drop 2 raw = p \<and> length raw = length p + 2 \<and> in_step b' r'
       \<and> (if l then opened b' = None else opened b' = Some t \<and> started b')"
  and abort_step:
    "in_step b r \<Longrightarrow> opened b = Some t \<Longrightarrow> started b \<Longrightarrow>
     \<exists>raw b' r'. abort b = (Some raw, b')
       \<and> read r raw = (Ok \<lparr>ph_kind = Abort, ph_msg_type = t\<rparr>, r')
       \<and> length raw = 2 \<and> opened b' = None \<and> in_step b' r'"
  and abort_idle: "opened b = None \<Longrightarrow> abort b = (None, b)"
begin

text \<open>All pieces of a message, sent in order, arrive in order with their payloads.\<close>

lemma pieces_roundtrip:
  assumes "in_step b r" "opened b = Some t" "flags_ok (map snd plan)"
  shows "\<exists>raws b' r'. pack_all pack b plan = (Ok raws, b')
     \<and> read_all read r raws = (Ok (map (\<lambda>k. \<lparr>ph_kind = k, ph_msg_type = t\<rparr>)
          (piece_kinds (\<not> started b) (map snd plan))), r')
     \<and> map (drop 2) raws = map fst plan \<and> in_step b' r'
     \<and> opened b' = (if plan \<noteq> [] \<and> snd (last plan) then None else Some t)"
  using assms
proof (induction plan arbitrary: b r)
  case Nil
  then show ?case by simp
next
  case (Cons piece plan)
  obtain p l where piece: "piece = (p, l)" by force
  from pack_step [OF Cons.prems(1,2), of p l] obtain raw b1 r1 where
    pk: "pack b p l = (Ok raw, b1)"
    and rd: "read r raw = (Ok \<lparr>ph_kind = pack_kind (\<not> started b) l, ph_msg_type = t\<rparr>, r1)"
    and raw: "drop 2 raw = p" and st: "in_step b1 r1"
    and op: "if l then opened b1 = None else opened b1 = Some t \<and> started b1"
    by blast
  show ?case
  proof (cases l)
    case True
    with Cons.prems piece have "plan = []" by simp
    with True pk rd raw st op piece show ?thesis by simp
  next
    case False
    with op have op1: "opened b1 = Some t" and st1: "started b1" by simp_all
    from Cons.prems(3) have fl: "flags_ok (map snd plan)" by simp
    from Cons.IH [OF st op1 fl] obtain raws b' r' where
      IH: "pack_all pack b1 plan = (Ok raws, b')"
        "read_all read r1 raws = (Ok (map (\<lambda>k. \<lparr>ph_kind = k, ph_msg_type = t\<rparr>)
          (piece_kinds (\<not> started b1) (map snd plan))), r')"
        "map (drop 2) raws = map fst plan" "in_step b' r'"
        "opened b' = (if plan \<noteq> [] \<and> snd (last plan) then None else Some t)"
      by blast
    with False pk rd raw piece st1 show ?thesis
      by (intro exI [of _ "raw # raws"] exI [of _ b'] exI [of _ r']) auto
  qed
qed

text \<open>A whole message: \<open>prepare\<close>, then its pieces, the final one flagged.\<close>

lemma message_roundtrip:
  assumes "in_step b r" "opened b = None" "t \<le> TYPE_MASK"
  shows "\<exists>b1 raws b' r'. prepare b t = (Ok (), b1)
     \<and> pack_all pack b1 (map (\<lambda>p. (p, False)) ps @ [(q, True)]) = (Ok raws, b')
     \<and> read_all read r raws = (Ok (map (\<lambda>k. \<lparr>ph_kind = k, ph_msg_type = t\<rparr>)
          (piece_kinds True (map (\<lambda>_. False) ps @ [True]))), r')
     \<and> concat (map (drop 2) raws) = concat ps @ q
     \<and> in_step b' r' \<and> opened b' = None"
proof -
  let ?plan = "map (\<lambda>p. (p, False)) ps @ [(q, True)]"
  from prepare_step [OF assms] obtain b1 where b1: "prepare b t = (Ok (), b1)"
    "opened b1 = Some t" "\<not> started b1" "in_step b1 r" by blast
  have snds: "map snd ?plan = map (\<lambda>_. False) ps @ [True]" by simp
  have "flags_ok (map (\<lambda>_. False) ps @ [True])" by (induction ps) simp_all
  then have "flags_ok (map snd ?plan)" by (simp only: snds)
  from pieces_roundtrip [OF b1(4,2) this] obtain raws b' r' where
    "pack_all pack b1 ?plan = (Ok raws, b')"
    "read_all read r raws = (Ok (map (\<lambda>k. \<lparr>ph_kind = k, ph_msg_type = t\<rparr>)
          (piece_kinds True (map (\<lambda>_. False) ps @ [True]))), r')"
    "map (drop 2) raws = map fst ?plan" "in_step b' r'" "opened b' = None"
    using b1(3) unfolding snds by auto
  moreover have "concat (map fst ?plan) = concat ps @ q" by (simp add: comp_def)
  ultimately show ?thesis using b1(1) by metis
qed

text \<open>A message abandoned after at least one piece reaches the reader as a closing abort.\<close>

lemma open_pieces:
  assumes "in_step b r" "opened b = Some t"
  shows "\<exists>raws b' hs r'. pack_all pack b (map (\<lambda>p. (p, False)) ps) = (Ok raws, b')
      \<and> read_all read r raws = (Ok hs, r') \<and> in_step b' r' \<and> opened b' = Some t
      \<and> (started b \<or> ps \<noteq> [] \<longrightarrow> started b')"
  using assms
proof (induction ps arbitrary: b r)
  case Nil
  then show ?case by simp
next
  case (Cons q qs)
  from pack_step [OF Cons.prems, of q False, simplified] obtain raw c d where
    s: "pack b q False = (Ok raw, c)"
      "read r raw = (Ok \<lparr>ph_kind = pack_kind (\<not> started b) False, ph_msg_type = t\<rparr>, d)"
      "in_step c d" "opened c = Some t" "started c" by blast
  from Cons.IH [OF s(3,4)] s(5) obtain raws b' hs r' where
    "pack_all pack c (map (\<lambda>p. (p, False)) qs) = (Ok raws, b')"
    "read_all read d raws = (Ok hs, r')" "in_step b' r'" "opened b' = Some t" "started b'"
    by blast
  with s show ?case by (intro exI [of _ "raw # raws"]) auto
qed

lemma aborted_roundtrip:
  assumes "in_step b r" "opened b = None" "t \<le> TYPE_MASK" "ps \<noteq> []"
  shows "\<exists>b1 raws b2 raw b' hs r'. prepare b t = (Ok (), b1)
     \<and> pack_all pack b1 (map (\<lambda>p. (p, False)) ps) = (Ok raws, b2)
     \<and> abort b2 = (Some raw, b')
     \<and> read_all read r (raws @ [raw]) = (Ok (hs @ [\<lparr>ph_kind = Abort, ph_msg_type = t\<rparr>]), r')
     \<and> in_step b' r' \<and> opened b' = None"
proof -
  from prepare_step [OF assms(1-3)] obtain b1 where b1: "prepare b t = (Ok (), b1)"
    "opened b1 = Some t" "in_step b1 r" by blast
  from open_pieces [OF b1(3,2), of ps] assms(4) obtain raws b2 hs r2 where
    p: "pack_all pack b1 (map (\<lambda>p. (p, False)) ps) = (Ok raws, b2)"
      "read_all read r raws = (Ok hs, r2)" "in_step b2 r2" "opened b2 = Some t" "started b2"
    by blast
  from abort_step [OF p(3-5)] obtain raw b' r' where
    a: "abort b2 = (Some raw, b')" "read r2 raw = (Ok \<lparr>ph_kind = Abort, ph_msg_type = t\<rparr>, r')"
      "opened b' = None" "in_step b' r'" by blast
  from read_all_snoc [OF p(2) a(2)] b1(1) p(1) a show ?thesis by blast
qed

end

text \<open>The builder and the reader of the source provide the interface.\<close>

definition builder_opened :: "PacketBuilder \<Rightarrow> u16 option" where
  "builder_opened b = (if pb_in_progress b then Some (pb_msg_type b) else None)"

definition builder_started :: "PacketBuilder \<Rightarrow> bool" where
  "builder_started b = (\<not> pb_is_first b)"

definition in_step :: "PacketBuilder \<Rightarrow> PacketReader \<Rightarrow> bool" where
  "in_step b r \<longleftrightarrow> builder_inv b
     \<and> open_message r = (if pb_in_progress b \<and> \<not> pb_is_first b then Some (pb_msg_type b) else None)"

lemmas in_step_defs = in_step_def builder_inv_def open_message_def builder_opened_def builder_started_def

interpretation codec: packet_codec prepare pack abort read builder_opened builder_started in_step
proof
  show "\<exists>b'. prepare b t = (Ok (), b') \<and> builder_opened b' = Some t \<and> \<not> builder_started b' \<and> in_step b' r"
    if "in_step b r" "builder_opened b = None" "t \<le> TYPE_MASK" for b r t
    using that by (auto simp: prepare_def in_step_defs not_less split: if_splits)
next
  show "\<exists>raw b' r'. pack b p l = (Ok raw, b')
       \<and> read r raw = (Ok \<lparr>ph_kind = pack_kind (\<not> builder_started b) l, ph_msg_type = t\<rparr>, r')
       \<and> drop 2 raw = p \<and> length raw = length p + 2 \<and> in_step b' r'
       \<and> (if l then builder_opened b' = None else builder_opened b' = Some t \<and> builder_started b')"
    if "in_step b r" "builder_opened b = Some t" for b r t p l
    using that
    by (cases "pb_is_first b"; cases l)
      (auto simp: pack_def in_step_defs read_kind_def Let_def split: if_splits)
next
  show "\<exists>raw b' r'. abort b = (Some raw, b')
       \<and> read r raw = (Ok \<lparr>ph_kind = Abort, ph_msg_type = t\<rparr>, r')
       \<and> length raw = 2 \<and> builder_opened b' = None \<and> in_step b' r'"
    if "in_step b r" "builder_opened b = Some t" "builder_started b" for b r t
    using that by (auto simp: abort_def in_step_defs read_kind_def Let_def split: if_splits)
next
  show "abort b = (None, b)" if "builder_opened b = None" for b
    using that by (auto simp: abort_def builder_opened_def split: if_splits)
qed

lemma in_step_new: "in_step builder_new reader_new" and builder_opened_new [simp]: "builder_opened builder_new = None"
  by (simp_all add: in_step_defs builder_new_def reader_new_def)

end
