(* ===== verification/Packet_Stream.thy ===== *)
theory Packet_Stream
  imports Packet_State
begin

text \<open>
  The properties of \<open>src/packet_state.rs\<close> for whole runs: which streams of packets a \<open>PacketReader\<close>
  accepts, that its state machine refines the abstract one, what a \<open>PacketBuilder\<close> emits under
  any sequence of calls, and that headers and messages are read back.
\<close>

section \<open>Runs of the builder\<close>

datatype builder_call = Prepare u16 | Pack bytes bool | AbortCall

text \<open>The packets emitted by a sequence of calls, whatever each of them returned.\<close>

fun builder_run :: "PacketBuilder \<Rightarrow> builder_call list \<Rightarrow> bytes list \<times> PacketBuilder" where
  "builder_run b [] = ([], b)"
| "builder_run b (Prepare t # cs) = builder_run (snd (prepare b t)) cs"
| "builder_run b (Pack p l # cs) =
     (case pack b p l of
        (Err _, b) \<Rightarrow> builder_run b cs
      | (Ok raw, b) \<Rightarrow> (case builder_run b cs of (raws, b) \<Rightarrow> (raw # raws, b)))"
| "builder_run b (AbortCall # cs) =
     (case abort b of
        (None, b) \<Rightarrow> builder_run b cs
      | (Some raw, b) \<Rightarrow> (case builder_run b cs of (raws, b) \<Rightarrow> (raw # raws, b)))"

text \<open>The message of an \<open>abort\<close> has had no packet yet.\<close>

fun early_abort :: "PacketBuilder \<Rightarrow> builder_call list \<Rightarrow> bool" where
  "early_abort b [] = False"
| "early_abort b (Prepare t # cs) = early_abort (snd (prepare b t)) cs"
| "early_abort b (Pack p l # cs) = early_abort (snd (pack b p l)) cs"
| "early_abort b (AbortCall # cs) =
     (pb_in_progress b \<and> pb_is_first b \<or> early_abort (snd (abort b)) cs)"

lemma in_step_prepare: "in_step b r \<Longrightarrow> in_step (snd (prepare b t)) r"
  by (auto simp: prepare_def in_step_defs not_less split: if_splits)

lemma in_step_idle_pack: "builder_opened b = None \<Longrightarrow> pack b p l = (Err NoMessageInProgress, b)"
  by (auto simp: pack_def builder_opened_def split: if_splits)

lemma builder_run_accepted:
  "in_step b r \<Longrightarrow> \<not> early_abort b cs \<Longrightarrow>
   \<exists>hs r'. read_all read r (fst (builder_run b cs)) = (Ok hs, r') \<and> in_step (snd (builder_run b cs)) r'"
proof (induction b cs arbitrary: r rule: builder_run.induct)
  case (2 b t cs)
  then show ?case by (simp add: in_step_prepare)
next
  case (3 b p l cs)
  show ?case
  proof (cases "builder_opened b")
    case None
    from 3(2) [OF in_step_idle_pack [OF None, symmetric] refl 3(3)] 3(4) in_step_idle_pack [OF None] show ?thesis by simp
  next
    case (Some t)
    from codec.pack_step [OF 3(3) Some, of p l] obtain raw b1 h r1 where
      s: "pack b p l = (Ok raw, b1)" "read r raw = (Ok h, r1)" "in_step b1 r1" by blast
    from 3(1) [OF s(1) [symmetric] refl s(3)] 3(4) s show ?thesis
      by (auto split: prod.splits)
  qed
next
  case (4 b cs)
  show ?case
  proof (cases "builder_opened b")
    case None
    from 4(1) [OF codec.abort_idle [OF None, symmetric]] 4(3,4) codec.abort_idle [OF None] show ?thesis by simp
  next
    case (Some t)
    with 4(4) have "builder_started b" by (auto simp: builder_opened_def builder_started_def split: if_splits)
    from codec.abort_step [OF 4(3) Some this] obtain raw b1 h r1 where
      s: "abort b = (Some raw, b1)" "read r raw = (Ok h, r1)" "in_step b1 r1" by blast
    from 4(2) [OF s(1) [symmetric] refl s(3)] 4(4) s show ?thesis
      by (auto split: prod.splits)
  qed
qed simp

section \<open>Encoded packets\<close>

definition encode_packet :: "PacketKind \<times> u16 \<times> bytes \<Rightarrow> bytes" where
  "encode_packet pkt = (case pkt of (k, t, p) \<Rightarrow> u16_to_be_bytes (header_word k t) @ p)"

lemma decode_encode: "map decode_header raws = map Ok ps \<longleftrightarrow>
  (\<exists>pkts. raws = map encode_packet pkts \<and> list_all (\<lambda>(k, t, p). t \<le> TYPE_MASK) pkts
     \<and> ps = map (\<lambda>(k, t, p). (k, t)) pkts)"
proof (induction raws arbitrary: ps)
  case (Cons raw raws)
  show ?case
  proof (cases ps)
    case (Cons q qs)
    obtain k t where q: "q = (k, t)" by force
    have "decode_header raw = Ok (k, t) \<longleftrightarrow> t \<le> TYPE_MASK \<and> (\<exists>p. raw = encode_packet (k, t, p))"
      by (auto simp: encode_packet_def dest: decode_header_Ok_inv)
    with Cons.IH [of qs] show ?thesis
      by (auto simp: Cons q Cons_eq_map_conv map_eq_Cons_conv) (rule_tac x = "(k, t, p) # pkts" in exI, simp)+
  qed auto
qed auto

lemma read_all_decodes: "read_all read r raws = (Ok hs, r') \<Longrightarrow>
  map decode_header raws = map (\<lambda>h. Ok (ph_kind h, ph_msg_type h)) hs"
proof (induction raws arbitrary: r hs)
  case (Cons raw raws)
  then obtain h r1 hs' where h: "read r raw = (Ok h, r1)" "read_all read r1 raws = (Ok hs', r')" "hs = h # hs'"
    by (auto split: prod.splits result.splits)
  from h(1) have "decode_header raw = Ok (ph_kind h, ph_msg_type h)"
    by (auto simp: read_decode read_kind_def split: result.splits prod.splits if_splits)
  with h Cons.IH [of r1 hs'] show ?case by simp
qed simp

lemma read_all_runs:
  assumes "map decode_header raws = map Ok ps"
  shows "run_stream (open_message r) ps = Some s \<longleftrightarrow>
    (\<exists>r'. read_all read r raws = (Ok (map (\<lambda>(k, t). \<lparr>ph_kind = k, ph_msg_type = t\<rparr>) ps), r') \<and> open_message r' = s)"
  using read_all_run_stream [of r raws s ps] assms by simp

section \<open>Properties\<close>

text \<open>C7: The reader accepts exactly the streams of whole messages: a fresh \<open>PacketReader\<close> reads all of
  \<open>raws\<close> without an error and ends with no message open if and only if \<open>raws\<close> are the encodings of
  packets, with types of at most 12 bits, that form whole messages one after the other (a \<open>Sole\<close>
  packet, or a \<open>First\<close>, any number of \<open>Mid\<close> and a \<open>Last\<close> or \<open>Abort\<close>, all of one type).\<close>

theorem reader_accepts_whole_messages:
  "(\<exists>hs r. read_all read reader_new raws = (Ok hs, r) \<and> \<not> pr_in_progress r) \<longleftrightarrow>
   (\<exists>pkts. raws = map encode_packet pkts \<and> list_all (\<lambda>(k, t, p). t \<le> TYPE_MASK) pkts
      \<and> whole_messages (map (\<lambda>(k, t, p). (k, t)) pkts))"
proof -
  have new: "open_message reader_new = None" by (simp add: open_message_def reader_new_def)
  have closed: "\<not> pr_in_progress r \<longleftrightarrow> open_message r = None" for r by (simp add: open_message_def)
  have "(\<exists>hs r. read_all read reader_new raws = (Ok hs, r) \<and> \<not> pr_in_progress r) \<longleftrightarrow>
    (\<exists>ps. map decode_header raws = map Ok ps \<and> run_stream None ps = Some None)" (is "?acc \<longleftrightarrow> ?run")
  proof
    assume ?acc
    then obtain hs r where h: "read_all read reader_new raws = (Ok hs, r)" "open_message r = None"
      unfolding closed by blast
    let ?ps = "map (\<lambda>h. (ph_kind h, ph_msg_type h)) hs"
    have "map decode_header raws = map Ok ?ps" using read_all_decodes [OF h(1)] by simp
    moreover have "hs = map (\<lambda>(k, t). \<lparr>ph_kind = k, ph_msg_type = t\<rparr>) ?ps" by (induction hs) simp_all
    ultimately have "run_stream None ?ps = Some None"
      using read_all_runs [of raws ?ps reader_new None] h unfolding new by simp
    with \<open>map decode_header raws = map Ok ?ps\<close> show ?run by blast
  next
    assume ?run
    then show ?acc using read_all_runs [of raws _ reader_new None] unfolding new closed by blast
  qed
  then show ?thesis unfolding run_stream_whole decode_encode by blast
qed

text \<open>C25: One call of the reader, for every state and every input: a packet that is too short or has an
  unknown kind is refused; otherwise the reader does what the abstract message stream allows, and
  where the stream allows nothing it reports which rule was broken; after an error it is unchanged.\<close>

theorem read_refines_stream:
  "read r raw =
    (case decode_header raw of
       Err e \<Rightarrow> (Err e, r)
     | Ok (k, t) \<Rightarrow>
         (case stream_step (open_message r) k t of
            Some s \<Rightarrow> (Ok \<lparr>ph_kind = k, ph_msg_type = t\<rparr>, snd (read r raw))
          | None \<Rightarrow>
              (Err (case open_message r of
                      None \<Rightarrow> MissingMessageStart t
                    | Some u \<Rightarrow> if k = Sole \<or> k = First then UnexpectedMessageStart u t else MessageTypeChange u t), r)))
   \<and> open_message (snd (read r raw)) =
       (case decode_header raw of
          Err e \<Rightarrow> open_message r
        | Ok (k, t) \<Rightarrow> (case stream_step (open_message r) k t of Some s \<Rightarrow> s | None \<Rightarrow> open_message r))"
proof (cases "decode_header raw")
  case (Ok kt)
  then show ?thesis
    by (cases kt; cases "fst kt"; cases "pr_in_progress r")
      (simp_all add: read_decode read_kind_def open_message_def)
qed (simp add: read_decode)

lemma decode_header_cases:
  obtains "raw = []" | b0 where "raw = [b0]" | b0 b1 p where "raw = b0 # b1 # p"
  by (metis list.exhaust)

lemma kind_nibble: "ucast (drop_bit KIND_SHIFT (u16_from_be_bytes b0 b1 AND KIND_MASK)) = drop_bit 4 b0"
  unfolding kind_bits u16_from_be_bytes_def
  by (rule bit_word_eqI) (auto simp: bit_simps dest: bit_imp_le_length)

lemma nibble_less: "4 < drop_bit 4 (b :: u8) \<longleftrightarrow> 0x4F < b"
proof -
  have "unat (drop_bit 4 b) = unat b div 16" by (simp add: drop_bit_eq_div unat_div)
  then show ?thesis by (simp add: word_less_nat_alt) linarith
qed

text \<open>C27: The header format loses nothing: the two bytes of a packet decode to a kind and a type exactly
  when the type fits in 12 bits and they are the encoding of that kind and type; everything else,
  and nothing of five kinds, is refused as too short or of unknown kind.\<close>

theorem header_roundtrip:
  "(decode_header raw = Ok (k, t) \<longleftrightarrow> t \<le> TYPE_MASK \<and> (\<exists>p. raw = encode_packet (k, t, p)))
   \<and> (decode_header raw = Err e \<longleftrightarrow>
        (case raw of
           b0 # b1 # _ \<Rightarrow> 0x4F < b0 \<and> e = UnknownKind (drop_bit 4 b0)
         | _ \<Rightarrow> e = PacketTooShort))"
proof (rule conjI)
  show "decode_header raw = Ok (k, t) \<longleftrightarrow> t \<le> TYPE_MASK \<and> (\<exists>p. raw = encode_packet (k, t, p))"
    by (auto simp: encode_packet_def dest: decode_header_Ok_inv)
next
  have "from_u8 (drop_bit 4 b0) = Err e \<longleftrightarrow> 0x4F < b0 \<and> e = UnknownKind (drop_bit 4 b0)" for b0
    by (simp add: from_u8_Err_iff nibble_less)
  then show "decode_header raw = Err e \<longleftrightarrow> (case raw of
      b0 # b1 # _ \<Rightarrow> 0x4F < b0 \<and> e = UnknownKind (drop_bit 4 b0) | _ \<Rightarrow> e = PacketTooShort)"
    by (cases raw rule: decode_header_cases)
      (auto simp: decode_header_def kind_nibble and_then_eq_Err)
qed

text \<open>C24: However the builder is called, what it emits is a message stream: the packets emitted by any
  sequence of \<open>prepare\<close>, \<open>pack\<close> and \<open>abort\<close> calls on a fresh builder, with the refused calls left in, are
  all accepted by a fresh reader, in order, and the message the reader has open at the end is the one
  the builder has begun to send. The one exception is an \<open>abort\<close> between \<open>prepare\<close> and the first
  \<open>pack\<close>.\<close>

theorem builder_stream_accepted:
  assumes "\<not> early_abort builder_new cs" and "builder_run builder_new cs = (raws, b)"
  shows "\<exists>hs r. read_all read reader_new raws = (Ok hs, r)
    \<and> open_message r = (if pb_in_progress b \<and> \<not> pb_is_first b then Some (pb_msg_type b) else None)"
  using builder_run_accepted [OF in_step_new assms(1)] by (auto simp: assms(2) in_step_def)

theorem builder_stream_accepted_witness:
  "\<exists>hs r. read_all read reader_new
      (fst (builder_run builder_new [Prepare 5, Prepare 6, Pack [1] False, AbortCall, Pack [] True, Prepare 7, Pack [2] True]))
    = (Ok hs, r) \<and> open_message r = None"
proof -
  let ?cs = "[Prepare 5, Prepare 6, Pack [1] False, AbortCall, Pack [] True, Prepare 7, Pack [2] True]"
  have "\<not> early_abort builder_new ?cs"
    by (simp add: Let_def prepare_def pack_def abort_def builder_new_def TYPE_MASK_def)
  moreover have "\<not> pb_in_progress (snd (builder_run builder_new ?cs))"
    by (simp add: Let_def prepare_def pack_def abort_def builder_new_def TYPE_MASK_def split: prod.splits)
  ultimately show ?thesis
    using builder_stream_accepted [of ?cs "fst (builder_run builder_new ?cs)" "snd (builder_run builder_new ?cs)"] by simp
qed

text \<open>C26: A message packed by one end is read back by the other: for a builder and a reader that are in
  step and between messages, after \<open>prepare\<close> with a 12-bit type, packing any pieces and a final one
  succeeds, the reader accepts every packet as one message of that type (\<open>Sole\<close>, or \<open>First\<close>, \<open>Mid\<close>s,
  \<open>Last\<close>), the payloads put together are the pieces put together, and the two ends are in step and
  between messages again.\<close>

theorem packed_message_read_back:
  assumes "in_step b r" "builder_opened b = None" "t \<le> TYPE_MASK"
  shows "\<exists>b1 raws b' r'. prepare b t = (Ok (), b1)
     \<and> pack_all pack b1 (map (\<lambda>p. (p, False)) ps @ [(q, True)]) = (Ok raws, b')
     \<and> read_all read r raws = (Ok (map (\<lambda>k. \<lparr>ph_kind = k, ph_msg_type = t\<rparr>)
          (piece_kinds True (map (\<lambda>_. False) ps @ [True]))), r')
     \<and> concat (map (drop 2) raws) = concat ps @ q
     \<and> in_step b' r' \<and> builder_opened b' = None"
  using assms by (rule codec.message_roundtrip)

theorem packed_message_read_back_witness:
  "\<exists>b1 raws b' r'. prepare builder_new 9 = (Ok (), b1)
     \<and> pack_all pack b1 [([1, 2], False), ([3], False), ([], True)] = (Ok raws, b')
     \<and> read_all read reader_new raws = (Ok [\<lparr>ph_kind = First, ph_msg_type = 9\<rparr>, \<lparr>ph_kind = Mid, ph_msg_type = 9\<rparr>,
          \<lparr>ph_kind = Last, ph_msg_type = 9\<rparr>], r')
     \<and> concat (map (drop 2) raws) = [1, 2, 3]"
  using packed_message_read_back [OF in_step_new builder_opened_new, of 9 "[[1, 2], [3]]" "[]"]
  by (auto simp: TYPE_MASK_def)

end
