(* ===== verification/Transport_Keys.thy ===== *)
theory Transport_Keys
  imports Snow_Prelude
begin

text \<open>
  Model of \<open>src/noise.rs\<close> (the X25519 transport keys) and of the key-text conventions shared by
  all key types of the crate.

  The \<open>hex\<close> crate, the \<open>serde\<close> serializers and deserializers and the \<open>snow\<close> key generator
  are not part of the repository: they are arguments of the definitions (\<open>hex_lib\<close>,
  \<open>serializer\<close>, \<open>deserializer\<close>, the generated keypair). \<open>hex_laws\<close> states the documented
  behaviour of \<open>hex\<close> the code relies on.

  The locale \<open>text_key\<close> is the contract all key types share: what is printed parses back,
  and every parsed key is well formed.
\<close>

section \<open>Library interfaces\<close>

record 'he hex_lib =
  hex_encode :: "bytes \<Rightarrow> string"
  hex_decode :: "string \<Rightarrow> (bytes, 'he) result"

text \<open>Documented behaviour of the \<open>hex\<close> crate: decoding inverts encoding.\<close>

definition hex_laws :: "'he hex_lib \<Rightarrow> bool" where
  "hex_laws hx \<longleftrightarrow> (\<forall>bs. hex_decode hx (hex_encode hx bs) = Ok bs)"

text \<open>A serde serializer, as far as the key types use it: whether the format is human readable and
  what it makes of a string, of a fixed-size array and of a byte sequence.\<close>

record 'ok serializer =
  ser_is_human_readable :: bool
  ser_str :: "string \<Rightarrow> 'ok"
  ser_array32 :: "bytes \<Rightarrow> 'ok"
  ser_seq :: "bytes \<Rightarrow> 'ok"

text \<open>A serde deserializer at one input: what it answers when it is asked for a string, a 32-byte
  array or a byte vector, and how it wraps a custom error.\<close>

record ('he, 'de) deserializer =
  de_is_human_readable :: bool
  de_string :: "(string, 'de) result"
  de_array32 :: "(bytes, 'de) result"
  de_vec :: "(bytes, 'de) result"
  de_custom :: "string \<Rightarrow> 'de"
  de_custom_hex :: "'he \<Rightarrow> 'de"

datatype MalformedKeyError = MalformedKeyError

datatype KeyGenError = KeyGenError string

section \<open>Key types\<close>

text \<open>A 32-byte array is a byte list; \<open>length = 32\<close> is its type invariant.\<close>

datatype TransportPublicKey = TransportPublicKey bytes

datatype TransportPrivateKey = TransportPrivateKey bytes

record TransportKeypair =
  tk_public :: TransportPublicKey
  tk_private :: TransportPrivateKey

fun tpub_as_bytes :: "TransportPublicKey \<Rightarrow> bytes" where
  "tpub_as_bytes (TransportPublicKey bs) = bs"

fun tpriv_expose :: "TransportPrivateKey \<Rightarrow> bytes" where
  "tpriv_expose (TransportPrivateKey bs) = bs"

definition tpub_ok :: "TransportPublicKey \<Rightarrow> bool" where
  "tpub_ok k \<longleftrightarrow> length (tpub_as_bytes k) = 32"

definition tpriv_ok :: "TransportPrivateKey \<Rightarrow> bool" where
  "tpriv_ok k \<longleftrightarrow> length (tpriv_expose k) = 32"

section \<open>Operations\<close>

definition tpub_from_array :: "bytes \<Rightarrow> TransportPublicKey" where
  [simp]: "tpub_from_array bs = TransportPublicKey bs"

definition tpriv_from_array :: "bytes \<Rightarrow> TransportPrivateKey" where
  [simp]: "tpriv_from_array bs = TransportPrivateKey bs"

definition tpub_try_from_str :: "'he hex_lib \<Rightarrow> string
    \<Rightarrow> (TransportPublicKey, MalformedKeyError) result" where
  "tpub_try_from_str hx value =
     (case hex_decode hx value of
        Err _ \<Rightarrow> Err MalformedKeyError
      | Ok bs \<Rightarrow>
          (case try_into_array32 bs of
             None \<Rightarrow> Err MalformedKeyError
           | Some arr \<Rightarrow> Ok (tpub_from_array arr)))"

definition tpub_display :: "'he hex_lib \<Rightarrow> TransportPublicKey \<Rightarrow> string" where
  "tpub_display hx k = hex_encode hx (tpub_as_bytes k)"

definition tpub_debug :: "'he hex_lib \<Rightarrow> TransportPublicKey \<Rightarrow> string" where
  "tpub_debug hx k = ''TransportPublicKey('' @ hex_encode hx (tpub_as_bytes k) @ '')''"

definition tpub_serialize :: "'he hex_lib \<Rightarrow> 'ok serializer \<Rightarrow> TransportPublicKey \<Rightarrow> 'ok" where
  "tpub_serialize hx s k =
     (if ser_is_human_readable s then ser_str s (hex_encode hx (tpub_as_bytes k))
      else ser_array32 s (tpub_as_bytes k))"

definition tpub_deserialize :: "'he hex_lib \<Rightarrow> ('he, 'de) deserializer
    \<Rightarrow> (TransportPublicKey, 'de) result" where
  "tpub_deserialize hx d =
     (if de_is_human_readable d then
        case de_string d of
          Err e \<Rightarrow> Err e
        | Ok s \<Rightarrow>
            (case hex_decode hx s of
               Err e \<Rightarrow> Err (de_custom_hex d e)
             | Ok bs \<Rightarrow>
                 (case try_into_array32 bs of
                    None \<Rightarrow> Err (de_custom d ''TransportPublicKey must be 32 bytes'')
                  | Some arr \<Rightarrow> Ok (TransportPublicKey arr)))
      else
        case de_array32 d of Err e \<Rightarrow> Err e | Ok arr \<Rightarrow> Ok (TransportPublicKey arr))"

definition tpriv_expose_to_human_string :: "'he hex_lib \<Rightarrow> TransportPrivateKey \<Rightarrow> string" where
  "tpriv_expose_to_human_string hx k = hex_encode hx (tpriv_expose k)"

definition tpriv_try_from_str :: "'he hex_lib \<Rightarrow> string
    \<Rightarrow> (TransportPrivateKey, MalformedKeyError) result" where
  "tpriv_try_from_str hx value =
     (case hex_decode hx value of
        Err _ \<Rightarrow> Err MalformedKeyError
      | Ok bs \<Rightarrow>
          (case try_into_array32 bs of
             None \<Rightarrow> Err MalformedKeyError
           | Some arr \<Rightarrow> Ok (tpriv_from_array arr)))"

definition tpriv_debug :: "TransportPrivateKey \<Rightarrow> string" where
  "tpriv_debug k = ''TransportPrivateKey([redacted])''"

definition tpriv_serialize :: "'he hex_lib \<Rightarrow> 'ok serializer \<Rightarrow> TransportPrivateKey \<Rightarrow> 'ok" where
  "tpriv_serialize hx s k =
     (if ser_is_human_readable s then ser_str s (hex_encode hx (tpriv_expose k))
      else ser_array32 s (tpriv_expose k))"

definition tpriv_deserialize :: "'he hex_lib \<Rightarrow> ('he, 'de) deserializer
    \<Rightarrow> (TransportPrivateKey, 'de) result" where
  "tpriv_deserialize hx d =
     (if de_is_human_readable d then
        case de_string d of
          Err e \<Rightarrow> Err e
        | Ok s \<Rightarrow>
            (case hex_decode hx s of
               Err e \<Rightarrow> Err (de_custom_hex d e)
             | Ok bs \<Rightarrow>
                 (case try_into_array32 bs of
                    None \<Rightarrow> Err (de_custom d ''TransportPrivateKey must be 32 bytes'')
                  | Some arr \<Rightarrow> Ok (TransportPrivateKey arr)))
      else
        case de_array32 d of Err e \<Rightarrow> Err e | Ok arr \<Rightarrow> Ok (TransportPrivateKey arr))"

text \<open>\<open>TransportKeypair::generate\<close>, given what \<open>snow::Builder::generate_keypair\<close> returned:
  an error with its text, or the public and the private key bytes.\<close>

definition transport_generate :: "(bytes \<times> bytes, string) result
    \<Rightarrow> (TransportKeypair, KeyGenError) result" where
  "transport_generate generated =
     (case generated of
        Err e \<Rightarrow> Err (KeyGenError (''failed to generate X25519 keypair: '' @ e))
      | Ok (public, private) \<Rightarrow>
          (case try_into_array32 public of
             None \<Rightarrow> Err (KeyGenError ''unexpected public key length'')
           | Some public_bytes \<Rightarrow>
               (case try_into_array32 private of
                  None \<Rightarrow> Err (KeyGenError ''unexpected private key length'')
                | Some private_bytes \<Rightarrow>
                    Ok \<lparr>tk_public = tpub_from_array public_bytes,
                        tk_private = tpriv_from_array private_bytes\<rparr>)))"

section \<open>The contract of a key with a text form\<close>

text \<open>
  \<open>lib_ok\<close> is the contract of the libraries underneath, \<open>key_ok\<close> the well-formedness of keys.
  \<open>store\<close> and \<open>load\<close> are the serde forms: a key is written through a serializer and read from a
  deserializer; \<open>reads_back s d\<close> says that \<open>d\<close> answers with what \<open>s\<close> was given.
\<close>

definition reads_back :: "'ok serializer \<Rightarrow> 'ok \<Rightarrow> ('he, 'de) deserializer \<Rightarrow> bool" where
  "reads_back s out d \<longleftrightarrow> de_is_human_readable d = ser_is_human_readable s
     \<and> (\<forall>x. out = ser_str s x \<longrightarrow> de_is_human_readable d \<longrightarrow> de_string d = Ok x)
     \<and> (\<forall>x. out = ser_array32 s x \<longrightarrow> \<not> de_is_human_readable d \<longrightarrow> de_array32 d = Ok x)
     \<and> (\<forall>x. out = ser_seq s x \<longrightarrow> \<not> de_is_human_readable d \<longrightarrow> de_vec d = Ok x)"

locale text_key =
  fixes lib_ok :: bool
    and key_ok :: "'k \<Rightarrow> bool"
    and to_text :: "'k \<Rightarrow> string"
    and of_text :: "string \<Rightarrow> ('k, 'e) result"
    and store :: "'ok serializer \<Rightarrow> 'k \<Rightarrow> 'ok"
    and load :: "('he, 'de) deserializer \<Rightarrow> ('k, 'de) result"
  assumes of_to_text: "lib_ok \<Longrightarrow> key_ok k \<Longrightarrow> of_text (to_text k) = Ok k"
    and of_text_ok: "of_text s = Ok k \<Longrightarrow> key_ok k"
    and load_store: "lib_ok \<Longrightarrow> key_ok k \<Longrightarrow> reads_back sr (store sr k) d \<Longrightarrow> load d = Ok k"
begin

lemma to_text_inj: "lib_ok \<Longrightarrow> inj_on to_text {k. key_ok k}"
  by (rule inj_on_inverseI [where g = "\<lambda>s. case of_text s of Ok k \<Rightarrow> k"]) (simp add: of_to_text)

lemma reparse: "lib_ok \<Longrightarrow> of_text s = Ok k \<Longrightarrow> of_text (to_text k) = Ok k"
  by (simp add: of_text_ok of_to_text)

end

interpretation tpub: text_key "hex_laws hx" tpub_ok "tpub_display hx" "tpub_try_from_str hx"
  "tpub_serialize hx" "tpub_deserialize hx" for hx
proof
  show "tpub_try_from_str hx (tpub_display hx k) = Ok k" if "hex_laws hx" "tpub_ok k" for k
    using that by (cases k)
      (auto simp: tpub_try_from_str_def tpub_display_def hex_laws_def tpub_ok_def try_into_array32_def)
  show "tpub_ok k" if "tpub_try_from_str hx s = Ok k" for s k
    using that by (auto simp: tpub_try_from_str_def tpub_ok_def split: result.splits option.splits)
  show "tpub_deserialize hx d = Ok k"
    if "hex_laws hx" "tpub_ok k" "reads_back s (tpub_serialize hx s k) d"
    for k and s :: "'x serializer" and d :: "('a, 'y) deserializer"
    using that by (cases k)
      (auto simp: tpub_deserialize_def tpub_serialize_def reads_back_def hex_laws_def tpub_ok_def
        try_into_array32_def)
qed

interpretation tpriv: text_key "hex_laws hx" tpriv_ok "tpriv_expose_to_human_string hx"
  "tpriv_try_from_str hx" "tpriv_serialize hx" "tpriv_deserialize hx" for hx
proof
  show "tpriv_try_from_str hx (tpriv_expose_to_human_string hx k) = Ok k"
    if "hex_laws hx" "tpriv_ok k" for k
    using that by (cases k) (auto simp: tpriv_try_from_str_def tpriv_expose_to_human_string_def
        hex_laws_def tpriv_ok_def try_into_array32_def)
  show "tpriv_ok k" if "tpriv_try_from_str hx s = Ok k" for s k
    using that by (auto simp: tpriv_try_from_str_def tpriv_ok_def split: result.splits option.splits)
  show "tpriv_deserialize hx d = Ok k"
    if "hex_laws hx" "tpriv_ok k" "reads_back s (tpriv_serialize hx s k) d"
    for k and s :: "'x serializer" and d :: "('a, 'y) deserializer"
    using that by (cases k)
      (auto simp: tpriv_deserialize_def tpriv_serialize_def reads_back_def hex_laws_def tpriv_ok_def
        try_into_array32_def)
qed

end
