(* ===== verification/Node_Id.thy ===== *)
theory Node_Id
  imports Transport_Keys
begin

text \<open>
  Model of \<open>src/node_id.rs\<close>: the opaque, length-bounded identity of a node. The tuple struct
  \<open>NodeId(Vec<u8>)\<close> is a datatype with one constructor; \<open>try_from_bytes\<close> and the two
  \<open>From\<close> impls are its public constructors. The derived \<open>Serialize\<close> and \<open>Deserialize\<close> of the tuple
  struct are those of the byte vector in it, for the formats of theory \<open>Transport_Keys\<close>.
\<close>

definition MAX_NODE_ID_LEN :: nat where
  "MAX_NODE_ID_LEN = 512"

datatype NodeIdTooLong = NodeIdTooLong nat

datatype NodeId = NodeId bytes

definition try_from_bytes :: "bytes \<Rightarrow> (NodeId, NodeIdTooLong) result" where
  "try_from_bytes bs =
     (if length bs > MAX_NODE_ID_LEN then Err (NodeIdTooLong (length bs)) else Ok (NodeId bs))"

fun node_id_as_bytes :: "NodeId \<Rightarrow> bytes" where
  "node_id_as_bytes (NodeId bs) = bs"

definition NodeId_from_u64 :: "u64 \<Rightarrow> NodeId" where
  "NodeId_from_u64 value = NodeId (u64_to_be_bytes value)"

definition NodeId_from_u32 :: "u32 \<Rightarrow> NodeId" where
  "NodeId_from_u32 value = NodeId (u32_to_be_bytes value)"

definition node_id_serialize :: "'ok serializer \<Rightarrow> NodeId \<Rightarrow> 'ok" where
  "node_id_serialize s n = ser_seq s (node_id_as_bytes n)"

definition node_id_deserialize :: "('he, 'de) deserializer \<Rightarrow> (NodeId, 'de) result" where
  "node_id_deserialize d = (case de_vec d of Err e \<Rightarrow> Err e | Ok bs \<Rightarrow> Ok (NodeId bs))"

text \<open>The bound every id built through the three constructors satisfies.\<close>

definition node_id_ok :: "NodeId \<Rightarrow> bool" where
  "node_id_ok n \<longleftrightarrow> length (node_id_as_bytes n) \<le> MAX_NODE_ID_LEN"

lemma node_id_eq_iff: "m = n \<longleftrightarrow> node_id_as_bytes m = node_id_as_bytes n"
  by (cases m; cases n) simp

lemma try_from_bytes_Ok_iff:
  "try_from_bytes bs = Ok n \<longleftrightarrow> node_id_as_bytes n = bs \<and> node_id_ok n"
  by (cases n) (auto simp: try_from_bytes_def node_id_ok_def)

lemma try_from_bytes_as_bytes [simp]: "node_id_ok n \<Longrightarrow> try_from_bytes (node_id_as_bytes n) = Ok n"
  by (simp add: try_from_bytes_Ok_iff)

lemma try_from_bytes_too_long:
  "\<not> node_id_ok n \<Longrightarrow> try_from_bytes (node_id_as_bytes n)
     = Err (NodeIdTooLong (length (node_id_as_bytes n)))"
  by (simp add: try_from_bytes_def node_id_ok_def)

text \<open>C39: The three public constructors of \<open>NodeId\<close> are sound and unambiguous:
  \<open>try_from_bytes\<close> accepts exactly the byte vectors of at most \<open>MAX_NODE_ID_LEN\<close> bytes and
  stores them unchanged, rejecting others with their length; ids made from integers satisfy the
  same bound, are injective in the integer, and a 4-byte id never equals an 8-byte id.\<close>

theorem node_id_constructors:
  "(\<forall>bs n. try_from_bytes bs = Ok n \<longleftrightarrow> node_id_as_bytes n = bs \<and> length bs \<le> 512)
   \<and> (\<forall>bs e. try_from_bytes bs = Err e \<longleftrightarrow> 512 < length bs \<and> e = NodeIdTooLong (length bs))
   \<and> node_id_ok (NodeId_from_u32 v) \<and> node_id_ok (NodeId_from_u64 w)
   \<and> inj NodeId_from_u32 \<and> inj NodeId_from_u64
   \<and> NodeId_from_u32 v \<noteq> NodeId_from_u64 w"
proof (intro conjI)
  show "\<forall>bs n. try_from_bytes bs = Ok n \<longleftrightarrow> node_id_as_bytes n = bs \<and> length bs \<le> 512"
    by (auto simp: try_from_bytes_Ok_iff node_id_ok_def MAX_NODE_ID_LEN_def)
  show "\<forall>bs e. try_from_bytes bs = Err e \<longleftrightarrow> 512 < length bs \<and> e = NodeIdTooLong (length bs)"
    by (auto simp: try_from_bytes_def MAX_NODE_ID_LEN_def)
  show "inj NodeId_from_u32"
    by (auto intro!: injI simp: NodeId_from_u32_def dest: injD [OF inj_u32_to_be_bytes])
  show "inj NodeId_from_u64"
    by (auto intro!: injI simp: NodeId_from_u64_def dest: injD [OF inj_u64_to_be_bytes])
  have "length (u32_to_be_bytes v) \<noteq> length (u64_to_be_bytes w)" by simp
  then show "NodeId_from_u32 v \<noteq> NodeId_from_u64 w"
    unfolding NodeId_from_u32_def NodeId_from_u64_def by (metis NodeId.inject)
qed (simp_all add: node_id_ok_def MAX_NODE_ID_LEN_def NodeId_from_u32_def NodeId_from_u64_def)

end
