(* ===== verification/Packet_Tests.thy ===== *)
theory Packet_Tests
  imports Packet_State Node_Id
begin

text \<open>
  The unit tests of \<open>src/packet_state.rs\<close> and \<open>src/node_id.rs\<close>, translated statement by statement and
  evaluated on the model: a test is a truth value, and an \<open>unwrap\<close> of an error or a failed assertion
  makes it false. They tie the definitions to the outcomes the authors of the code wrote down.
\<close>

section \<open>Vocabulary of the tests\<close>

text \<open>\<open>unwrap()\<close> and \<open>unwrap_err()\<close> on the result of a call, then the rest of the test.\<close>

definition unwrap :: "('a, 'e) result \<times> 's \<Rightarrow> ('a \<Rightarrow> 's \<Rightarrow> bool) \<Rightarrow> bool" where
  "unwrap r k = (case r of (Ok a, s) \<Rightarrow> k a s | (Err _, _) \<Rightarrow> False)"

definition unwrap_err :: "('a, 'e) result \<times> 's \<Rightarrow> ('e \<Rightarrow> 's \<Rightarrow> bool) \<Rightarrow> bool" where
  "unwrap_err r k = (case r of (Err e, s) \<Rightarrow> k e s | (Ok _, _) \<Rightarrow> False)"

definition ascii :: "string \<Rightarrow> bytes" where
  "ascii s = map of_char s"

definition header_of :: "bytes \<Rightarrow> u16" where
  "header_of raw = u16_from_be_bytes (raw ! 0) (raw ! 1)"

definition kind_of :: "u16 \<Rightarrow> u8" where
  "kind_of header = ucast (drop_bit KIND_SHIFT header)"

definition as_u8 :: "PacketKind \<Rightarrow> u8" where
  "as_u8 kind = ucast (kind_as_u16 kind)"

section \<open>The builder\<close>

definition builder_single_packet_message :: bool where
  "builder_single_packet_message =
     unwrap (prepare builder_new 1) (\<lambda>_ b.
     unwrap (pack b (ascii ''hello'') True) (\<lambda>raw b.
       let header = header_of raw in
       kind_of header = as_u8 Sole \<and> header AND TYPE_MASK = 1 \<and> drop 2 raw = ascii ''hello''))"

definition builder_multi_packet_message :: bool where
  "builder_multi_packet_message =
     unwrap (prepare builder_new 2) (\<lambda>_ b.
     unwrap (pack b (ascii ''part1'') False) (\<lambda>raw0 b.
     unwrap (pack b (ascii ''part2'') False) (\<lambda>raw1 b.
     unwrap (pack b (ascii ''part3'') True) (\<lambda>raw2 b.
       let h0 = header_of raw0; h1 = header_of raw1; h2 = header_of raw2 in
       kind_of h0 = as_u8 First \<and> h0 AND TYPE_MASK = 2 \<and> drop 2 raw0 = ascii ''part1''
       \<and> kind_of h1 = as_u8 Mid
       \<and> kind_of h2 = as_u8 Last \<and> drop 2 raw2 = ascii ''part3''))))"

definition builder_msg_type_too_large_is_error :: bool where
  "builder_msg_type_too_large_is_error =
     unwrap_err (prepare builder_new 0x1000) (\<lambda>e b. e = MessageTypeTooLarge 0x1000 \<and>
     unwrap_err (prepare b 0xFFFF) (\<lambda>e b. e = MessageTypeTooLarge 0xFFFF))"

definition builder_max_msg_type_is_accepted :: bool where
  "builder_max_msg_type_is_accepted =
     unwrap (prepare builder_new 0x0FFF) (\<lambda>_ b.
     unwrap (pack b (ascii ''x'') True) (\<lambda>raw b. header_of raw AND TYPE_MASK = 0x0FFF))"

definition builder_reuse_after_message_complete :: bool where
  "builder_reuse_after_message_complete =
     unwrap (prepare builder_new 1) (\<lambda>_ b.
     unwrap (pack b (ascii ''a'') True) (\<lambda>_ b.
     unwrap (prepare b 2) (\<lambda>_ b.
     unwrap (pack b (ascii ''b'') True) (\<lambda>raw b. header_of raw AND TYPE_MASK = 2))))"

definition builder_prepare_while_in_progress_is_error :: bool where
  "builder_prepare_while_in_progress_is_error =
     unwrap (prepare builder_new 1) (\<lambda>_ b.
     unwrap_err (prepare b 2) (\<lambda>e b. e = MessageAlreadyInProgress))"

definition builder_pack_without_prepare_is_error :: bool where
  "builder_pack_without_prepare_is_error =
     unwrap_err (pack builder_new (ascii ''data'') True) (\<lambda>e b. e = NoMessageInProgress)"

definition builder_empty_payload_is_allowed :: bool where
  "builder_empty_payload_is_allowed =
     unwrap (prepare builder_new 0) (\<lambda>_ b.
     unwrap (pack b [] True) (\<lambda>raw b. length raw = 2))"

definition builder_abort_mid_message :: bool where
  "builder_abort_mid_message =
     unwrap (prepare builder_new 5) (\<lambda>_ b.
     unwrap (pack b (ascii ''first'') False) (\<lambda>_ b.
     case abort b of
       (None, b) \<Rightarrow> False
     | (Some abort_pkt, b) \<Rightarrow>
         (let header = header_of abort_pkt in
          kind_of header = as_u8 Abort \<and> header AND TYPE_MASK = 5 \<and> length abort_pkt = 2)
         \<and> unwrap (prepare b 6) (\<lambda>_ b.
           unwrap (pack b (ascii ''new'') True) (\<lambda>raw b. kind_of (header_of raw) = as_u8 Sole))))"

definition builder_abort_without_message_is_none :: bool where
  "builder_abort_without_message_is_none = (fst (abort builder_new) = None)"

definition builder_abort_after_sole_is_none :: bool where
  "builder_abort_after_sole_is_none =
     unwrap (prepare builder_new 1) (\<lambda>_ b.
     unwrap (pack b (ascii ''done'') True) (\<lambda>_ b. fst (abort b) = None))"

section \<open>The reader\<close>

definition make_raw :: "PacketKind \<Rightarrow> u16 \<Rightarrow> bytes \<Rightarrow> bytes" where
  "make_raw kind msg_type payload =
     (let header = push_bit KIND_SHIFT (kind_as_u16 kind) OR (msg_type AND TYPE_MASK);
          v = u16_to_be_bytes header
      in v @ payload)"

definition reader_sole_packet :: bool where
  "reader_sole_packet =
     unwrap (read reader_new (make_raw Sole 3 (ascii ''data''))) (\<lambda>pkt r.
       ph_kind pkt = Sole \<and> ph_msg_type pkt = 3)"

definition reader_multi_packet_message :: bool where
  "reader_multi_packet_message =
     unwrap (read reader_new (make_raw First 5 (ascii ''a''))) (\<lambda>p1 r. ph_kind p1 = First \<and> pr_in_progress r \<and>
     unwrap (read r (make_raw Mid 5 (ascii ''b''))) (\<lambda>p2 r. ph_kind p2 = Mid \<and>
     unwrap (read r (make_raw Last 5 (ascii ''c''))) (\<lambda>p3 r. ph_kind p3 = Last \<and> \<not> pr_in_progress r)))"

definition reader_abort_mid_message :: bool where
  "reader_abort_mid_message =
     unwrap (read reader_new (make_raw First 7 (ascii ''start''))) (\<lambda>_ r.
     unwrap (read r (make_raw Abort 7 [])) (\<lambda>pkt r. ph_kind pkt = Abort \<and> \<not> pr_in_progress r \<and>
     unwrap (read r (make_raw Sole 8 (ascii ''fresh''))) (\<lambda>pkt2 r. ph_kind pkt2 = Sole)))"

definition reader_reuse_after_message_complete :: bool where
  "reader_reuse_after_message_complete =
     unwrap (read reader_new (make_raw Sole 1 [])) (\<lambda>_ r.
     unwrap (read r (make_raw Sole 2 [])) (\<lambda>pkt r. ph_msg_type pkt = 2))"

definition reader_too_short_is_error :: bool where
  "reader_too_short_is_error =
     unwrap_err (read reader_new [0x00]) (\<lambda>e r. e = PacketTooShort \<and>
     unwrap_err (read r []) (\<lambda>e r. e = PacketTooShort))"

definition reader_unknown_kind_is_error :: bool where
  "reader_unknown_kind_is_error =
     unwrap_err (read reader_new [0x50, 0x01]) (\<lambda>e r. e = UnknownKind 5)"

definition reader_unexpected_message_start_is_error :: bool where
  "reader_unexpected_message_start_is_error =
     unwrap (read reader_new (make_raw First 1 [])) (\<lambda>_ r.
     unwrap_err (read r (make_raw First 2 [])) (\<lambda>e r. e = UnexpectedMessageStart 1 2))"

definition reader_sole_mid_message_is_error :: bool where
  "reader_sole_mid_message_is_error =
     unwrap (read reader_new (make_raw First 1 [])) (\<lambda>_ r.
     unwrap_err (read r (make_raw Sole 1 [])) (\<lambda>e r. e = UnexpectedMessageStart 1 1))"

definition reader_missing_message_start_is_error :: bool where
  "reader_missing_message_start_is_error =
     unwrap_err (read reader_new (make_raw Mid 3 [])) (\<lambda>e r. e = MissingMessageStart 3)"

definition reader_last_without_start_is_error :: bool where
  "reader_last_without_start_is_error =
     unwrap_err (read reader_new (make_raw Last 3 [])) (\<lambda>e r. e = MissingMessageStart 3)"

definition reader_abort_without_start_is_error :: bool where
  "reader_abort_without_start_is_error =
     unwrap_err (read reader_new (make_raw Abort 3 [])) (\<lambda>e r. e = MissingMessageStart 3)"

definition reader_message_type_change_is_error :: bool where
  "reader_message_type_change_is_error =
     unwrap (read reader_new (make_raw First 4 [])) (\<lambda>_ r.
     unwrap_err (read r (make_raw Mid 5 [])) (\<lambda>e r. e = MessageTypeChange 4 5))"

definition reader_empty_payload_is_allowed :: bool where
  "reader_empty_payload_is_allowed =
     unwrap (read reader_new (make_raw Sole 0 [])) (\<lambda>pkt r. ph_kind pkt = Sole)"

section \<open>Round trips\<close>

definition roundtrip_single_packet :: bool where
  "roundtrip_single_packet =
     unwrap (prepare builder_new 10) (\<lambda>_ b.
     unwrap (pack b (ascii ''roundtrip'') True) (\<lambda>raw b.
     unwrap (read reader_new raw) (\<lambda>pkt r.
       ph_kind pkt = Sole \<and> ph_msg_type pkt = 10 \<and> drop 2 raw = ascii ''roundtrip'')))"

definition roundtrip_multi_packet :: bool where
  "roundtrip_multi_packet =
     unwrap (prepare builder_new 7) (\<lambda>_ b.
     unwrap (pack b (ascii ''foo'') False) (\<lambda>p1 b.
     unwrap (pack b (ascii ''bar'') True) (\<lambda>p2 b.
     unwrap (read reader_new p1) (\<lambda>h1 r. ph_kind h1 = First \<and> drop 2 p1 = ascii ''foo'' \<and>
     unwrap (read r p2) (\<lambda>h2 r. ph_kind h2 = Last \<and> drop 2 p2 = ascii ''bar'')))))"

definition roundtrip_abort :: bool where
  "roundtrip_abort =
     unwrap (prepare builder_new 3) (\<lambda>_ b.
     unwrap (pack b (ascii ''start'') False) (\<lambda>_ b.
     case abort b of
       (None, b) \<Rightarrow> False
     | (Some abort_raw, b) \<Rightarrow>
         unwrap (read reader_new (make_raw First 3 (ascii ''start''))) (\<lambda>pkt r. ph_kind pkt = First \<and>
         unwrap (read r abort_raw) (\<lambda>abort_pkt r. ph_kind abort_pkt = Abort \<and> ph_msg_type abort_pkt = 3))))"

definition all_kind_values_round_trip :: bool where
  "all_kind_values_round_trip = list_all (\<lambda>kind. from_u8 (as_u8 kind) = Ok kind) [Sole, First, Mid, Last, Abort]"

definition max_type_value_preserved :: bool where
  "max_type_value_preserved =
     unwrap (prepare builder_new 0x0FFF) (\<lambda>_ b.
     unwrap (pack b [] True) (\<lambda>raw b.
     unwrap (read reader_new raw) (\<lambda>pkt r. ph_msg_type pkt = 0x0FFF)))"

section \<open>Node ids\<close>

definition try_from_bytes_accepts_empty :: bool where
  "try_from_bytes_accepts_empty = (case try_from_bytes [] of Ok _ \<Rightarrow> True | Err _ \<Rightarrow> False)"

definition try_from_bytes_accepts_max_length :: bool where
  "try_from_bytes_accepts_max_length =
     (let bs = replicate MAX_NODE_ID_LEN 0xAB in
      case try_from_bytes bs of Ok nid \<Rightarrow> node_id_as_bytes nid = bs | Err _ \<Rightarrow> False)"

definition try_from_bytes_rejects_over_max :: bool where
  "try_from_bytes_rejects_over_max =
     (case try_from_bytes (replicate (MAX_NODE_ID_LEN + 1) 0) of
        Err (NodeIdTooLong n) \<Rightarrow> n = MAX_NODE_ID_LEN + 1
      | Ok _ \<Rightarrow> False)"

definition as_bytes_returns_original :: bool where
  "as_bytes_returns_original =
     (let bs = [1, 2, 3, 4] in
      case try_from_bytes bs of Ok nid \<Rightarrow> node_id_as_bytes nid = bs | Err _ \<Rightarrow> False)"

definition from_u64_is_big_endian :: bool where
  "from_u64_is_big_endian =
     (node_id_as_bytes (NodeId_from_u64 0x0102030405060708)
        = [0x01, 0x02, 0x03, 0x04, 0x05, 0x06, 0x07, 0x08])"

definition from_u32_is_big_endian :: bool where
  "from_u32_is_big_endian =
     (node_id_as_bytes (NodeId_from_u32 0x01020304) = [0x01, 0x02, 0x03, 0x04])"

definition equality_same_bytes :: bool where
  "equality_same_bytes = (NodeId_from_u32 42 = NodeId_from_u32 42)"

definition equality_different_bytes :: bool where
  "equality_different_bytes = (NodeId_from_u32 1 \<noteq> NodeId_from_u32 2)"

definition u32_and_u64_with_same_numeric_value_differ :: bool where
  "u32_and_u64_with_same_numeric_value_differ = (NodeId_from_u32 1 \<noteq> NodeId_from_u64 1)"

section \<open>Results\<close>

lemma builder_tests:
  "builder_single_packet_message" "builder_multi_packet_message" "builder_msg_type_too_large_is_error"
  "builder_max_msg_type_is_accepted" "builder_reuse_after_message_complete"
  "builder_prepare_while_in_progress_is_error" "builder_pack_without_prepare_is_error"
  "builder_empty_payload_is_allowed" "builder_abort_mid_message" "builder_abort_without_message_is_none"
  "builder_abort_after_sole_is_none"
  by code_simp+

lemma reader_tests:
  "reader_sole_packet" "reader_multi_packet_message" "reader_abort_mid_message" "reader_reuse_after_message_complete"
  "reader_too_short_is_error" "reader_unknown_kind_is_error" "reader_unexpected_message_start_is_error"
  "reader_sole_mid_message_is_error" "reader_missing_message_start_is_error" "reader_last_without_start_is_error"
  "reader_abort_without_start_is_error" "reader_message_type_change_is_error" "reader_empty_payload_is_allowed"
  by code_simp+

lemma roundtrip_tests:
  "roundtrip_single_packet" "roundtrip_multi_packet" "roundtrip_abort" "all_kind_values_round_trip"
  "max_type_value_preserved"
  by code_simp+

lemma node_id_tests:
  "try_from_bytes_accepts_empty" "try_from_bytes_accepts_max_length" "try_from_bytes_rejects_over_max"
  "as_bytes_returns_original" "from_u64_is_big_endian" "from_u32_is_big_endian" "equality_same_bytes"
  "equality_different_bytes" "u32_and_u64_with_same_numeric_value_differ"
proof -
  show try_from_bytes_accepts_empty by code_simp
  show try_from_bytes_accepts_max_length
    by (simp add: try_from_bytes_accepts_max_length_def try_from_bytes_def Let_def)
  show try_from_bytes_rejects_over_max
    by (simp add: try_from_bytes_rejects_over_max_def try_from_bytes_def)
  show as_bytes_returns_original by code_simp
  show from_u64_is_big_endian by code_simp
  show from_u32_is_big_endian by code_simp
  show equality_same_bytes by code_simp
  show equality_different_bytes by code_simp
  show u32_and_u64_with_same_numeric_value_differ by code_simp
qed

text \<open>The unit tests of the packet module hold: every builder, reader and round-trip test of
  \<open>src/packet_state.rs\<close>, run on the model, ends without a failed assertion and without unwrapping an
  error.\<close>

lemma packet_state_unit_tests:
  "builder_single_packet_message \<and> builder_multi_packet_message \<and> builder_msg_type_too_large_is_error
   \<and> builder_max_msg_type_is_accepted \<and> builder_reuse_after_message_complete
   \<and> builder_prepare_while_in_progress_is_error \<and> builder_pack_without_prepare_is_error
   \<and> builder_empty_payload_is_allowed \<and> builder_abort_mid_message
   \<and> builder_abort_without_message_is_none \<and> builder_abort_after_sole_is_none \<and> reader_sole_packet
   \<and> reader_multi_packet_message \<and> reader_abort_mid_message \<and> reader_reuse_after_message_complete
   \<and> reader_too_short_is_error \<and> reader_unknown_kind_is_error
   \<and> reader_unexpected_message_start_is_error \<and> reader_sole_mid_message_is_error
   \<and> reader_missing_message_start_is_error \<and> reader_last_without_start_is_error
   \<and> reader_abort_without_start_is_error \<and> reader_message_type_change_is_error
   \<and> reader_empty_payload_is_allowed \<and> roundtrip_single_packet \<and> roundtrip_multi_packet
   \<and> roundtrip_abort \<and> all_kind_values_round_trip \<and> max_type_value_preserved"
  by (intro conjI builder_tests reader_tests roundtrip_tests)

end
