(* ===== verification/Sign.thy ===== *)
theory Sign
  imports Transport_Keys
begin

text \<open>
  Model of \<open>src/sign.rs\<close>: cluster signing keys and signed records. A signed record is the payload
  followed by the 64 bytes of its Ed25519 signature.

  The \<open>ed25519_dalek\<close> crate is an argument (\<open>ed25519_lib\<close>); \<open>ed25519_laws\<close> states its
  documented behaviour: fixed encodings that parse back, and signatures of a key verifying under
  its own verification key. Nothing is assumed about signatures made without the key; theorems
  that need it take unforgeability as a separate hypothesis.

  The locale \<open>record_signer\<close> is the contract of \<open>src/auth.rs\<close> with this module.
\<close>

section \<open>The signature library\<close>

record ('sk, 'vk, 'sg) ed25519_lib =
  vk_from_bytes :: "bytes \<Rightarrow> 'vk option"
  vk_as_bytes :: "'vk \<Rightarrow> bytes"
  vk_verify_strict :: "'vk \<Rightarrow> bytes \<Rightarrow> 'sg \<Rightarrow> bool"
  sk_from_bytes :: "bytes \<Rightarrow> 'sk"
  sk_to_bytes :: "'sk \<Rightarrow> bytes"
  sk_verifying_key :: "'sk \<Rightarrow> 'vk"
  sk_sign :: "'sk \<Rightarrow> bytes \<Rightarrow> 'sg"
  sig_from_slice :: "bytes \<Rightarrow> 'sg option"
  sig_to_bytes :: "'sg \<Rightarrow> bytes"

definition ed25519_laws :: "('sk, 'vk, 'sg) ed25519_lib \<Rightarrow> bool" where
  "ed25519_laws ed \<longleftrightarrow>
     (\<forall>v. length (vk_as_bytes ed v) = 32 \<and> vk_from_bytes ed (vk_as_bytes ed v) = Some v)
   \<and> (\<forall>s. length (sk_to_bytes ed s) = 32 \<and> sk_from_bytes ed (sk_to_bytes ed s) = s)
   \<and> (\<forall>g. length (sig_to_bytes ed g) = 64 \<and> sig_from_slice ed (sig_to_bytes ed g) = Some g)
   \<and> (\<forall>s m. vk_verify_strict ed (sk_verifying_key ed s) m (sk_sign ed s m))"

section \<open>Data\<close>

datatype SignatureValidationErr = MalformedRecord | BadSignature

definition SIGNATURE_LEN :: nat where
  "SIGNATURE_LEN = 64"

datatype 'vk SignatureVerificationKey = SignatureVerificationKey 'vk

datatype SignatureSigningKey = SignatureSigningKey bytes

record 'vk SignatureKeypair =
  sgk_public :: "'vk SignatureVerificationKey"
  sgk_private :: SignatureSigningKey

section \<open>Operations\<close>

fun svk_as_bytes :: "('sk, 'vk, 'sg) ed25519_lib \<Rightarrow> 'vk SignatureVerificationKey \<Rightarrow> bytes" where
  "svk_as_bytes ed (SignatureVerificationKey v) = vk_as_bytes ed v"

fun verify_payload :: "('sk, 'vk, 'sg) ed25519_lib \<Rightarrow> 'vk SignatureVerificationKey \<Rightarrow> bytes
    \<Rightarrow> (bytes, SignatureValidationErr) result" where
  "verify_payload ed (SignatureVerificationKey v) rec =
     (if length rec < SIGNATURE_LEN then Err MalformedRecord
      else
        let payload_len = length rec - SIGNATURE_LEN;
            payload = take payload_len rec;
            signature_data = drop payload_len rec
        in case sig_from_slice ed signature_data of
             None \<Rightarrow> Err MalformedRecord
           | Some signature \<Rightarrow>
               if vk_verify_strict ed v payload signature then Ok payload else Err BadSignature)"

definition svk_try_from_array :: "('sk, 'vk, 'sg) ed25519_lib \<Rightarrow> bytes
    \<Rightarrow> ('vk SignatureVerificationKey, MalformedKeyError) result" where
  "svk_try_from_array ed bs =
     (case vk_from_bytes ed bs of
        Some v \<Rightarrow> Ok (SignatureVerificationKey v)
      | None \<Rightarrow> Err MalformedKeyError)"

definition svk_try_from_str :: "'he hex_lib \<Rightarrow> ('sk, 'vk, 'sg) ed25519_lib \<Rightarrow> string
    \<Rightarrow> ('vk SignatureVerificationKey, MalformedKeyError) result" where
  "svk_try_from_str hx ed value =
     (case hex_decode hx value of
        Err _ \<Rightarrow> Err MalformedKeyError
      | Ok bs \<Rightarrow>
          (case try_into_array32 bs of
             None \<Rightarrow> Err MalformedKeyError
           | Some arr \<Rightarrow> svk_try_from_array ed arr))"

definition svk_debug :: "'he hex_lib \<Rightarrow> ('sk, 'vk, 'sg) ed25519_lib
    \<Rightarrow> 'vk SignatureVerificationKey \<Rightarrow> string" where
  "svk_debug hx ed k = ''SignatureVerificationKey('' @ hex_encode hx (svk_as_bytes ed k) @ '')''"

definition svk_display :: "'he hex_lib \<Rightarrow> ('sk, 'vk, 'sg) ed25519_lib
    \<Rightarrow> 'vk SignatureVerificationKey \<Rightarrow> string" where
  "svk_display hx ed k = hex_encode hx (svk_as_bytes ed k)"

definition svk_serialize :: "'he hex_lib \<Rightarrow> ('sk, 'vk, 'sg) ed25519_lib \<Rightarrow> 'ok serializer
    \<Rightarrow> 'vk SignatureVerificationKey \<Rightarrow> 'ok" where
  "svk_serialize hx ed s k =
     (if ser_is_human_readable s then ser_str s (hex_encode hx (svk_as_bytes ed k))
      else ser_array32 s (svk_as_bytes ed k))"

definition svk_deserialize :: "'he hex_lib \<Rightarrow> ('sk, 'vk, 'sg) ed25519_lib
    \<Rightarrow> ('he, 'de) deserializer \<Rightarrow> ('vk SignatureVerificationKey, 'de) result" where
  "svk_deserialize hx ed d =
     and_then
       (if de_is_human_readable d then
          case de_string d of
            Err e \<Rightarrow> Err e
          | Ok s \<Rightarrow>
              (case hex_decode hx s of
                 Err e \<Rightarrow> Err (de_custom_hex d e)
               | Ok bs \<Rightarrow>
                   (case try_into_array32 bs of
                      None \<Rightarrow> Err (de_custom d ''SignatureVerificationKey must be 32 bytes'')
                    | Some arr \<Rightarrow> Ok arr))
        else de_array32 d)
       (\<lambda>arr. map_err (\<lambda>_. de_custom d ''malformed key'') (svk_try_from_array ed arr))"

fun ssk_expose :: "SignatureSigningKey \<Rightarrow> bytes" where
  "ssk_expose (SignatureSigningKey bs) = bs"

definition ssk_ok :: "SignatureSigningKey \<Rightarrow> bool" where
  "ssk_ok k \<longleftrightarrow> length (ssk_expose k) = 32"

definition ssk_from_array :: "bytes \<Rightarrow> SignatureSigningKey" where
  [simp]: "ssk_from_array bs = SignatureSigningKey bs"

definition ssk_expose_to_human_string :: "'he hex_lib \<Rightarrow> SignatureSigningKey \<Rightarrow> string" where
  "ssk_expose_to_human_string hx k = hex_encode hx (ssk_expose k)"

definition sign :: "('sk, 'vk, 'sg) ed25519_lib \<Rightarrow> SignatureSigningKey \<Rightarrow> bytes \<Rightarrow> bytes" where
  "sign ed k payload =
     (let signing_key = sk_from_bytes ed (ssk_expose k);
          sig = sk_sign ed signing_key payload
      in payload @ sig_to_bytes ed sig)"

definition ssk_try_from_str :: "'he hex_lib \<Rightarrow> string
    \<Rightarrow> (SignatureSigningKey, MalformedKeyError) result" where
  "ssk_try_from_str hx value =
     (case hex_decode hx value of
        Err _ \<Rightarrow> Err MalformedKeyError
      | Ok bs \<Rightarrow>
          (case try_into_array32 bs of
             None \<Rightarrow> Err MalformedKeyError
           | Some arr \<Rightarrow> Ok (ssk_from_array arr)))"

definition ssk_debug :: "SignatureSigningKey \<Rightarrow> string" where
  "ssk_debug k = ''SignatureSigningKey([redacted])''"

definition ssk_serialize :: "'he hex_lib \<Rightarrow> 'ok serializer \<Rightarrow> SignatureSigningKey \<Rightarrow> 'ok" where
  "ssk_serialize hx s k =
     (if ser_is_human_readable s then ser_str s (hex_encode hx (ssk_expose k))
      else ser_array32 s (ssk_expose k))"

definition ssk_deserialize :: "'he hex_lib \<Rightarrow> ('he, 'de) deserializer
    \<Rightarrow> (SignatureSigningKey, 'de) result" where
  "ssk_deserialize hx d =
     and_then
       (if de_is_human_readable d then
          case de_string d of
            Err e \<Rightarrow> Err e
          | Ok s \<Rightarrow>
              (case hex_decode hx s of
                 Err e \<Rightarrow> Err (de_custom_hex d e)
               | Ok bs \<Rightarrow>
                   (case try_into_array32 bs of
                      None \<Rightarrow> Err (de_custom d ''SignatureSigningKey must be 32 bytes'')
                    | Some arr \<Rightarrow> Ok arr))
        else de_array32 d)
       (\<lambda>arr. Ok (ssk_from_array arr))"

text \<open>\<open>SignatureKeypair::generate\<close>, given the key \<open>SigningKey::generate\<close> drew.\<close>

definition signature_generate :: "('sk, 'vk, 'sg) ed25519_lib \<Rightarrow> 'sk
    \<Rightarrow> ('vk SignatureKeypair, KeyGenError) result" where
  "signature_generate ed signing_key =
     (let public_bytes = vk_as_bytes ed (sk_verifying_key ed signing_key);
          secret_bytes = sk_to_bytes ed signing_key
      in case svk_try_from_array ed public_bytes of
           Err _ \<Rightarrow> Err (KeyGenError ''malformed key'')
         | Ok public \<Rightarrow>
             Ok \<lparr>sgk_public = public, sgk_private = ssk_from_array secret_bytes\<rparr>)"

section \<open>Key text forms\<close>

interpretation svk: text_key "hex_laws hx \<and> ed25519_laws ed" "\<lambda>_. True" "svk_display hx ed"
  "svk_try_from_str hx ed" "svk_serialize hx ed" "svk_deserialize hx ed" for hx ed
proof
  show "svk_try_from_str hx ed (svk_display hx ed k) = Ok k"
    if "hex_laws hx \<and> ed25519_laws ed" for k
    using that by (cases k) (auto simp: svk_try_from_str_def svk_display_def svk_try_from_array_def
        hex_laws_def ed25519_laws_def try_into_array32_def)
  show "svk_deserialize hx ed d = Ok k"
    if "hex_laws hx \<and> ed25519_laws ed" "reads_back s (svk_serialize hx ed s k) d"
    for k and s :: "'x serializer" and d :: "('a, 'y) deserializer"
    using that by (cases k)
      (auto simp: svk_deserialize_def svk_serialize_def svk_try_from_array_def reads_back_def
        hex_laws_def ed25519_laws_def try_into_array32_def)
qed simp

interpretation ssk: text_key "hex_laws hx" ssk_ok "ssk_expose_to_human_string hx"
  "ssk_try_from_str hx" "ssk_serialize hx" "ssk_deserialize hx" for hx
proof
  show "ssk_try_from_str hx (ssk_expose_to_human_string hx k) = Ok k" if "hex_laws hx" "ssk_ok k" for k
    using that by (cases k) (auto simp: ssk_try_from_str_def ssk_expose_to_human_string_def
        hex_laws_def ssk_ok_def try_into_array32_def)
  show "ssk_ok k" if "ssk_try_from_str hx s = Ok k" for s k
    using that by (auto simp: ssk_try_from_str_def ssk_ok_def split: result.splits option.splits)
  show "ssk_deserialize hx d = Ok k"
    if "hex_laws hx" "ssk_ok k" "reads_back s (ssk_serialize hx s k) d"
    for k and s :: "'x serializer" and d :: "('a, 'y) deserializer"
    using that by (cases k)
      (auto simp: ssk_deserialize_def ssk_serialize_def reads_back_def hex_laws_def ssk_ok_def
        try_into_array32_def)
qed

section \<open>Signed records\<close>

text \<open>\<open>key_pair\<close>: the verification key belongs to the signing key.\<close>

definition key_pair :: "('sk, 'vk, 'sg) ed25519_lib \<Rightarrow> SignatureSigningKey
    \<Rightarrow> 'vk SignatureVerificationKey \<Rightarrow> bool" where
  "key_pair ed sk vk \<longleftrightarrow>
     vk = SignatureVerificationKey (sk_verifying_key ed (sk_from_bytes ed (ssk_expose sk)))"

locale record_signer =
  fixes lib_ok :: bool
    and sign_record :: "'k \<Rightarrow> bytes \<Rightarrow> bytes"
    and verify_record :: "'v \<Rightarrow> bytes \<Rightarrow> (bytes, SignatureValidationErr) result"
    and belongs :: "'k \<Rightarrow> 'v \<Rightarrow> bool"
  assumes verify_sign: "lib_ok \<Longrightarrow> belongs sk vk \<Longrightarrow> verify_record vk (sign_record sk p) = Ok p"
    and sign_length: "lib_ok \<Longrightarrow> length (sign_record sk p) = length p + SIGNATURE_LEN"
    and verify_Ok_prefix: "verify_record vk rec = Ok p \<Longrightarrow> \<exists>sg. rec = p @ sg \<and> length sg = SIGNATURE_LEN"
begin

lemma sign_distinct:
  "lib_ok \<Longrightarrow> belongs sk vk \<Longrightarrow> sign_record sk p = sign_record sk q \<Longrightarrow> p = q"
  by (metis verify_sign result.inject(1))

lemma verify_short: "length rec < SIGNATURE_LEN \<Longrightarrow> \<not> is_ok (verify_record vk rec)"
  by (auto simp: is_ok_iff dest!: verify_Ok_prefix)

end

lemma verify_payload_cases:
  "verify_payload ed (SignatureVerificationKey v) rec =
     (if length rec < 64 then Err MalformedRecord
      else case sig_from_slice ed (drop (length rec - 64) rec) of
             None \<Rightarrow> Err MalformedRecord
           | Some g \<Rightarrow>
               if vk_verify_strict ed v (take (length rec - 64) rec) g
               then Ok (take (length rec - 64) rec) else Err BadSignature)"
  by (simp add: SIGNATURE_LEN_def Let_def)

lemma verify_payload_OkD:
  assumes "verify_payload ed (SignatureVerificationKey v) rec = Ok p"
  obtains g where "vk_verify_strict ed v p g"
    "rec = p @ drop (length rec - SIGNATURE_LEN) rec"
    "sig_from_slice ed (drop (length rec - SIGNATURE_LEN) rec) = Some g"
    "SIGNATURE_LEN \<le> length rec"
  using assms by (auto simp: Let_def split: if_splits option.splits)

interpretation signer: record_signer "ed25519_laws ed" "sign ed" "verify_payload ed" "key_pair ed" for ed
proof
  show "verify_payload ed vk (sign ed sk p) = Ok p" if "ed25519_laws ed" "key_pair ed sk vk" for sk vk p
    using that by (simp add: key_pair_def sign_def ed25519_laws_def SIGNATURE_LEN_def Let_def)
  show "length (sign ed sk p) = length p + SIGNATURE_LEN" if "ed25519_laws ed" for sk p
    using that by (simp add: sign_def ed25519_laws_def SIGNATURE_LEN_def Let_def)
  show "\<exists>sg. rec = p @ sg \<and> length sg = SIGNATURE_LEN"
    if "verify_payload ed vk rec = Ok p" for vk :: "'b SignatureVerificationKey" and rec p
  proof -
    obtain v where vk: "vk = SignatureVerificationKey v" by (cases vk)
    have "rec = p @ drop (length rec - SIGNATURE_LEN) rec \<and> SIGNATURE_LEN \<le> length rec"
      by (rule verify_payload_OkD [OF that [unfolded vk]]) blast
    then show ?thesis by (intro exI [of _ "drop (length rec - SIGNATURE_LEN) rec"]) simp
  qed
qed

lemma signature_generate_pair:
  assumes "ed25519_laws ed"
  obtains kp where "signature_generate ed fresh = Ok kp"
    "key_pair ed (sgk_private kp) (sgk_public kp)" "ssk_ok (sgk_private kp)"
  using assms by (auto simp: signature_generate_def svk_try_from_array_def ed25519_laws_def
      key_pair_def ssk_ok_def Let_def)

end
