(* ===== verification/Auth.thy ===== *)
theory Auth
  imports Node_Id Sign
begin

text \<open>
  Model of \<open>src/auth.rs\<close>: the auth header a node presents in the handshake, its signed form, and
  the checks a peer makes on it.

  The \<open>yatlv\<close> frame format is an argument (\<open>yatlv_lib\<close>). \<open>yatlv_laws\<close> states its documented
  behaviour for frames with distinct tags: a parsed frame returns the data added under each tag.
  The bounds in it (field count and length) are far above what an auth header needs and keep the
  hypothesis inside what any length encoding of the format can hold.

  The locale \<open>peer_authenticator\<close> is what the handshake relies on.
\<close>

section \<open>The frame library\<close>

record ('fb, 'fp) yatlv_lib =
  fb_new :: 'fb
  fb_add_data :: "'fb \<Rightarrow> u16 \<Rightarrow> bytes \<Rightarrow> 'fb"
  fb_finish :: "'fb \<Rightarrow> bytes"
  fp_new :: "bytes \<Rightarrow> 'fp option"
  fp_get_data :: "'fp \<Rightarrow> u16 \<Rightarrow> bytes option"
  fp_get_optional_data :: "'fp \<Rightarrow> u16 \<Rightarrow> bytes option"

fun fb_add_all :: "('fb, 'fp) yatlv_lib \<Rightarrow> 'fb \<Rightarrow> (u16 \<times> bytes) list \<Rightarrow> 'fb" where
  "fb_add_all y fb [] = fb"
| "fb_add_all y fb ((t, d) # fs) = fb_add_all y (fb_add_data y fb t d) fs"

definition MAX_FIELD_LEN :: nat where
  "MAX_FIELD_LEN = 2 ^ 16"

definition yatlv_laws :: "('fb, 'fp) yatlv_lib \<Rightarrow> bool" where
  "yatlv_laws y \<longleftrightarrow>
     (\<forall>fs. distinct (map fst fs) \<longrightarrow> length fs < 256 \<longrightarrow> (\<forall>d\<in>set (map snd fs). length d < MAX_FIELD_LEN) \<longrightarrow>
        (\<exists>p. fp_new y (fb_finish y (fb_add_all y (fb_new y) fs)) = Some p
           \<and> (\<forall>t. fp_get_data y p t = map_of fs t \<and> fp_get_optional_data y p t = map_of fs t)))"

section \<open>Data\<close>

definition TAG_NODE_ID :: u16 where "TAG_NODE_ID = 1"
definition TAG_PUBLIC_KEY :: u16 where "TAG_PUBLIC_KEY = 2"
definition TAG_ROLE :: u16 where "TAG_ROLE = 3"

datatype BadAuth =
    Signature SignatureValidationErr
  | PublicKeyMismatch (pkm_expected: TransportPublicKey) (pkm_actual: TransportPublicKey)
  | NodeIdMismatch (nim_expected: NodeId) (nim_actual: NodeId)

datatype MalformedAuthHeader = MalformedAuthHeader

record AuthDetails =
  ad_node_id :: NodeId
  ad_role :: "bytes option"

record AuthHeader =
  ah_node_id :: NodeId
  ah_role :: "bytes option"
  ah_public_key :: TransportPublicKey

datatype SignedAuthHeader = SignedAuthHeader bytes

section \<open>Operations\<close>

definition check_node_id :: "AuthDetails \<Rightarrow> NodeId \<Rightarrow> (unit, BadAuth) result" where
  "check_node_id d expected =
     (if ad_node_id d = expected then Ok ()
      else Err (NodeIdMismatch expected (ad_node_id d)))"

definition AuthDetails_from :: "AuthHeader \<Rightarrow> AuthDetails" where
  "AuthDetails_from h = \<lparr>ad_node_id = ah_node_id h, ad_role = ah_role h\<rparr>"

definition AuthHeader_new :: "NodeId \<Rightarrow> bytes option \<Rightarrow> TransportPublicKey \<Rightarrow> AuthHeader" where
  "AuthHeader_new node_id role public_key =
     \<lparr>ah_node_id = node_id, ah_role = role, ah_public_key = public_key\<rparr>"

definition validate_public_key :: "AuthHeader \<Rightarrow> TransportPublicKey \<Rightarrow> (unit, BadAuth) result" where
  "validate_public_key h key =
     (if ah_public_key h = key then Ok ()
      else Err (PublicKeyMismatch (ah_public_key h) key))"

definition to_yatlv :: "('fb, 'fp) yatlv_lib \<Rightarrow> AuthHeader \<Rightarrow> bytes" where
  "to_yatlv y h =
     (let bld = fb_new y;
          bld = fb_add_data y bld TAG_NODE_ID (node_id_as_bytes (ah_node_id h));
          bld = fb_add_data y bld TAG_PUBLIC_KEY (tpub_as_bytes (ah_public_key h));
          bld = (case ah_role h of Some role \<Rightarrow> fb_add_data y bld TAG_ROLE role | None \<Rightarrow> bld)
      in fb_finish y bld)"

definition from_yatlv :: "('fb, 'fp) yatlv_lib \<Rightarrow> bytes \<Rightarrow> (AuthHeader, MalformedAuthHeader) result" where
  "from_yatlv y data =
     (case fp_new y data of
        None \<Rightarrow> Err MalformedAuthHeader
      | Some parser \<Rightarrow>
     (case fp_get_data y parser TAG_NODE_ID of
        None \<Rightarrow> Err MalformedAuthHeader
      | Some node_id_bytes \<Rightarrow>
     (case fp_get_data y parser TAG_PUBLIC_KEY of
        None \<Rightarrow> Err MalformedAuthHeader
      | Some public_key_bytes \<Rightarrow>
     (let role = fp_get_optional_data y parser TAG_ROLE in
      case try_from_bytes node_id_bytes of
        Err _ \<Rightarrow> Err MalformedAuthHeader
      | Ok node_id \<Rightarrow>
     (case try_into_array32 public_key_bytes of
        None \<Rightarrow> Err MalformedAuthHeader
      | Some public_key_arr \<Rightarrow>
          Ok \<lparr>ah_node_id = node_id, ah_role = role,
              ah_public_key = TransportPublicKey public_key_arr\<rparr>)))))"

definition auth_sign :: "('fb, 'fp) yatlv_lib \<Rightarrow> ('sk, 'vk, 'sg) ed25519_lib \<Rightarrow> AuthHeader
    \<Rightarrow> SignatureSigningKey \<Rightarrow> SignedAuthHeader" where
  "auth_sign y ed h signing_key =
     (let payload = to_yatlv y h; raw = sign ed signing_key payload in SignedAuthHeader raw)"

definition verify_raw :: "('fb, 'fp) yatlv_lib \<Rightarrow> ('sk, 'vk, 'sg) ed25519_lib
    \<Rightarrow> 'vk SignatureVerificationKey \<Rightarrow> bytes \<Rightarrow> (AuthHeader, BadAuth) result" where
  "verify_raw y ed key data =
     (case verify_payload ed key data of
        Err e \<Rightarrow> Err (Signature e)
      | Ok payload \<Rightarrow> map_err (\<lambda>_. Signature MalformedRecord) (from_yatlv y payload))"

fun sah_expose :: "SignedAuthHeader \<Rightarrow> bytes" where
  "sah_expose (SignedAuthHeader raw) = raw"

definition verify :: "('fb, 'fp) yatlv_lib \<Rightarrow> ('sk, 'vk, 'sg) ed25519_lib
    \<Rightarrow> SignedAuthHeader \<Rightarrow> 'vk SignatureVerificationKey \<Rightarrow> (AuthHeader, BadAuth) result" where
  "verify y ed h key = verify_raw y ed key (sah_expose h)"

definition sah_expose_to_human_string :: "'he hex_lib \<Rightarrow> SignedAuthHeader \<Rightarrow> string" where
  "sah_expose_to_human_string hx h = hex_encode hx (sah_expose h)"

definition sah_try_from_str :: "'he hex_lib \<Rightarrow> string
    \<Rightarrow> (SignedAuthHeader, MalformedAuthHeader) result" where
  "sah_try_from_str hx value =
     (case hex_decode hx value of
        Ok a \<Rightarrow> Ok (SignedAuthHeader a)
      | Err _ \<Rightarrow> Err MalformedAuthHeader)"

definition sah_debug :: "SignedAuthHeader \<Rightarrow> string" where
  "sah_debug h = ''SignedAuthHeader([redacted])''"

definition sah_serialize :: "'he hex_lib \<Rightarrow> 'ok serializer \<Rightarrow> SignedAuthHeader \<Rightarrow> 'ok" where
  "sah_serialize hx s h =
     (if ser_is_human_readable s then ser_str s (hex_encode hx (sah_expose h))
      else ser_seq s (sah_expose h))"

definition sah_deserialize :: "'he hex_lib \<Rightarrow> ('he, 'de) deserializer
    \<Rightarrow> (SignedAuthHeader, 'de) result" where
  "sah_deserialize hx d =
     (if de_is_human_readable d then
        case de_string d of
          Err e \<Rightarrow> Err e
        | Ok s \<Rightarrow>
            (case hex_decode hx s of
               Err e \<Rightarrow> Err (de_custom_hex d e)
             | Ok bs \<Rightarrow> Ok (SignedAuthHeader bs))
      else
        case de_vec d of Err e \<Rightarrow> Err e | Ok bs \<Rightarrow> Ok (SignedAuthHeader bs))"

interpretation sah: text_key "hex_laws hx" "\<lambda>_. True" "sah_expose_to_human_string hx"
  "sah_try_from_str hx" "sah_serialize hx" "sah_deserialize hx" for hx
proof
  show "sah_try_from_str hx (sah_expose_to_human_string hx k) = Ok k" if "hex_laws hx" for k
    using that by (cases k)
      (auto simp: sah_try_from_str_def sah_expose_to_human_string_def hex_laws_def)
  show "sah_deserialize hx d = Ok k"
    if "hex_laws hx" "reads_back s (sah_serialize hx s k) d"
    for k and s :: "'x serializer" and d :: "('a, 'y) deserializer"
    using that by (cases k)
      (auto simp: sah_deserialize_def sah_serialize_def reads_back_def hex_laws_def)
qed simp

section \<open>Headers and frames\<close>

text \<open>The headers the public constructors build: a bounded node id, a 32-byte key, and a role that a
  frame can carry.\<close>

definition header_ok :: "AuthHeader \<Rightarrow> bool" where
  "header_ok h \<longleftrightarrow> node_id_ok (ah_node_id h) \<and> tpub_ok (ah_public_key h)
     \<and> (\<forall>role. ah_role h = Some role \<longrightarrow> length role < MAX_FIELD_LEN)"

definition header_fields :: "AuthHeader \<Rightarrow> (u16 \<times> bytes) list" where
  "header_fields h =
     [(TAG_NODE_ID, node_id_as_bytes (ah_node_id h)),
      (TAG_PUBLIC_KEY, tpub_as_bytes (ah_public_key h))]
     @ (case ah_role h of Some role \<Rightarrow> [(TAG_ROLE, role)] | None \<Rightarrow> [])"

lemmas tag_defs = TAG_NODE_ID_def TAG_PUBLIC_KEY_def TAG_ROLE_def

lemma to_yatlv_fields: "to_yatlv y h = fb_finish y (fb_add_all y (fb_new y) (header_fields h))"
  by (simp add: to_yatlv_def header_fields_def Let_def split: option.split)

lemma header_fields_map:
  "map_of (header_fields h) TAG_NODE_ID = Some (node_id_as_bytes (ah_node_id h))"
  "map_of (header_fields h) TAG_PUBLIC_KEY = Some (tpub_as_bytes (ah_public_key h))"
  "map_of (header_fields h) TAG_ROLE = ah_role h"
  by (simp_all add: header_fields_def tag_defs split: option.split)

lemma header_fields_distinct: "distinct (map fst (header_fields h))"
  by (simp add: header_fields_def tag_defs split: option.split)

lemma header_frame_parses:
  assumes "yatlv_laws y" "length (node_id_as_bytes (ah_node_id h)) < MAX_FIELD_LEN"
    "tpub_ok (ah_public_key h)" "\<And>role. ah_role h = Some role \<Longrightarrow> length role < MAX_FIELD_LEN"
  obtains p where "fp_new y (to_yatlv y h) = Some p"
    "fp_get_data y p TAG_NODE_ID = Some (node_id_as_bytes (ah_node_id h))"
    "fp_get_data y p TAG_PUBLIC_KEY = Some (tpub_as_bytes (ah_public_key h))"
    "fp_get_optional_data y p TAG_ROLE = ah_role h"
proof -
  have "\<forall>d\<in>set (map snd (header_fields h)). length d < MAX_FIELD_LEN"
    using assms(2-4) by (auto simp: header_fields_def tpub_ok_def MAX_FIELD_LEN_def split: option.splits)
  moreover have "length (header_fields h) < 256"
    by (simp add: header_fields_def split: option.split)
  ultimately obtain p where p: "fp_new y (to_yatlv y h) = Some p"
    "\<And>t. fp_get_data y p t = map_of (header_fields h) t"
    "\<And>t. fp_get_optional_data y p t = map_of (header_fields h) t"
    using assms(1) header_fields_distinct [of h] unfolding yatlv_laws_def to_yatlv_fields by blast
  show thesis by (rule that [OF p(1)]) (simp_all only: p(2,3) header_fields_map)
qed

lemma header_ok_frame:
  assumes "yatlv_laws y" "header_ok h" shows "from_yatlv y (to_yatlv y h) = Ok h"
proof -
  from assms(2) have h: "node_id_ok (ah_node_id h)" "tpub_ok (ah_public_key h)"
    "\<And>role. ah_role h = Some role \<Longrightarrow> length role < MAX_FIELD_LEN"
    by (auto simp: header_ok_def)
  then have "length (node_id_as_bytes (ah_node_id h)) < MAX_FIELD_LEN"
    by (simp add: node_id_ok_def MAX_NODE_ID_LEN_def MAX_FIELD_LEN_def)
  from header_frame_parses [OF assms(1) this h(2,3)] obtain p where
    "fp_new y (to_yatlv y h) = Some p"
    "fp_get_data y p TAG_NODE_ID = Some (node_id_as_bytes (ah_node_id h))"
    "fp_get_data y p TAG_PUBLIC_KEY = Some (tpub_as_bytes (ah_public_key h))"
    "fp_get_optional_data y p TAG_ROLE = ah_role h" .
  with h show ?thesis
    by (cases "ah_public_key h") (simp add: from_yatlv_def tpub_ok_def try_into_array32_def)
qed

lemma from_yatlv_Ok:
  "from_yatlv y d = Ok h \<Longrightarrow> node_id_ok (ah_node_id h) \<and> tpub_ok (ah_public_key h)"
  by (auto simp: from_yatlv_def tpub_ok_def try_from_bytes_Ok_iff Let_def
      split: option.splits result.splits)

lemma verify_raw_sign:
  assumes "yatlv_laws y" "ed25519_laws ed" "key_pair ed sk vk" "header_ok h"
  shows "verify_raw y ed vk (sah_expose (auth_sign y ed h sk)) = Ok h"
  using assms by (simp add: verify_raw_def auth_sign_def signer.verify_sign header_ok_frame)

lemma verify_raw_OkD:
  assumes "verify_raw y ed (SignatureVerificationKey v) data = Ok h"
  obtains p g where "vk_verify_strict ed v p g" "from_yatlv y p = Ok h"
    "verify_payload ed (SignatureVerificationKey v) data = Ok p"
proof -
  obtain p where p: "verify_payload ed (SignatureVerificationKey v) data = Ok p" "from_yatlv y p = Ok h"
    using assms by (auto simp: verify_raw_def simp del: verify_payload.simps split: result.splits)
  show thesis
    by (rule verify_payload_OkD [OF p(1)]) (rule that [OF _ p(2,1)])
qed

section \<open>The interface of the handshake with the auth module\<close>

text \<open>\<open>not_forged\<close>: if the record verifies under the cluster key, then what it signs is the frame of a
  header the operator issued. It is a hypothesis about one presented record: that its signature
  was made by the holder of the signing key, and that the key was used on headers only.\<close>

definition not_forged :: "('fb, 'fp) yatlv_lib \<Rightarrow> ('sk, 'vk, 'sg) ed25519_lib
    \<Rightarrow> 'vk SignatureVerificationKey \<Rightarrow> AuthHeader set \<Rightarrow> bytes \<Rightarrow> bool" where
  "not_forged y ed key issued rec \<longleftrightarrow>
     (\<forall>p. verify_payload ed key rec = Ok p \<longrightarrow> p \<in> to_yatlv y ` issued) \<and> (\<forall>h\<in>issued. header_ok h)"

locale peer_authenticator =
  fixes lib_ok :: bool
    and issued :: "'h set"
    and genuine :: "bytes \<Rightarrow> bool"
    and check_credential :: "bytes \<Rightarrow> ('h, BadAuth) result"
    and check_key :: "'h \<Rightarrow> TransportPublicKey \<Rightarrow> (unit, BadAuth) result"
    and declared_key :: "'h \<Rightarrow> TransportPublicKey"
  assumes credential_issued: "lib_ok \<Longrightarrow> genuine data \<Longrightarrow> check_credential data = Ok h \<Longrightarrow> h \<in> issued"
    and check_key_iff: "check_key h k = Ok () \<longleftrightarrow> declared_key h = k"
    and check_key_Err: "check_key h k = Err e \<longleftrightarrow> declared_key h \<noteq> k \<and> e = PublicKeyMismatch (declared_key h) k"
begin

lemma authenticated:
  "lib_ok \<Longrightarrow> genuine data \<Longrightarrow> check_credential data = Ok h \<Longrightarrow> check_key h k = Ok () \<Longrightarrow>
   h \<in> issued \<and> declared_key h = k"
  by (simp add: credential_issued check_key_iff)

text \<open>A stolen header is useless with another static key.\<close>

lemma stolen_header_rejected:
  "declared_key h \<noteq> k \<Longrightarrow> check_key h k = Err (PublicKeyMismatch (declared_key h) k)"
  by (simp add: check_key_Err)

end

interpretation auth: peer_authenticator "yatlv_laws y" issued "not_forged y ed key issued"
  "verify_raw y ed key" validate_public_key ah_public_key for y ed key issued
proof
  fix data h assume lib: "yatlv_laws y" and gen: "not_forged y ed key issued data"
    and ok: "verify_raw y ed key data = Ok h"
  from ok obtain p where p: "verify_payload ed key data = Ok p" "from_yatlv y p = Ok h"
    by (auto simp: verify_raw_def simp del: verify_payload.simps split: result.splits)
  with gen obtain h' where h': "p = to_yatlv y h'" "h' \<in> issued" "header_ok h'"
    unfolding not_forged_def by blast
  with lib p have "h' = h" by (simp add: header_ok_frame)
  with h' show "h \<in> issued" by simp
next
  show "validate_public_key h k = Ok () \<longleftrightarrow> ah_public_key h = k"
    and "validate_public_key h k = Err e \<longleftrightarrow> ah_public_key h \<noteq> k \<and> e = PublicKeyMismatch (ah_public_key h) k"
    for h k e
    by (auto simp: validate_public_key_def)
qed

end
