(* ===== verification/Sample_Libs.thy ===== *)
theory Sample_Libs
  imports Auth
begin

text \<open>
  Executable instances of the \<open>hex\<close>, \<open>yatlv\<close> and \<open>ed25519_dalek\<close> interfaces: lowercase hex, a
  tag-length-value format with two-byte tags and lengths, and a checksum in the place of the
  signature. They show that \<open>hex_laws\<close>, \<open>yatlv_laws\<close> and \<open>ed25519_laws\<close> can be met, and the
  concrete cases of the development are evaluated on them. Nothing else rests on them.
\<close>

section \<open>Hex\<close>

definition hex_digits :: string where
  "hex_digits = ''0123456789abcdef''"

definition nibble :: "char \<Rightarrow> nat option" where
  "nibble c = map_of (zip hex_digits [0..<16]) c"

fun hex_pairs :: "string \<Rightarrow> bytes option" where
  "hex_pairs [] = Some []"
| "hex_pairs [_] = None"
| "hex_pairs (a # b # cs) =
     (case (nibble a, nibble b, hex_pairs cs) of
        (Some x, Some y, Some bs) \<Rightarrow> Some (of_nat (16 * x + y) # bs)
      | _ \<Rightarrow> None)"

definition sample_hex :: "string hex_lib" where
  "sample_hex =
     \<lparr>hex_encode = (\<lambda>bs. concat (map (\<lambda>b. [hex_digits ! (unat b div 16), hex_digits ! (unat b mod 16)]) bs)),
      hex_decode = (\<lambda>s. case hex_pairs s of Some bs \<Rightarrow> Ok bs | None \<Rightarrow> Err ''invalid hex'')\<rparr>"

lemma nibble_digit: "n < 16 \<Longrightarrow> nibble (hex_digits ! n) = Some n"
proof -
  have "\<forall>n \<in> set [0..<16]. nibble (hex_digits ! n) = Some n" by code_simp
  then show "n < 16 \<Longrightarrow> nibble (hex_digits ! n) = Some n" by simp
qed

lemma sample_hex_laws: "hex_laws sample_hex"
proof -
  have "hex_pairs (concat (map (\<lambda>b. [hex_digits ! (unat b div 16), hex_digits ! (unat b mod 16)]) bs)) = Some bs"
    for bs :: bytes
  proof (induction bs)
    case (Cons b bs)
    have "unat b < 256" using unsigned_less [where ?'a = nat, of b] by simp
    then have "unat b div 16 < 16" "unat b mod 16 < 16" by simp_all
    with Cons show ?case by (simp add: nibble_digit)
  qed simp
  then show ?thesis by (simp add: hex_laws_def sample_hex_def)
qed

section \<open>Frames\<close>

definition tlv_print :: "(u16 \<times> bytes) list \<Rightarrow> bytes" where
  "tlv_print fs = concat (map (\<lambda>(t, d). u16_to_be_bytes t @ u16_to_be_bytes (of_nat (length d)) @ d) fs)"

function tlv_parse :: "bytes \<Rightarrow> (u16 \<times> bytes) list option" where
  "tlv_parse bs =
     (case bs of
        [] \<Rightarrow> Some []
      | t0 # t1 # l0 # l1 # rest \<Rightarrow>
          (let n = unat (u16_from_be_bytes l0 l1) in
           if n \<le> length rest
           then map_option (Cons (u16_from_be_bytes t0 t1, take n rest)) (tlv_parse (drop n rest))
           else None)
      | _ \<Rightarrow> None)"
  by pat_completeness auto
termination by (relation "measure length") auto

declare tlv_parse.simps [simp del]

definition sample_yatlv :: "((u16 \<times> bytes) list, (u16 \<times> bytes) list) yatlv_lib" where
  "sample_yatlv =
     \<lparr>fb_new = [], fb_add_data = (\<lambda>fb t d. fb @ [(t, d)]), fb_finish = tlv_print,
      fp_new = tlv_parse, fp_get_data = map_of, fp_get_optional_data = map_of\<rparr>"

lemma tlv_parse_print:
  "\<forall>d \<in> set (map snd fs). length d < 2 ^ 16 \<Longrightarrow> tlv_parse (tlv_print fs) = Some fs"
proof (induction fs)
  case Nil
  then show ?case by (simp add: tlv_print_def tlv_parse.simps)
next
  case (Cons f fs)
  obtain t d where f: "f = (t, d)" by force
  have "length d \<le> 65535" using Cons.prems by (simp add: f)
  moreover have "tlv_print (f # fs) = ucast (drop_bit 8 t) # ucast t # ucast (drop_bit 8 (of_nat (length d) :: u16))
      # ucast (of_nat (length d) :: u16) # d @ tlv_print fs"
    by (simp add: tlv_print_def f u16_to_be_bytes_def)
  ultimately show ?case using Cons
    by (subst tlv_parse.simps) (simp add: f Let_def u16_from_to_be_bytes)
qed

lemma sample_yatlv_laws: "yatlv_laws sample_yatlv"
proof -
  have "fb_add_all sample_yatlv fb fs = fb @ fs" for fb fs
    by (induction fs arbitrary: fb) (auto simp: sample_yatlv_def)
  then show ?thesis by (simp add: yatlv_laws_def MAX_FIELD_LEN_def) (simp add: sample_yatlv_def tlv_parse_print)
qed

section \<open>Signatures\<close>

definition sample_ed :: "(unit, unit, u8) ed25519_lib" where
  "sample_ed =
     \<lparr>vk_from_bytes = (\<lambda>bs. if bs = replicate 32 0 then Some () else None), vk_as_bytes = (\<lambda>_. replicate 32 0),
      vk_verify_strict = (\<lambda>_ m g. g = sum_list m),
      sk_from_bytes = (\<lambda>_. ()), sk_to_bytes = (\<lambda>_. replicate 32 0), sk_verifying_key = (\<lambda>_. ()),
      sk_sign = (\<lambda>_ m. sum_list m),
      sig_from_slice = (\<lambda>bs. case bs of b # _ \<Rightarrow> (if length bs = 64 then Some b else None) | _ \<Rightarrow> None),
      sig_to_bytes = (\<lambda>g. replicate 64 g)\<rparr>"

lemma sample_ed_laws: "ed25519_laws sample_ed"
proof -
  have "replicate 64 g = g # replicate 63 g" for g :: u8 by (simp add: numeral_eq_Suc)
  then show ?thesis by (simp add: ed25519_laws_def sample_ed_def)
qed

definition sample_sk :: SignatureSigningKey where
  "sample_sk = SignatureSigningKey (replicate 32 0)"

definition sample_vk :: "unit SignatureVerificationKey" where
  "sample_vk = SignatureVerificationKey ()"

lemma sample_key_pair: "key_pair sample_ed sample_sk sample_vk"
  by (simp add: key_pair_def sample_sk_def sample_vk_def sample_ed_def)

end
