(* ===== verification/Credentials_Spec.thy ===== *)
theory Credentials_Spec
  imports Sample_Libs
begin

text \<open>
  The properties of keys, signed records and auth headers (\<open>src/noise.rs\<close>, \<open>src/sign.rs\<close>,
  \<open>src/auth.rs\<close>), stated over the definitions of the three modules. The concrete cases run on the
  libraries of theory \<open>Sample_Libs\<close> and on a serde format that keeps what it is given.
\<close>

section \<open>A serde format\<close>

datatype stored = Str string | Array bytes | Seq bytes

definition sample_serializer :: "bool \<Rightarrow> stored serializer" where
  "sample_serializer human =
     \<lparr>ser_is_human_readable = human, ser_str = Str, ser_array32 = Array, ser_seq = Seq\<rparr>"

definition sample_deserializer :: "bool \<Rightarrow> stored \<Rightarrow> (string, string) deserializer" where
  "sample_deserializer human v =
     \<lparr>de_is_human_readable = human,
      de_string = (case v of Str s \<Rightarrow> Ok s | _ \<Rightarrow> Err ''expected a string''),
      de_array32 = (case v of Array bs \<Rightarrow> Ok bs | _ \<Rightarrow> Err ''expected an array''),
      de_vec = (case v of Seq bs \<Rightarrow> Ok bs | _ \<Rightarrow> Err ''expected a sequence''),
      de_custom = id, de_custom_hex = id\<rparr>"

lemma sample_reads_back: "reads_back (sample_serializer human) v (sample_deserializer human v)"
  by (auto simp: reads_back_def sample_serializer_def sample_deserializer_def)

section \<open>Properties\<close>

text \<open>C38: Every key and credential survives serialization, in human readable formats (hex text) and in
  others (bytes): a deserializer that answers with what the serializer was given yields the value
  that was stored.\<close>

theorem key_serde_roundtrip:
  assumes "hex_laws hx" "ed25519_laws ed" "tpub_ok a" "tpriv_ok b" "ssk_ok d"
  shows "(reads_back s (tpub_serialize hx s a) r \<longrightarrow> tpub_deserialize hx r = Ok a)
    \<and> (reads_back s (tpriv_serialize hx s b) r \<longrightarrow> tpriv_deserialize hx r = Ok b)
    \<and> (reads_back s (svk_serialize hx ed s c) r \<longrightarrow> svk_deserialize hx ed r = Ok c)
    \<and> (reads_back s (ssk_serialize hx s d) r \<longrightarrow> ssk_deserialize hx r = Ok d)
    \<and> (reads_back s (sah_serialize hx s e) r \<longrightarrow> sah_deserialize hx r = Ok e)"
  using assms tpub.load_store tpriv.load_store svk.load_store ssk.load_store sah.load_store by metis

theorem key_serde_roundtrip_witness:
  "tpub_deserialize sample_hex (sample_deserializer True
      (tpub_serialize sample_hex (sample_serializer True) (TransportPublicKey (replicate 32 7))))
     = Ok (TransportPublicKey (replicate 32 7))
   \<and> sah_deserialize sample_hex (sample_deserializer False
      (sah_serialize sample_hex (sample_serializer False) (SignedAuthHeader [1, 2])))
     = Ok (SignedAuthHeader [1, 2])"
proof -
  have "tpub_ok (TransportPublicKey (replicate 32 7))" "tpriv_ok (TransportPrivateKey (replicate 32 7))" "ssk_ok sample_sk"
    by (simp_all add: tpub_ok_def tpriv_ok_def ssk_ok_def sample_sk_def)
  from key_serde_roundtrip [OF sample_hex_laws sample_ed_laws this] sample_reads_back show ?thesis by blast
qed

text \<open>C30: What \<open>verify_payload\<close> answers, for every record: the payload, when the record is the payload
  followed by 64 bytes that parse as a signature and verify; \<open>BadSignature\<close>, when they parse and do not
  verify; \<open>MalformedRecord\<close>, when the record is shorter than a signature or its last 64 bytes do not
  parse.\<close>

theorem verify_payload_classifies:
  "(verify_payload ed (SignatureVerificationKey v) rec = Ok p \<longleftrightarrow>
      (\<exists>sg g. rec = p @ sg \<and> length sg = 64 \<and> sig_from_slice ed sg = Some g \<and> vk_verify_strict ed v p g))
   \<and> (verify_payload ed (SignatureVerificationKey v) rec = Err BadSignature \<longleftrightarrow>
      (\<exists>q sg g. rec = q @ sg \<and> length sg = 64 \<and> sig_from_slice ed sg = Some g \<and> \<not> vk_verify_strict ed v q g))
   \<and> (verify_payload ed (SignatureVerificationKey v) rec = Err MalformedRecord \<longleftrightarrow>
      length rec < 64 \<or> sig_from_slice ed (drop (length rec - 64) rec) = None)"
proof (cases "length rec < 64")
  case True
  then show ?thesis unfolding verify_payload_cases by auto
next
  case False
  let ?p = "take (length rec - 64) rec" and ?sg = "drop (length rec - 64) rec"
  have split: "rec = q @ sg \<and> length sg = 64 \<longleftrightarrow> q = ?p \<and> sg = ?sg" for q sg
    using False by (auto simp: append_eq_conv_conj)
  show ?thesis
    unfolding verify_payload_cases conj_assoc [symmetric] split
    using False by (auto split: option.splits)
qed

text \<open>A signed record verifies: under the key pair that was generated for any randomness, and under
  any pair of keys that belong together, \<open>verify_payload\<close> returns the payload that \<open>sign\<close> was given;
  the record is 64 bytes longer; and generating a key pair does not fail.\<close>

lemma signed_record_verifies:
  assumes "ed25519_laws ed"
  shows "\<exists>kp. signature_generate ed fresh = Ok kp
    \<and> (\<forall>p. verify_payload ed (sgk_public kp) (sign ed (sgk_private kp) p) = Ok p
          \<and> length (sign ed (sgk_private kp) p) = length p + 64)
    \<and> (\<forall>sk vk p. key_pair ed sk vk \<longrightarrow> verify_payload ed vk (sign ed sk p) = Ok p)"
proof -
  obtain kp where "signature_generate ed fresh = Ok kp" "key_pair ed (sgk_private kp) (sgk_public kp)"
    by (rule signature_generate_pair [OF assms])
  with signer.verify_sign [OF assms] signer.sign_length [OF assms] show ?thesis
    by (simp add: SIGNATURE_LEN_def)
qed

text \<open>Generating a transport key pair fails only when the generator does, or hands out a key that is
  not 32 bytes long; otherwise the pair holds the generated keys, the public one as public and the
  private one as private.\<close>

lemma transport_generate_result:
  "(transport_generate gen = Ok kp \<longleftrightarrow>
      gen = Ok (tpub_as_bytes (tk_public kp), tpriv_expose (tk_private kp))
      \<and> tpub_ok (tk_public kp) \<and> tpriv_ok (tk_private kp))
   \<and> (\<forall>e. gen = Err e \<longrightarrow> transport_generate gen = Err (KeyGenError (''failed to generate X25519 keypair: '' @ e)))"
proof -
  obtain a b where "kp = \<lparr>tk_public = TransportPublicKey a, tk_private = TransportPrivateKey b\<rparr>"
    by (metis TransportKeypair.cases TransportPublicKey.exhaust TransportPrivateKey.exhaust)
  then show ?thesis
    by (auto simp: transport_generate_def tpub_ok_def tpriv_ok_def try_into_array32_def
        split: result.splits prod.splits option.splits if_splits)
qed

text \<open>C28: A credential works: a header with a bounded node id, a 32-byte key and a role of a size a frame
  can hold, signed with the cluster key, written to hex text and read back from it, verifies under
  the matching verification key to the header itself, so the peer sees the node id and the role that
  were signed.\<close>

theorem auth_header_roundtrip:
  assumes "yatlv_laws y" "ed25519_laws ed" "hex_laws hx" "key_pair ed sk vk" "header_ok h"
  shows "\<exists>c. sah_try_from_str hx (sah_expose_to_human_string hx (auth_sign y ed h sk)) = Ok c
    \<and> verify y ed c vk = Ok h \<and> check_node_id (AuthDetails_from h) (ah_node_id h) = Ok ()
    \<and> validate_public_key h (ah_public_key h) = Ok ()"
  using assms verify_raw_sign [OF assms(1,2,4,5)]
  by (auto simp: sah.of_to_text verify_def check_node_id_def AuthDetails_from_def validate_public_key_def)

definition sample_auth_header :: AuthHeader where
  "sample_auth_header = AuthHeader_new (NodeId_from_u32 7) (Some [1, 2]) (TransportPublicKey (replicate 32 5))"

lemma sample_auth_header_ok: "header_ok sample_auth_header"
  by (simp add: header_ok_def sample_auth_header_def AuthHeader_new_def node_id_ok_def NodeId_from_u32_def
      MAX_NODE_ID_LEN_def tpub_ok_def MAX_FIELD_LEN_def)

theorem auth_header_roundtrip_witness:
  "\<exists>c. sah_try_from_str sample_hex (sah_expose_to_human_string sample_hex
      (auth_sign sample_yatlv sample_ed sample_auth_header sample_sk)) = Ok c
    \<and> verify sample_yatlv sample_ed c sample_vk = Ok sample_auth_header"
  using auth_header_roundtrip [OF sample_yatlv_laws sample_ed_laws sample_hex_laws sample_key_pair sample_auth_header_ok]
  by blast

text \<open>C29: A header that verifies is well formed, whoever made it: its node id has at most 512 bytes and
  its key 32, and the record is the frame it was parsed from followed by a signature of the cluster
  key over that frame.\<close>

theorem verified_header_ok:
  assumes "verify y ed c (SignatureVerificationKey v) = Ok h"
  shows "length (node_id_as_bytes (ah_node_id h)) \<le> 512 \<and> length (tpub_as_bytes (ah_public_key h)) = 32
    \<and> (\<exists>p sg g. sah_expose c = p @ sg \<and> length sg = 64 \<and> from_yatlv y p = Ok h
         \<and> sig_from_slice ed sg = Some g \<and> vk_verify_strict ed v p g)"
proof -
  from assms obtain p where p: "verify_payload ed (SignatureVerificationKey v) (sah_expose c) = Ok p" "from_yatlv y p = Ok h"
    unfolding verify_def by (rule verify_raw_OkD)
  let ?sg = "drop (length (sah_expose c) - SIGNATURE_LEN) (sah_expose c)"
  from p(1) obtain g where "vk_verify_strict ed v p g" "sah_expose c = p @ ?sg" "sig_from_slice ed ?sg = Some g"
    "length ?sg = 64"
    by (rule verify_payload_OkD) (simp add: SIGNATURE_LEN_def)
  with p(2) have "\<exists>p sg g. sah_expose c = p @ sg \<and> length sg = 64 \<and> from_yatlv y p = Ok h
      \<and> sig_from_slice ed sg = Some g \<and> vk_verify_strict ed v p g" by blast
  with from_yatlv_Ok [OF p(2)] show ?thesis
    unfolding node_id_ok_def MAX_NODE_ID_LEN_def tpub_ok_def by blast
qed

theorem verified_header_ok_witness:
  "verify sample_yatlv sample_ed (auth_sign sample_yatlv sample_ed sample_auth_header sample_sk)
      (SignatureVerificationKey ()) = Ok sample_auth_header
    \<and> length (node_id_as_bytes (ah_node_id sample_auth_header)) \<le> 512
    \<and> length (tpub_as_bytes (ah_public_key sample_auth_header)) = 32"
proof -
  have ok: "verify sample_yatlv sample_ed (auth_sign sample_yatlv sample_ed sample_auth_header sample_sk)
      (SignatureVerificationKey ()) = Ok sample_auth_header"
    using verify_raw_sign [OF sample_yatlv_laws sample_ed_laws sample_key_pair sample_auth_header_ok]
    by (simp add: verify_def sample_vk_def)
  from verified_header_ok [OF ok] ok show ?thesis by blast
qed

text \<open>C35: The bound on node ids can be bypassed, and the credential is then useless. \<open>try_from_bytes\<close> refuses
  more than 512 bytes; the derived \<open>Deserialize\<close> of \<open>NodeId\<close> accepts them. A header with such an id, a
  32-byte key and an optional role can be signed, and every peer refuses it with an error that speaks
  of a malformed record. The id and the role are shorter than \<open>2 ^ 16\<close> bytes here, which is what the
  frame format is relied on to hold.\<close>

theorem oversized_node_id_unverifiable:
  assumes "yatlv_laws y" "ed25519_laws ed" "key_pair ed sk vk"
    and "de_vec d = Ok bs" "512 < length bs" "length bs < 2 ^ 16"
    and "tpub_ok key" "\<forall>r. role = Some r \<longrightarrow> length r < 2 ^ 16"
  shows "try_from_bytes bs = Err (NodeIdTooLong (length bs))
    \<and> (\<exists>n. node_id_deserialize d = Ok n
        \<and> verify y ed (auth_sign y ed (AuthHeader_new n role key) sk) vk = Err (Signature MalformedRecord))"
proof -
  let ?h = "AuthHeader_new (NodeId bs) role key"
  have "length (node_id_as_bytes (ah_node_id ?h)) < MAX_FIELD_LEN" "tpub_ok (ah_public_key ?h)"
    "\<And>r. ah_role ?h = Some r \<Longrightarrow> length r < MAX_FIELD_LEN"
    using assms(6-8) by (simp_all add: AuthHeader_new_def MAX_FIELD_LEN_def)
  from header_frame_parses [OF assms(1) this] obtain p where
    "fp_new y (to_yatlv y ?h) = Some p" "fp_get_data y p TAG_NODE_ID = Some bs"
    "fp_get_data y p TAG_PUBLIC_KEY = Some (tpub_as_bytes key)"
    by (auto simp: AuthHeader_new_def)
  moreover have long: "try_from_bytes bs = Err (NodeIdTooLong (length bs))"
    using assms(5) by (simp add: try_from_bytes_def MAX_NODE_ID_LEN_def)
  ultimately have "from_yatlv y (to_yatlv y ?h) = Err MalformedAuthHeader" by (simp add: from_yatlv_def)
  with assms(2-4) long show ?thesis
    by (simp add: node_id_deserialize_def verify_def verify_raw_def auth_sign_def signer.verify_sign)
qed

theorem oversized_node_id_unverifiable_witness:
  "\<exists>n. node_id_deserialize (sample_deserializer False (Seq (replicate 513 0))) = Ok n
    \<and> verify sample_yatlv sample_ed (auth_sign sample_yatlv sample_ed
        (AuthHeader_new n (Some [1]) (TransportPublicKey (replicate 32 5))) sample_sk) sample_vk
      = Err (Signature MalformedRecord)"
  using oversized_node_id_unverifiable [OF sample_yatlv_laws sample_ed_laws sample_key_pair,
      of "sample_deserializer False (Seq (replicate 513 0))" "replicate 513 0" "TransportPublicKey (replicate 32 5)" "Some [1]"]
  by (simp add: sample_deserializer_def tpub_ok_def)

end
