(* ===== verification/Credential_Tests.thy ===== *)
theory Credential_Tests
  imports Packet_Tests Credentials_Spec "HOL-Library.Sublist"
begin

text \<open>
  The unit tests of \<open>src/noise.rs\<close>, \<open>src/sign.rs\<close> and \<open>src/auth.rs\<close>, translated statement by statement.
  A test takes the libraries it runs on as arguments, together with the randomness of the key
  generator, and is shown to succeed for every library that meets its contract.

  The tests that a record or credential is refused under a freshly drawn other key or after a flipped
  bit, and that two draws of the key generator differ, succeed with overwhelming probability only: they
  are in theory \<open>Forgery_Tests\<close>.
\<close>

section \<open>Vocabulary of the tests\<close>

text \<open>\<open>unwrap()\<close> and \<open>expect()\<close> on a result, then the rest of the test.\<close>

definition expecting :: "('a, 'e) result \<Rightarrow> ('a \<Rightarrow> bool) \<Rightarrow> bool" where
  "expecting r k = (case r of Ok a \<Rightarrow> k a | Err _ \<Rightarrow> False)"

lemma expecting_Ok [simp]: "expecting (Ok a) k = k a"
  by (simp add: expecting_def)

text \<open>\<open>str::contains\<close>, \<open>str::repeat\<close> and \<open>char::is_ascii_hexdigit\<close>.\<close>

definition str_contains :: "string \<Rightarrow> string \<Rightarrow> bool" where
  "str_contains s pat = sublist pat s"

definition str_repeat :: "string \<Rightarrow> nat \<Rightarrow> string" where
  "str_repeat s n = concat (replicate n s)"

definition is_ascii_hexdigit :: "char \<Rightarrow> bool" where
  "is_ascii_hexdigit c \<longleftrightarrow> c \<in> set ''0123456789abcdefABCDEF''"

text \<open>The format of the \<open>hex\<close> crate, as its documentation gives it: two lowercase digits per byte, and
  a string with any other character does not decode.\<close>

definition hex_format :: "'he hex_lib \<Rightarrow> bool" where
  "hex_format hx \<longleftrightarrow>
     (\<forall>bs. hex_encode hx bs = concat (map (\<lambda>b. [hex_digits ! (unat b div 16), hex_digits ! (unat b mod 16)]) bs))
   \<and> (\<forall>s. \<not> list_all is_ascii_hexdigit s \<longrightarrow> \<not> is_ok (hex_decode hx s))"

text \<open>The \<open>serde_json\<close> functions the tests call: a human readable serializer, and the deserializer at
  the text it has written.\<close>

definition json_laws :: "'ok serializer \<Rightarrow> ('ok \<Rightarrow> ('he, 'de) deserializer) \<Rightarrow> bool" where
  "json_laws s de \<longleftrightarrow> ser_is_human_readable s \<and> (\<forall>v. reads_back s v (de v))"

section \<open>Tests of the transport keys\<close>

definition public_key_from_array_round_trips_via_as_bytes :: bool where
  "public_key_from_array_round_trips_via_as_bytes =
     (let bs = replicate 32 0x42; key = tpub_from_array bs in tpub_as_bytes key = bs)"

definition public_key_display_is_lowercase_hex :: "'he hex_lib \<Rightarrow> bool" where
  "public_key_display_is_lowercase_hex hx =
     (let key = tpub_from_array (replicate 32 0xAB); s = tpub_display hx key in
      length s = 64 \<and> s = str_repeat ''ab'' 32)"

definition public_key_debug_includes_hex :: "'he hex_lib \<Rightarrow> bool" where
  "public_key_debug_includes_hex hx =
     (let key = tpub_from_array (replicate 32 0x01); debug = tpub_debug hx key in
      str_contains debug ''TransportPublicKey('' \<and> str_contains debug ''0101'')"

definition public_key_try_from_str_round_trip :: "'he hex_lib \<Rightarrow> bool" where
  "public_key_try_from_str_round_trip hx =
     (let key = tpub_from_array (replicate 32 0x12) in
      expecting (tpub_try_from_str hx (tpub_display hx key)) (\<lambda>restored. restored = key))"

definition public_key_try_from_str_rejects_bad_hex :: "'he hex_lib \<Rightarrow> bool" where
  "public_key_try_from_str_rejects_bad_hex hx = (\<not> is_ok (tpub_try_from_str hx ''not-hex''))"

definition public_key_try_from_str_rejects_wrong_length :: "'he hex_lib \<Rightarrow> bool" where
  "public_key_try_from_str_rejects_wrong_length hx = (\<not> is_ok (tpub_try_from_str hx (str_repeat ''ab'' 31)))"

definition public_key_json_round_trip :: "'he hex_lib \<Rightarrow> 'ok serializer \<Rightarrow> ('ok \<Rightarrow> ('he, 'de) deserializer) \<Rightarrow> bool" where
  "public_key_json_round_trip hx s de =
     (let key = tpub_from_array (replicate 32 0x99); json = tpub_serialize hx s key in
      expecting (de_string (de json)) (\<lambda>hex_str. hex_str = str_repeat ''99'' 32)
      \<and> expecting (tpub_deserialize hx (de json)) (\<lambda>restored. restored = key))"

definition private_key_expose_returns_original_bytes :: bool where
  "private_key_expose_returns_original_bytes =
     (let bs = replicate 32 0x77; key = tpriv_from_array bs in tpriv_expose key = bs)"

definition private_key_expose_to_human_string_is_lowercase_hex :: "'he hex_lib \<Rightarrow> bool" where
  "private_key_expose_to_human_string_is_lowercase_hex hx =
     (let key = tpriv_from_array (replicate 32 0xFF) in tpriv_expose_to_human_string hx key = str_repeat ''ff'' 32)"

definition private_key_debug_redacts_key_material :: bool where
  "private_key_debug_redacts_key_material =
     (let key = tpriv_from_array (replicate 32 0x55); debug = tpriv_debug key in
      str_contains debug ''[redacted]'' \<and> \<not> str_contains debug ''55'')"

definition private_key_try_from_str_round_trip :: "'he hex_lib \<Rightarrow> bool" where
  "private_key_try_from_str_round_trip hx =
     (let bs = replicate 32 0xCC; key = tpriv_from_array bs in
      expecting (tpriv_try_from_str hx (tpriv_expose_to_human_string hx key)) (\<lambda>restored. tpriv_expose restored = bs))"

definition private_key_try_from_str_rejects_bad_hex :: "'he hex_lib \<Rightarrow> bool" where
  "private_key_try_from_str_rejects_bad_hex hx = (\<not> is_ok (tpriv_try_from_str hx ''gg''))"

definition private_key_try_from_str_rejects_wrong_length :: "'he hex_lib \<Rightarrow> bool" where
  "private_key_try_from_str_rejects_wrong_length hx = (\<not> is_ok (tpriv_try_from_str hx (str_repeat ''aa'' 31)))"

definition private_key_json_round_trip :: "'he hex_lib \<Rightarrow> 'ok serializer \<Rightarrow> ('ok \<Rightarrow> ('he, 'de) deserializer) \<Rightarrow> bool" where
  "private_key_json_round_trip hx s de =
     (let bs = replicate 32 0x11; key = tpriv_from_array bs; json = tpriv_serialize hx s key in
      expecting (tpriv_deserialize hx (de json)) (\<lambda>restored. tpriv_expose restored = bs))"

section \<open>Tests of the signatures\<close>

text \<open>\<open>keypair()\<close> of the tests, given the key that was drawn.\<close>

definition keypair :: "('sk, 'vk, 'sg) ed25519_lib \<Rightarrow> 'sk \<Rightarrow> ('vk SignatureKeypair \<Rightarrow> bool) \<Rightarrow> bool" where
  "keypair ed fresh k = expecting (signature_generate ed fresh) k"

definition generated_public_key_matches_private :: "('sk, 'vk, 'sg) ed25519_lib \<Rightarrow> 'sk \<Rightarrow> bool" where
  "generated_public_key_matches_private ed fresh =
     keypair ed fresh (\<lambda>kp.
       let derived = sk_from_bytes ed (ssk_expose (sgk_private kp)) in
       vk_as_bytes ed (sk_verifying_key ed derived) = svk_as_bytes ed (sgk_public kp))"

definition sign_verify_payload_round_trip :: "('sk, 'vk, 'sg) ed25519_lib \<Rightarrow> 'sk \<Rightarrow> bool" where
  "sign_verify_payload_round_trip ed fresh =
     keypair ed fresh (\<lambda>kp.
       let payload = ascii ''hello world''; signed = sign ed (sgk_private kp) payload in
       expecting (verify_payload ed (sgk_public kp) signed) (\<lambda>recovered. recovered = payload))"

definition sign_length_is_payload_plus_signature :: "('sk, 'vk, 'sg) ed25519_lib \<Rightarrow> 'sk \<Rightarrow> bool" where
  "sign_length_is_payload_plus_signature ed fresh =
     keypair ed fresh (\<lambda>kp.
       let payload = ascii ''test''; signed = sign ed (sgk_private kp) payload in
       length signed = length payload + SIGNATURE_LEN)"

definition sign_empty_payload :: "('sk, 'vk, 'sg) ed25519_lib \<Rightarrow> 'sk \<Rightarrow> bool" where
  "sign_empty_payload ed fresh =
     keypair ed fresh (\<lambda>kp.
       let signed = sign ed (sgk_private kp) [] in
       length signed = SIGNATURE_LEN
       \<and> expecting (verify_payload ed (sgk_public kp) signed) (\<lambda>recovered. recovered = []))"

definition verify_payload_rejects_empty_input :: "('sk, 'vk, 'sg) ed25519_lib \<Rightarrow> 'sk \<Rightarrow> bool" where
  "verify_payload_rejects_empty_input ed fresh =
     keypair ed fresh (\<lambda>kp. verify_payload ed (sgk_public kp) [] = Err MalformedRecord)"

definition verify_payload_rejects_input_shorter_than_signature :: "('sk, 'vk, 'sg) ed25519_lib \<Rightarrow> 'sk \<Rightarrow> bool" where
  "verify_payload_rejects_input_shorter_than_signature ed fresh =
     keypair ed fresh (\<lambda>kp.
       let short = replicate (SIGNATURE_LEN - 1) 0 in
       verify_payload ed (sgk_public kp) short = Err MalformedRecord)"

definition verification_key_json_round_trip :: "'he hex_lib \<Rightarrow> ('sk, 'vk, 'sg) ed25519_lib \<Rightarrow> 'ok serializer
    \<Rightarrow> ('ok \<Rightarrow> ('he, 'de) deserializer) \<Rightarrow> 'sk \<Rightarrow> bool" where
  "verification_key_json_round_trip hx ed s de fresh =
     keypair ed fresh (\<lambda>kp.
       let json = svk_serialize hx ed s (sgk_public kp) in
       expecting (de_string (de json)) (\<lambda>hex_str. length hex_str = 64 \<and> list_all is_ascii_hexdigit hex_str)
       \<and> expecting (svk_deserialize hx ed (de json)) (\<lambda>restored. sgk_public kp = restored))"

definition verification_key_from_str_round_trip :: "'he hex_lib \<Rightarrow> ('sk, 'vk, 'sg) ed25519_lib \<Rightarrow> 'sk \<Rightarrow> bool" where
  "verification_key_from_str_round_trip hx ed fresh =
     keypair ed fresh (\<lambda>kp.
       let hex = svk_display hx ed (sgk_public kp) in
       expecting (svk_try_from_str hx ed hex) (\<lambda>restored. sgk_public kp = restored))"

definition verification_key_from_str_rejects_bad_hex :: "'he hex_lib \<Rightarrow> ('sk, 'vk, 'sg) ed25519_lib \<Rightarrow> bool" where
  "verification_key_from_str_rejects_bad_hex hx ed = (\<not> is_ok (svk_try_from_str hx ed ''not-hex''))"

definition verification_key_from_str_rejects_wrong_length :: "'he hex_lib \<Rightarrow> ('sk, 'vk, 'sg) ed25519_lib \<Rightarrow> bool" where
  "verification_key_from_str_rejects_wrong_length hx ed =
     (let short = str_repeat ''aa'' 31 in \<not> is_ok (svk_try_from_str hx ed short))"

definition signing_key_json_round_trip :: "'he hex_lib \<Rightarrow> ('sk, 'vk, 'sg) ed25519_lib \<Rightarrow> 'ok serializer
    \<Rightarrow> ('ok \<Rightarrow> ('he, 'de) deserializer) \<Rightarrow> 'sk \<Rightarrow> bool" where
  "signing_key_json_round_trip hx ed s de fresh =
     keypair ed fresh (\<lambda>kp.
       let json = ssk_serialize hx s (sgk_private kp) in
       expecting (de_string (de json)) (\<lambda>hex_str. length hex_str = 64 \<and> list_all is_ascii_hexdigit hex_str)
       \<and> expecting (ssk_deserialize hx (de json)) (\<lambda>restored.
           let signed = sign ed restored (ascii ''test'') in
           is_ok (verify_payload ed (sgk_public kp) signed)))"

definition signing_key_expose_to_human_string_round_trip :: "'he hex_lib \<Rightarrow> ('sk, 'vk, 'sg) ed25519_lib \<Rightarrow> 'sk \<Rightarrow> bool" where
  "signing_key_expose_to_human_string_round_trip hx ed fresh =
     keypair ed fresh (\<lambda>kp.
       let hex = ssk_expose_to_human_string hx (sgk_private kp) in
       length hex = 64
       \<and> expecting (ssk_try_from_str hx hex) (\<lambda>restored.
           let signed = sign ed restored (ascii ''test'') in
           is_ok (verify_payload ed (sgk_public kp) signed)))"

definition signing_key_debug_redacts_key_material :: "'he hex_lib \<Rightarrow> ('sk, 'vk, 'sg) ed25519_lib \<Rightarrow> 'sk \<Rightarrow> bool" where
  "signing_key_debug_redacts_key_material hx ed fresh =
     keypair ed fresh (\<lambda>kp.
       let debug = ssk_debug (sgk_private kp); key_hex = ssk_expose_to_human_string hx (sgk_private kp) in
       str_contains debug ''[redacted]'' \<and> \<not> str_contains debug key_hex)"

section \<open>Tests of the auth headers\<close>

definition transport_public_key :: TransportPublicKey where
  "transport_public_key = tpub_from_array (replicate 32 1)"

definition auth_header :: "u32 \<Rightarrow> AuthHeader" where
  "auth_header node_id = AuthHeader_new (NodeId_from_u32 node_id) None transport_public_key"

definition auth_header_with_role :: "u32 \<Rightarrow> bytes \<Rightarrow> AuthHeader" where
  "auth_header_with_role node_id role = AuthHeader_new (NodeId_from_u32 node_id) (Some role) transport_public_key"

definition signed :: "('fb, 'fp) yatlv_lib \<Rightarrow> ('sk, 'vk, 'sg) ed25519_lib \<Rightarrow> 'sk \<Rightarrow> u32
    \<Rightarrow> ('vk SignatureKeypair \<Rightarrow> SignedAuthHeader \<Rightarrow> bool) \<Rightarrow> bool" where
  "signed y ed fresh node_id k =
     keypair ed fresh (\<lambda>kp. let header = auth_header node_id in k kp (auth_sign y ed header (sgk_private kp)))"

definition validate_public_key_accepts_matching_key :: bool where
  "validate_public_key_accepts_matching_key =
     (let key = transport_public_key; header = auth_header 1 in is_ok (validate_public_key header key))"

definition validate_public_key_rejects_wrong_key :: bool where
  "validate_public_key_rejects_wrong_key =
     (let header = auth_header 1; wrong = tpub_from_array (replicate 32 2) in
      case validate_public_key header wrong of Err (PublicKeyMismatch _ _) \<Rightarrow> True | _ \<Rightarrow> False)"

definition validate_public_key_mismatch_contains_both_keys :: bool where
  "validate_public_key_mismatch_contains_both_keys =
     (let header = auth_header 1; wrong = tpub_from_array (replicate 32 2) in
      case validate_public_key header wrong of
        Err (PublicKeyMismatch expected actual) \<Rightarrow> expected = transport_public_key \<and> actual = wrong
      | _ \<Rightarrow> False)"

definition node_id_returns_correct_value :: bool where
  "node_id_returns_correct_value =
     (let details = AuthDetails_from (auth_header 7) in ad_node_id details = NodeId_from_u32 7)"

definition role_returns_correct_value_when_empty :: bool where
  "role_returns_correct_value_when_empty =
     (let details = AuthDetails_from (auth_header 7) in ad_role details = None)"

definition role_returns_correct_value_when_set :: bool where
  "role_returns_correct_value_when_set =
     (let details = AuthDetails_from (auth_header_with_role 7 [9]) in ad_role details = Some [9])"

definition sign_and_verify_round_trip :: "('fb, 'fp) yatlv_lib \<Rightarrow> ('sk, 'vk, 'sg) ed25519_lib \<Rightarrow> 'sk \<Rightarrow> bool" where
  "sign_and_verify_round_trip y ed fresh =
     signed y ed fresh 1 (\<lambda>kp sah.
       expecting (verify y ed sah (sgk_public kp)) (\<lambda>recovered.
         is_ok (validate_public_key recovered transport_public_key)
         \<and> ad_node_id (AuthDetails_from recovered) = NodeId_from_u32 1))"

definition verify_raw_round_trip :: "('fb, 'fp) yatlv_lib \<Rightarrow> ('sk, 'vk, 'sg) ed25519_lib \<Rightarrow> 'sk \<Rightarrow> bool" where
  "verify_raw_round_trip y ed fresh =
     signed y ed fresh 2 (\<lambda>kp sah.
       let raw = sah_expose sah in
       expecting (verify_raw y ed (sgk_public kp) raw) (\<lambda>recovered.
         ad_node_id (AuthDetails_from recovered) = NodeId_from_u32 2))"

definition verify_raw_rejects_empty_input :: "('fb, 'fp) yatlv_lib \<Rightarrow> ('sk, 'vk, 'sg) ed25519_lib \<Rightarrow> 'sk \<Rightarrow> bool" where
  "verify_raw_rejects_empty_input y ed fresh =
     signed y ed fresh 1 (\<lambda>kp _. verify_raw y ed (sgk_public kp) [] = Err (Signature MalformedRecord))"

definition expose_returns_non_empty_bytes :: "('fb, 'fp) yatlv_lib \<Rightarrow> ('sk, 'vk, 'sg) ed25519_lib \<Rightarrow> 'sk \<Rightarrow> bool" where
  "expose_returns_non_empty_bytes y ed fresh = signed y ed fresh 1 (\<lambda>_ sah. sah_expose sah \<noteq> [])"

definition debug_redacts_credential_bytes :: "'he hex_lib \<Rightarrow> ('fb, 'fp) yatlv_lib \<Rightarrow> ('sk, 'vk, 'sg) ed25519_lib
    \<Rightarrow> 'sk \<Rightarrow> bool" where
  "debug_redacts_credential_bytes hx y ed fresh =
     signed y ed fresh 1 (\<lambda>_ sah.
       let debug = sah_debug sah in
       str_contains debug ''[redacted]'' \<and> \<not> str_contains debug (hex_encode hx (sah_expose sah)))"

definition signed_auth_header_json_round_trip :: "'he hex_lib \<Rightarrow> ('fb, 'fp) yatlv_lib \<Rightarrow> ('sk, 'vk, 'sg) ed25519_lib
    \<Rightarrow> 'ok serializer \<Rightarrow> ('ok \<Rightarrow> ('he, 'de) deserializer) \<Rightarrow> 'sk \<Rightarrow> bool" where
  "signed_auth_header_json_round_trip hx y ed s de fresh =
     signed y ed fresh 1 (\<lambda>kp sah.
       let original_bytes = sah_expose sah; json = sah_serialize hx s sah in
       expecting (de_string (de json)) (\<lambda>hex_str. list_all is_ascii_hexdigit hex_str)
       \<and> expecting (sah_deserialize hx (de json)) (\<lambda>restored.
           sah_expose restored = original_bytes \<and> is_ok (verify y ed restored (sgk_public kp))))"

definition try_from_str_round_trip :: "'he hex_lib \<Rightarrow> ('fb, 'fp) yatlv_lib \<Rightarrow> ('sk, 'vk, 'sg) ed25519_lib \<Rightarrow> 'sk \<Rightarrow> bool" where
  "try_from_str_round_trip hx y ed fresh =
     signed y ed fresh 1 (\<lambda>kp sah.
       let hex = hex_encode hx (sah_expose sah) in
       expecting (sah_try_from_str hx hex) (\<lambda>restored. is_ok (verify y ed restored (sgk_public kp))))"

definition try_from_str_rejects_bad_hex :: "'he hex_lib \<Rightarrow> bool" where
  "try_from_str_rejects_bad_hex hx = (sah_try_from_str hx ''not-valid-hex'' = Err MalformedAuthHeader)"

definition try_from_str_rejects_empty_string :: "'he hex_lib \<Rightarrow> bool" where
  "try_from_str_rejects_empty_string hx = is_ok (sah_try_from_str hx [])"

definition different_node_ids_produce_distinct_credentials :: "('fb, 'fp) yatlv_lib \<Rightarrow> ('sk, 'vk, 'sg) ed25519_lib
    \<Rightarrow> 'sk \<Rightarrow> bool" where
  "different_node_ids_produce_distinct_credentials y ed fresh =
     keypair ed fresh (\<lambda>kp.
       let key = transport_public_key;
           header_a = AuthHeader_new (NodeId_from_u32 1) None key;
           header_b = AuthHeader_new (NodeId_from_u32 2) None key;
           signed_a = auth_sign y ed header_a (sgk_private kp);
           signed_b = auth_sign y ed header_b (sgk_private kp) in
       sah_expose signed_a \<noteq> sah_expose signed_b
       \<and> expecting (verify y ed signed_a (sgk_public kp)) (\<lambda>a. ad_node_id (AuthDetails_from a) = NodeId_from_u32 1)
       \<and> expecting (verify y ed signed_b (sgk_public kp)) (\<lambda>b. ad_node_id (AuthDetails_from b) = NodeId_from_u32 2))"

definition check_node_id_rejects_wrong_peer :: "('fb, 'fp) yatlv_lib \<Rightarrow> ('sk, 'vk, 'sg) ed25519_lib \<Rightarrow> 'sk \<Rightarrow> bool" where
  "check_node_id_rejects_wrong_peer y ed fresh =
     keypair ed fresh (\<lambda>kp.
       let key = transport_public_key;
           signed_a = auth_sign y ed (AuthHeader_new (NodeId_from_u32 1) None key) (sgk_private kp) in
       expecting (verify y ed signed_a (sgk_public kp)) (\<lambda>a.
         check_node_id (AuthDetails_from a) (NodeId_from_u32 2)
           = Err (NodeIdMismatch (NodeId_from_u32 2) (NodeId_from_u32 1))))"

definition check_node_id_accepts_correct_peer :: "('fb, 'fp) yatlv_lib \<Rightarrow> ('sk, 'vk, 'sg) ed25519_lib \<Rightarrow> 'sk \<Rightarrow> bool" where
  "check_node_id_accepts_correct_peer y ed fresh =
     keypair ed fresh (\<lambda>kp.
       let key = transport_public_key;
           signed_a = auth_sign y ed (AuthHeader_new (NodeId_from_u32 1) None key) (sgk_private kp) in
       expecting (verify y ed signed_a (sgk_public kp)) (\<lambda>a.
         is_ok (check_node_id (AuthDetails_from a) (NodeId_from_u32 1))))"

section \<open>Hex texts\<close>

lemma sample_hex_format: "hex_format sample_hex"
proof -
  have digit: "nibble c = Some n \<Longrightarrow> is_ascii_hexdigit c" for c n
    by (auto simp: nibble_def is_ascii_hexdigit_def hex_digits_def dest!: map_of_SomeD set_zip_leftD)
  have "list_all is_ascii_hexdigit s" if "hex_pairs s = Some bs" for s bs
    using that by (induction s arbitrary: bs rule: hex_pairs.induct) (auto dest: digit split: option.splits)
  then show ?thesis by (auto simp: hex_format_def sample_hex_def split: option.splits)
qed

lemma hex_text:
  assumes "hex_format hx"
  shows "length (hex_encode hx bs) = 2 * length bs" "list_all is_ascii_hexdigit (hex_encode hx bs)"
    "hex_encode hx (replicate n b) = str_repeat [hex_digits ! (unat b div 16), hex_digits ! (unat b mod 16)] n"
proof -
  have digit: "is_ascii_hexdigit (hex_digits ! n)" if "n < 16" for n
  proof -
    have "\<forall>n \<in> set [0..<16]. is_ascii_hexdigit (hex_digits ! n)" by code_simp
    with that show ?thesis by simp
  qed
  have byte: "unat b div 16 < 16" for b :: u8 using unsigned_less [where ?'a = nat, of b] by simp
  show "length (hex_encode hx bs) = 2 * length bs"
    using assms by (induction bs) (simp_all add: hex_format_def)
  show "list_all is_ascii_hexdigit (hex_encode hx bs)"
    using assms by (induction bs) (simp_all add: hex_format_def digit byte)
  show "hex_encode hx (replicate n b) = str_repeat [hex_digits ! (unat b div 16), hex_digits ! (unat b mod 16)] n"
    using assms by (simp add: hex_format_def str_repeat_def)
qed

lemma hex_refuses: "hex_format hx \<Longrightarrow> \<not> list_all is_ascii_hexdigit s \<Longrightarrow> \<exists>e. hex_decode hx s = Err e"
  by (metis hex_format_def is_ok.elims(3))

lemma hex_repeat:
  assumes "hex_format hx"
  shows "hex_encode hx (replicate n 0xAB) = str_repeat ''ab'' n" "hex_encode hx (replicate n 0xAA) = str_repeat ''aa'' n"
    "hex_encode hx (replicate n 0x99) = str_repeat ''99'' n" "hex_encode hx (replicate n 0xFF) = str_repeat ''ff'' n"
    "hex_encode hx (replicate n 0x01) = str_repeat ''01'' n"
  by (simp_all add: hex_text [OF assms] hex_digits_def)

lemma hex_repeat_decode:
  assumes "hex_laws hx" "hex_format hx"
  shows "hex_decode hx (str_repeat ''ab'' n) = Ok (replicate n 0xAB)" "hex_decode hx (str_repeat ''aa'' n) = Ok (replicate n 0xAA)"
  using assms(1) by (simp_all add: hex_laws_def hex_repeat [OF assms(2), symmetric])

lemma length_str_repeat [simp]: "length (str_repeat s n) = n * length s"
  by (induction n) (simp_all add: str_repeat_def)

lemma contains_shorter: "length s < length pat \<Longrightarrow> \<not> str_contains s pat"
  by (auto simp: str_contains_def dest: sublist_length_le)

lemma json_reads:
  assumes "json_laws s de"
  shows "reads_back s v (de v)" "ser_is_human_readable s" "de_string (de (ser_str s x)) = Ok x"
  using assms by (auto simp: json_laws_def reads_back_def)

section \<open>Results\<close>

lemma transport_key_tests:
  "public_key_from_array_round_trips_via_as_bytes" "private_key_expose_returns_original_bytes"
  "private_key_debug_redacts_key_material"
  by (simp add: public_key_from_array_round_trips_via_as_bytes_def private_key_expose_returns_original_bytes_def
      Let_def | code_simp)+

lemma transport_key_text_tests:
  assumes "hex_laws hx" "hex_format hx"
  shows "public_key_display_is_lowercase_hex hx" "public_key_debug_includes_hex hx"
    "public_key_try_from_str_round_trip hx" "public_key_try_from_str_rejects_bad_hex hx"
    "public_key_try_from_str_rejects_wrong_length hx" "private_key_expose_to_human_string_is_lowercase_hex hx"
    "private_key_try_from_str_round_trip hx" "private_key_try_from_str_rejects_bad_hex hx"
    "private_key_try_from_str_rejects_wrong_length hx"
proof -
  show "public_key_display_is_lowercase_hex hx"
    by (simp add: public_key_display_is_lowercase_hex_def tpub_display_def hex_repeat [OF assms(2)])
  have "sublist ''TransportPublicKey('' (''TransportPublicKey('' @ t)" for t by (auto simp: sublist_def intro: exI [of _ "[]"])
  moreover have "sublist ''0101'' (''TransportPublicKey('' @ str_repeat ''01'' 32 @ '')'')" by code_simp
  ultimately show "public_key_debug_includes_hex hx"
    by (simp add: public_key_debug_includes_hex_def tpub_debug_def str_contains_def hex_repeat [OF assms(2)])
  show "public_key_try_from_str_round_trip hx"
    using assms(1) by (simp add: public_key_try_from_str_round_trip_def tpub.of_to_text tpub_ok_def)
  show "public_key_try_from_str_rejects_wrong_length hx" "private_key_try_from_str_rejects_wrong_length hx"
    by (simp_all add: public_key_try_from_str_rejects_wrong_length_def private_key_try_from_str_rejects_wrong_length_def
        tpub_try_from_str_def tpriv_try_from_str_def hex_repeat_decode [OF assms] try_into_array32_def)
  show "private_key_expose_to_human_string_is_lowercase_hex hx"
    by (simp add: private_key_expose_to_human_string_is_lowercase_hex_def tpriv_expose_to_human_string_def hex_repeat [OF assms(2)])
  show "private_key_try_from_str_round_trip hx"
    using assms(1) by (simp add: private_key_try_from_str_round_trip_def tpriv.of_to_text tpriv_ok_def)
  have "\<not> list_all is_ascii_hexdigit ''not-hex''" "\<not> list_all is_ascii_hexdigit ''gg''" by code_simp+
  with hex_refuses [OF assms(2)] show "public_key_try_from_str_rejects_bad_hex hx" "private_key_try_from_str_rejects_bad_hex hx"
    by (fastforce simp: public_key_try_from_str_rejects_bad_hex_def private_key_try_from_str_rejects_bad_hex_def
        tpub_try_from_str_def tpriv_try_from_str_def)+
qed

lemma transport_key_json_tests:
  assumes "hex_laws hx" "hex_format hx" "json_laws s de"
  shows "public_key_json_round_trip hx s de" "private_key_json_round_trip hx s de"
proof -
  have "tpub_deserialize hx (de (tpub_serialize hx s k)) = Ok k" if "tpub_ok k" for k
    using tpub.load_store [OF assms(1) that json_reads(1) [OF assms(3)]] .
  then show "public_key_json_round_trip hx s de"
    by (simp add: public_key_json_round_trip_def tpub_ok_def)
      (simp add: tpub_serialize_def json_reads [OF assms(3)] hex_repeat [OF assms(2)])
  have "tpriv_deserialize hx (de (tpriv_serialize hx s k)) = Ok k" if "tpriv_ok k" for k
    using tpriv.load_store [OF assms(1) that json_reads(1) [OF assms(3)]] .
  then show "private_key_json_round_trip hx s de"
    by (simp add: private_key_json_round_trip_def tpriv_ok_def)
qed

lemma keypair_run:
  assumes "ed25519_laws ed"
  obtains kp where "\<forall>k. keypair ed fresh k = k kp" "key_pair ed (sgk_private kp) (sgk_public kp)" "ssk_ok (sgk_private kp)"
    "\<forall>p. verify_payload ed (sgk_public kp) (sign ed (sgk_private kp) p) = Ok p"
proof -
  from signature_generate_pair [OF assms] obtain kp where
    "signature_generate ed fresh = Ok kp" "key_pair ed (sgk_private kp) (sgk_public kp)" "ssk_ok (sgk_private kp)" .
  moreover from this(1) have "keypair ed fresh k = k kp" for k by (simp add: keypair_def)
  ultimately show thesis by (intro that) (auto intro: signer.verify_sign [OF assms])
qed

lemma signature_tests:
  assumes "ed25519_laws ed"
  shows "generated_public_key_matches_private ed fresh" "sign_verify_payload_round_trip ed fresh"
    "sign_length_is_payload_plus_signature ed fresh" "sign_empty_payload ed fresh"
    "verify_payload_rejects_empty_input ed fresh" "verify_payload_rejects_input_shorter_than_signature ed fresh"
proof -
  obtain kp where kp: "\<forall>k. keypair ed fresh k = k kp" "key_pair ed (sgk_private kp) (sgk_public kp)"
    "ssk_ok (sgk_private kp)" "\<forall>p. verify_payload ed (sgk_public kp) (sign ed (sgk_private kp) p) = Ok p"
    by (rule keypair_run [OF assms, where fresh = fresh])
  note len = signer.sign_length [OF assms]
  show "generated_public_key_matches_private ed fresh"
    using kp(2) by (simp add: generated_public_key_matches_private_def kp(1) key_pair_def)
  show "sign_verify_payload_round_trip ed fresh"
    by (simp add: sign_verify_payload_round_trip_def kp)
  show "sign_length_is_payload_plus_signature ed fresh"
    by (simp add: sign_length_is_payload_plus_signature_def kp len)
  show "sign_empty_payload ed fresh"
    by (simp add: sign_empty_payload_def kp len)
  show "verify_payload_rejects_empty_input ed fresh" "verify_payload_rejects_input_shorter_than_signature ed fresh"
    by (cases "sgk_public kp"; simp add: verify_payload_rejects_empty_input_def
        verify_payload_rejects_input_shorter_than_signature_def kp SIGNATURE_LEN_def)+
qed

lemma signature_key_text_tests:
  assumes "hex_laws hx" "hex_format hx" "ed25519_laws ed"
  shows "verification_key_from_str_round_trip hx ed fresh" "verification_key_from_str_rejects_bad_hex hx ed"
    "verification_key_from_str_rejects_wrong_length hx ed" "signing_key_expose_to_human_string_round_trip hx ed fresh"
    "signing_key_debug_redacts_key_material hx ed fresh"
proof -
  obtain kp where kp: "\<forall>k. keypair ed fresh k = k kp" "key_pair ed (sgk_private kp) (sgk_public kp)"
    "ssk_ok (sgk_private kp)" "\<forall>p. verify_payload ed (sgk_public kp) (sign ed (sgk_private kp) p) = Ok p"
    by (rule keypair_run [OF assms(3), where fresh = fresh])
  show "verification_key_from_str_round_trip hx ed fresh"
    using assms by (simp add: verification_key_from_str_round_trip_def kp svk.of_to_text)
  have "\<not> list_all is_ascii_hexdigit ''not-hex''" by code_simp
  with hex_refuses [OF assms(2)] show "verification_key_from_str_rejects_bad_hex hx ed"
    by (fastforce simp: verification_key_from_str_rejects_bad_hex_def svk_try_from_str_def)
  show "verification_key_from_str_rejects_wrong_length hx ed"
    by (simp add: verification_key_from_str_rejects_wrong_length_def svk_try_from_str_def
        hex_repeat_decode [OF assms(1,2)] try_into_array32_def)
  have len: "length (ssk_expose_to_human_string hx (sgk_private kp)) = 64"
    using kp(3) by (simp add: ssk_expose_to_human_string_def hex_text [OF assms(2)] ssk_ok_def)
  show "signing_key_expose_to_human_string_round_trip hx ed fresh"
    using assms(1) by (simp add: signing_key_expose_to_human_string_round_trip_def kp len ssk.of_to_text)
  have "str_contains (ssk_debug (sgk_private kp)) ''[redacted]''"
    unfolding ssk_debug_def by code_simp
  moreover have "\<not> str_contains (ssk_debug (sgk_private kp)) (ssk_expose_to_human_string hx (sgk_private kp))"
    by (rule contains_shorter) (simp add: len ssk_debug_def)
  ultimately show "signing_key_debug_redacts_key_material hx ed fresh"
    by (simp add: signing_key_debug_redacts_key_material_def kp)
qed

lemma signature_key_json_tests:
  assumes "hex_laws hx" "hex_format hx" "ed25519_laws ed" "json_laws s de"
  shows "verification_key_json_round_trip hx ed s de fresh" "signing_key_json_round_trip hx ed s de fresh"
proof -
  obtain kp where kp: "\<forall>k. keypair ed fresh k = k kp" "key_pair ed (sgk_private kp) (sgk_public kp)"
    "ssk_ok (sgk_private kp)" "\<forall>p. verify_payload ed (sgk_public kp) (sign ed (sgk_private kp) p) = Ok p"
    by (rule keypair_run [OF assms(3), where fresh = fresh])
  have svk: "svk_deserialize hx ed (de (svk_serialize hx ed s k)) = Ok k" for k
    using assms(1,3) svk.load_store [OF _ _ json_reads(1) [OF assms(4)]] by blast
  have ssk: "ssk_deserialize hx (de (ssk_serialize hx s (sgk_private kp))) = Ok (sgk_private kp)"
    using ssk.load_store [OF assms(1) kp(3) json_reads(1) [OF assms(4)]] .
  have len: "length (svk_as_bytes ed k) = 32" for k
    using assms(3) by (cases k) (simp add: ed25519_laws_def)
  show "verification_key_json_round_trip hx ed s de fresh"
    by (simp add: verification_key_json_round_trip_def kp svk)
      (simp add: svk_serialize_def json_reads [OF assms(4)] hex_text [OF assms(2)] len)
  show "signing_key_json_round_trip hx ed s de fresh"
    by (simp add: signing_key_json_round_trip_def kp ssk)
      (simp add: ssk_serialize_def json_reads [OF assms(4)] hex_text [OF assms(2)] kp(3) [unfolded ssk_ok_def])
qed

text \<open>The headers of the tests are well formed, so their credentials verify.\<close>

lemma test_header_ok: "header_ok (AuthHeader_new (NodeId_from_u32 n) None transport_public_key)"
  by (simp add: header_ok_def AuthHeader_new_def transport_public_key_def tpub_ok_def node_id_ok_def
      NodeId_from_u32_def MAX_NODE_ID_LEN_def)

lemma test_header_verifies:
  assumes "yatlv_laws y" "ed25519_laws ed" "key_pair ed sk vk"
  defines "h \<equiv> \<lambda>n. AuthHeader_new (NodeId_from_u32 n) None transport_public_key"
  shows "verify y ed (auth_sign y ed (h n) sk) vk = Ok (h n)"
    "verify_raw y ed vk (sah_expose (auth_sign y ed (h n) sk)) = Ok (h n)"
  using verify_raw_sign [OF assms(1-3) test_header_ok] by (simp_all add: verify_def h_def)

lemma header_value_tests:
  "validate_public_key_accepts_matching_key" "validate_public_key_rejects_wrong_key"
  "validate_public_key_mismatch_contains_both_keys" "node_id_returns_correct_value"
  "role_returns_correct_value_when_empty" "role_returns_correct_value_when_set"
  by code_simp+

lemma credential_tests:
  assumes "yatlv_laws y" "ed25519_laws ed"
  shows "sign_and_verify_round_trip y ed fresh" "verify_raw_round_trip y ed fresh"
    "verify_raw_rejects_empty_input y ed fresh" "expose_returns_non_empty_bytes y ed fresh"
    "different_node_ids_produce_distinct_credentials y ed fresh" "check_node_id_rejects_wrong_peer y ed fresh"
    "check_node_id_accepts_correct_peer y ed fresh"
proof -
  obtain kp where kp: "\<forall>k. keypair ed fresh k = k kp" "key_pair ed (sgk_private kp) (sgk_public kp)"
    "ssk_ok (sgk_private kp)" "\<forall>p. verify_payload ed (sgk_public kp) (sign ed (sgk_private kp) p) = Ok p"
    by (rule keypair_run [OF assms(2), where fresh = fresh])
  note ver = test_header_verifies [OF assms kp(2)]
  have ids: "NodeId_from_u32 1 \<noteq> NodeId_from_u32 2" by code_simp
  show "sign_and_verify_round_trip y ed fresh" "verify_raw_round_trip y ed fresh"
    by (simp_all add: sign_and_verify_round_trip_def verify_raw_round_trip_def signed_def auth_header_def kp ver)
      (simp_all add: AuthHeader_new_def AuthDetails_from_def validate_public_key_def)
  show "verify_raw_rejects_empty_input y ed fresh"
    by (cases "sgk_public kp") (simp add: verify_raw_rejects_empty_input_def signed_def kp verify_raw_def SIGNATURE_LEN_def)
  show "expose_returns_non_empty_bytes y ed fresh"
    using signer.sign_length [OF assms(2)]
    by (simp add: expose_returns_non_empty_bytes_def signed_def kp auth_sign_def SIGNATURE_LEN_def flip: length_greater_0_conv)
  have "sah_expose (auth_sign y ed (AuthHeader_new (NodeId_from_u32 1) None transport_public_key) (sgk_private kp))
      \<noteq> sah_expose (auth_sign y ed (AuthHeader_new (NodeId_from_u32 2) None transport_public_key) (sgk_private kp))"
    using ver(2) [of 1] ver(2) [of 2] ids by (auto simp: AuthHeader_new_def)
  then show "different_node_ids_produce_distinct_credentials y ed fresh"
    by (simp add: different_node_ids_produce_distinct_credentials_def kp ver)
      (simp add: AuthHeader_new_def AuthDetails_from_def)
  show "check_node_id_rejects_wrong_peer y ed fresh" "check_node_id_accepts_correct_peer y ed fresh"
    by (simp_all add: check_node_id_rejects_wrong_peer_def check_node_id_accepts_correct_peer_def kp ver)
      (simp_all add: AuthHeader_new_def AuthDetails_from_def check_node_id_def ids)
qed

lemma credential_text_tests:
  assumes "hex_laws hx" "hex_format hx" "yatlv_laws y" "ed25519_laws ed"
  shows "debug_redacts_credential_bytes hx y ed fresh" "try_from_str_round_trip hx y ed fresh"
    "try_from_str_rejects_bad_hex hx" "try_from_str_rejects_empty_string hx"
    "json_laws s de \<Longrightarrow> signed_auth_header_json_round_trip hx y ed s de fresh"
proof -
  obtain kp where kp: "\<forall>k. keypair ed fresh k = k kp" "key_pair ed (sgk_private kp) (sgk_public kp)"
    "ssk_ok (sgk_private kp)" "\<forall>p. verify_payload ed (sgk_public kp) (sign ed (sgk_private kp) p) = Ok p"
    by (rule keypair_run [OF assms(4), where fresh = fresh])
  note ver = test_header_verifies [OF assms(3,4) kp(2)]
  let ?cred = "auth_sign y ed (auth_header 1) (sgk_private kp)"
  have "str_contains (sah_debug ?cred) ''[redacted]''" unfolding sah_debug_def by code_simp
  moreover have "\<not> str_contains (sah_debug ?cred) (hex_encode hx (sah_expose ?cred))"
    by (rule contains_shorter)
      (simp add: sah_debug_def hex_text [OF assms(2)] auth_sign_def signer.sign_length [OF assms(4)] SIGNATURE_LEN_def)
  ultimately show "debug_redacts_credential_bytes hx y ed fresh"
    by (simp add: debug_redacts_credential_bytes_def signed_def kp)
  show "try_from_str_round_trip hx y ed fresh"
    using sah.of_to_text [OF assms(1)]
    by (simp add: try_from_str_round_trip_def signed_def kp auth_header_def ver flip: sah_expose_to_human_string_def)
  have "\<not> list_all is_ascii_hexdigit ''not-valid-hex''" by code_simp
  with hex_refuses [OF assms(2)] show "try_from_str_rejects_bad_hex hx"
    by (fastforce simp: try_from_str_rejects_bad_hex_def sah_try_from_str_def)
  have "hex_decode hx [] = Ok []"
    using assms(1) hex_text(1) [OF assms(2), of "[]"] by (metis hex_laws_def length_0_conv list.size(3) mult_0_right)
  then show "try_from_str_rejects_empty_string hx"
    by (simp add: try_from_str_rejects_empty_string_def sah_try_from_str_def)
  show "signed_auth_header_json_round_trip hx y ed s de fresh" if js: "json_laws s de"
    using sah.load_store [OF assms(1) _ json_reads(1) [OF js]]
    by (simp add: signed_auth_header_json_round_trip_def signed_def kp auth_header_def ver)
      (simp add: sah_serialize_def json_reads [OF js] hex_text [OF assms(2)])
qed

end
