(* ===== verification/Packets.thy ===== *)
theory Packets
  imports Packet_State Auth
begin

text \<open>
  Model of the transport half of \<open>src/packets.rs\<close>: length-prefixed frames, \<open>PacketTx\<close> and
  \<open>PacketRx\<close>. The handshake half is in theory \<open>Handshake\<close>.

  Tokio streams and the \<open>snow\<close> cipher state are not part of the repository. They are records of
  operations passed to the definitions: \<open>stream_reader\<close>, \<open>stream_writer\<close>, \<open>source_reader\<close>
  (the \<open>AsyncRead\<close> that \<open>send_reader\<close> drains) and \<open>transport_lib\<close>. A call that fills a
  \<open>&mut [u8]\<close> buffer takes the buffer's contents and returns the new contents.

  The cipher state is shared by the two halves of a connection through
  \<open>Arc<Mutex<TransportState>>\<close>; each operation locks it, uses it and releases it. Here it is an
  explicit cell that every operation takes and returns next to the half it works on. The lock
  is poisoned only by a panic inside \<open>snow\<close>, which is not modelled; nor is the slice panic of
  \<open>&plaintext_buf[..n]\<close>, which needs \<open>snow\<close> to report more bytes than the buffer holds.
\<close>

section \<open>Library interfaces\<close>

text \<open>Library errors are carried, never inspected; they are identified with their text.\<close>

type_synonym io_error = string
type_synonym snow_error = string

record 's stream_reader =
  sr_read_u16 :: "'s \<Rightarrow> (u16, io_error) result \<times> 's"
  sr_read_exact :: "'s \<Rightarrow> bytes \<Rightarrow> (unit, io_error) result \<times> bytes \<times> 's"

record 's stream_writer =
  sw_write_all :: "'s \<Rightarrow> bytes \<Rightarrow> (unit, io_error) result \<times> 's"
  sw_flush :: "'s \<Rightarrow> (unit, io_error) result \<times> 's"

type_synonym 'rd source_reader = "'rd \<Rightarrow> bytes \<Rightarrow> (nat, io_error) result \<times> bytes \<times> 'rd"

record 't transport_lib =
  ts_write_message :: "'t \<Rightarrow> bytes \<Rightarrow> bytes \<Rightarrow> (nat, snow_error) result \<times> bytes \<times> 't"
  ts_read_message :: "'t \<Rightarrow> bytes \<Rightarrow> bytes \<Rightarrow> (nat, snow_error) result \<times> bytes \<times> 't"

section \<open>Data\<close>

datatype ConnectionError =
    Io io_error
  | Noise snow_error
  | Packet PacketReadError
  | PacketBuilderErr PacketBuildError
  | PacketOverflow
  | MissingRemoteStatic
  | RemoteStaticKeyLength
  | HandshakeTimeout
  | InvalidNodeId string
  | BadAuthErr BadAuth
  | MessageAborted

record 'r PacketRx =
  rx_packet_reader :: PacketReader
  rx_read :: 'r
  rx_ciphertext_buf :: bytes
  rx_plaintext_buf :: bytes
  rx_payload_end :: nat

record 'w PacketTx =
  tx_packet_builder :: PacketBuilder
  tx_write :: 'w
  tx_write_buf :: bytes

section \<open>Framing\<close>

definition read_frame :: "'s stream_reader \<Rightarrow> 's \<Rightarrow> bytes
    \<Rightarrow> (unit, ConnectionError) result \<times> bytes \<times> 's" where
  "read_frame sr stream frame =
     (case sr_read_u16 sr stream of
        (Err e, stream) \<Rightarrow> (Err (Io e), frame, stream)
      | (Ok len, stream) \<Rightarrow>
          (case sr_read_exact sr stream (vec_resize frame (unat len)) of
             (Err e, frame, stream) \<Rightarrow> (Err (Io e), frame, stream)
           | (Ok _, frame, stream) \<Rightarrow> (Ok (), frame, stream)))"

section \<open>Receiving\<close>

definition read_packet :: "'r stream_reader \<Rightarrow> 't transport_lib \<Rightarrow> 't \<times> 'r PacketRx
    \<Rightarrow> (PacketHeader, ConnectionError) result \<times> 't \<times> 'r PacketRx" where
  "read_packet sr tp s =
     (case s of (state, rx) \<Rightarrow>
        (case read_frame sr (rx_read rx) (rx_ciphertext_buf rx) of
          (Err e, ciphertext_buf, rd) \<Rightarrow>
            (Err e, state, rx\<lparr>rx_read := rd, rx_ciphertext_buf := ciphertext_buf\<rparr>)
        | (Ok _, ciphertext_buf, rd) \<Rightarrow>
            (let rx = rx\<lparr>rx_read := rd, rx_ciphertext_buf := ciphertext_buf\<rparr>;
                 plaintext_buf = vec_resize (rx_plaintext_buf rx) (length ciphertext_buf)
             in case ts_read_message tp state ciphertext_buf plaintext_buf of
                  (Err e, plaintext_buf, state) \<Rightarrow>
                    (Err (Noise e), state, rx\<lparr>rx_plaintext_buf := plaintext_buf\<rparr>)
                | (Ok n, plaintext_buf, state) \<Rightarrow>
                    (let rx = rx\<lparr>rx_plaintext_buf := plaintext_buf, rx_payload_end := n\<rparr>
                     in case read (rx_packet_reader rx) (take n plaintext_buf) of
                          (Err e, packet_reader) \<Rightarrow>
                            (Err (Packet e), state, rx\<lparr>rx_packet_reader := packet_reader\<rparr>)
                        | (Ok header, packet_reader) \<Rightarrow>
                            (Ok header, state, rx\<lparr>rx_packet_reader := packet_reader\<rparr>)))))"

definition payload :: "'r PacketRx \<Rightarrow> bytes" where
  "payload rx =
     (if rx_payload_end rx > 2 then drop 2 (take (rx_payload_end rx) (rx_plaintext_buf rx)) else [])"

section \<open>Sending\<close>

text \<open>The block that \<open>send_packet\<close> and \<open>abort_message\<close> share: grow the write buffer, encrypt behind
  the two reserved bytes, fill in the length prefix (\<open>encrypt_and_write\<close>), then write and flush
  the frame (\<open>write_frame\<close>).\<close>

definition write_frame :: "'w stream_writer \<Rightarrow> 't \<times> 'w PacketTx \<Rightarrow> bytes
    \<Rightarrow> (unit, ConnectionError) result \<times> 't \<times> 'w PacketTx" where
  "write_frame sw s frame =
     (case s of (state, tx) \<Rightarrow>
        (case sw_write_all sw (tx_write tx) frame of
           (Err e, w) \<Rightarrow> (Err (Io e), state, tx\<lparr>tx_write := w\<rparr>)
         | (Ok _, w) \<Rightarrow>
             (case sw_flush sw w of
                (Err e, w) \<Rightarrow> (Err (Io e), state, tx\<lparr>tx_write := w\<rparr>)
              | (Ok _, w) \<Rightarrow> (Ok (), state, tx\<lparr>tx_write := w\<rparr>))))"

definition encrypt_and_write :: "'w stream_writer \<Rightarrow> 't transport_lib \<Rightarrow> 't \<times> 'w PacketTx \<Rightarrow> bytes
    \<Rightarrow> (unit, ConnectionError) result \<times> 't \<times> 'w PacketTx" where
  "encrypt_and_write sw tp s plaintext =
     (case s of (state, tx) \<Rightarrow>
        (let ciphertext_len = length plaintext + CIPHER_OVERHEAD_SIZE;
            frame_len = FRAME_HEADER_SIZE + ciphertext_len;
            write_buf = (if length (tx_write_buf tx) < frame_len
                         then vec_resize (tx_write_buf tx) frame_len else tx_write_buf tx)
        in case ts_write_message tp state plaintext (drop FRAME_HEADER_SIZE write_buf) of
             (Err e, ciph, state) \<Rightarrow>
               (Err (Noise e), state, tx\<lparr>tx_write_buf := take FRAME_HEADER_SIZE write_buf @ ciph\<rparr>)
           | (Ok n, ciph, state) \<Rightarrow>
               (let write_buf = u16_to_be_bytes (of_nat n) @ ciph in
                write_frame sw (state, tx\<lparr>tx_write_buf := write_buf\<rparr>)
                  (take (FRAME_HEADER_SIZE + n) write_buf))))"

definition prepare_message :: "'t \<times> 'w PacketTx \<Rightarrow> u16
    \<Rightarrow> (unit, ConnectionError) result \<times> 't \<times> 'w PacketTx" where
  "prepare_message s msg_type =
     (case s of (state, tx) \<Rightarrow>
        (case prepare (tx_packet_builder tx) msg_type of
          (r, b) \<Rightarrow> (map_err PacketBuilderErr r, state, tx\<lparr>tx_packet_builder := b\<rparr>)))"

definition send_packet :: "'w stream_writer \<Rightarrow> 't transport_lib \<Rightarrow> 't \<times> 'w PacketTx
    \<Rightarrow> bytes \<Rightarrow> bool \<Rightarrow> (unit, ConnectionError) result \<times> 't \<times> 'w PacketTx" where
  "send_packet sw tp s pl is_last =
     (case s of (state, tx) \<Rightarrow>
        (case pack (tx_packet_builder tx) pl is_last of
          (Err e, b) \<Rightarrow> (Err (PacketBuilderErr e), state, tx\<lparr>tx_packet_builder := b\<rparr>)
        | (Ok plaintext, b) \<Rightarrow>
            encrypt_and_write sw tp (state, tx\<lparr>tx_packet_builder := b\<rparr>) plaintext))"

text \<open>The \<open>while let\<close> loop of \<open>send_slice\<close> over the peekable chunks.\<close>

fun send_chunks :: "'w stream_writer \<Rightarrow> 't transport_lib \<Rightarrow> 't \<times> 'w PacketTx
    \<Rightarrow> bytes list \<Rightarrow> bool \<Rightarrow> (unit, ConnectionError) result \<times> 't \<times> 'w PacketTx" where
  "send_chunks sw tp s [] last_slice = (Ok (), s)"
| "send_chunks sw tp s (chunk # cs) last_slice =
     (let is_last = (cs = []) in
      case send_packet sw tp s chunk (is_last \<and> last_slice) of
        (Err e, s) \<Rightarrow> (Err e, s)
      | (Ok _, s) \<Rightarrow> send_chunks sw tp s cs last_slice)"

definition send_slice :: "'w stream_writer \<Rightarrow> 't transport_lib \<Rightarrow> 't \<times> 'w PacketTx
    \<Rightarrow> bytes \<Rightarrow> bool \<Rightarrow> (unit, ConnectionError) result \<times> 't \<times> 'w PacketTx" where
  "send_slice sw tp s data last_slice =
     (let cs = chunks MAX_PACKET_SIZE data in
      if cs = [] then send_packet sw tp s [] last_slice
      else send_chunks sw tp s cs last_slice)"

text \<open>The \<open>loop\<close> of \<open>send_reader\<close>. The source may never end, so the loop may not return
  (\<open>None\<close>). Its normal exit returns the buffer, how much of it is filled and \<open>sent_any\<close>.\<close>

partial_function (option) send_reader_loop :: "'w stream_writer \<Rightarrow> 't transport_lib
    \<Rightarrow> 'rd source_reader \<Rightarrow> 't \<times> 'w PacketTx \<Rightarrow> 'rd \<Rightarrow> bytes \<Rightarrow> nat \<Rightarrow> bool
    \<Rightarrow> ((bytes \<times> nat \<times> bool, ConnectionError) result \<times> ('t \<times> 'w PacketTx) \<times> 'rd) option" where
  "send_reader_loop sw tp rr s reader buf filled sent_any =
     (let space = MAX_PACKET_SIZE - filled in
      case (if space = 0
            then (case send_packet sw tp s (take filled buf) False of
                    (Err e, s) \<Rightarrow> (Err e, s)
                  | (Ok _, s) \<Rightarrow> (Ok 0, s))
            else (Ok filled, s)) of
        (Err e, s) \<Rightarrow> Some (Err e, s, reader)
      | (Ok filled, s) \<Rightarrow>
          (case rr reader (drop filled buf) of
             (Err e, buf_tail, reader) \<Rightarrow> Some (Err (Io e), s, reader)
           | (Ok n, buf_tail, reader) \<Rightarrow>
               (let buf = take filled buf @ buf_tail in
                if n = 0 then Some (Ok (buf, filled, sent_any), s, reader)
                else send_reader_loop sw tp rr s reader buf (filled + n) True)))"

definition send_reader :: "'w stream_writer \<Rightarrow> 't transport_lib \<Rightarrow> 'rd source_reader
    \<Rightarrow> 't \<times> 'w PacketTx \<Rightarrow> 'rd
    \<Rightarrow> (((unit, ConnectionError) result \<times> 't \<times> 'w PacketTx) \<times> 'rd) option" where
  "send_reader sw tp rr s reader =
     (case send_reader_loop sw tp rr s reader (replicate MAX_PACKET_SIZE 0) 0 False of
        None \<Rightarrow> None
      | Some (Err e, s, reader) \<Rightarrow> Some ((Err e, s), reader)
      | Some (Ok (buf, filled, sent_any), s, reader) \<Rightarrow>
          if filled > 0 then Some (send_packet sw tp s (take filled buf) True, reader)
          else if \<not> sent_any then Some (send_packet sw tp s [] True, reader)
          else Some ((Ok (), s), reader))"

definition abort_message :: "'w stream_writer \<Rightarrow> 't transport_lib \<Rightarrow> 't \<times> 'w PacketTx
    \<Rightarrow> (unit, ConnectionError) result \<times> 't \<times> 'w PacketTx" where
  "abort_message sw tp s =
     (case s of (state, tx) \<Rightarrow>
        (case abort (tx_packet_builder tx) of
          (None, b) \<Rightarrow> (Ok (), state, tx\<lparr>tx_packet_builder := b\<rparr>)
        | (Some plaintext, b) \<Rightarrow>
            encrypt_and_write sw tp (state, tx\<lparr>tx_packet_builder := b\<rparr>) plaintext))"

end
