(* ===== verification/Send_Plan.thy ===== *)
theory Send_Plan
  imports Packets
begin

text \<open>
  Reference descriptions of the two segmentation routines of \<open>PacketTx\<close>. A plan is the list of
  packet payloads with their last-flags, and \<open>send_plan\<close> sends it packet by packet up to the
  first error. \<open>send_slice\<close> is shown equal to sending \<open>slice_plan\<close>, and the loop of
  \<open>send_reader\<close>, which works through a reused buffer and a source that returns as many bytes as
  it likes per call, is shown to return and to be equal to sending \<open>reader_plan\<close>, for every
  source that ends or fails. The two plans agree unless the length of the data is a positive multiple of
  \<open>MAX_PACKET_SIZE\<close>.
\<close>

section \<open>Plans\<close>

fun send_plan :: "'w stream_writer \<Rightarrow> 't transport_lib \<Rightarrow> 't \<times> 'w PacketTx
    \<Rightarrow> (bytes \<times> bool) list \<Rightarrow> (unit, ConnectionError) result \<times> 't \<times> 'w PacketTx" where
  "send_plan sw tp s [] = (Ok (), s)"
| "send_plan sw tp s ((p, l) # ps) =
     (case send_packet sw tp s p l of
        (Err e, s) \<Rightarrow> (Err e, s)
      | (Ok _, s) \<Rightarrow> send_plan sw tp s ps)"

fun flag_last :: "bytes list \<Rightarrow> bool \<Rightarrow> (bytes \<times> bool) list" where
  "flag_last [] l = []"
| "flag_last (c # cs) l = (c, cs = [] \<and> l) # flag_last cs l"

definition slice_plan :: "bytes \<Rightarrow> bool \<Rightarrow> (bytes \<times> bool) list" where
  "slice_plan data l = (if data = [] then [([], l)] else flag_last (chunks MAX_PACKET_SIZE data) l)"

text \<open>What the loop of \<open>send_reader\<close> and its epilogue send for the bytes not sent yet: a full packet
  as soon as the buffer is full, never flagged, then the rest.\<close>

function drain_plan :: "bytes \<Rightarrow> (bytes \<times> bool) list" where
  "drain_plan xs =
     (if MAX_PACKET_SIZE \<le> length xs
      then (take MAX_PACKET_SIZE xs, False) # drain_plan (drop MAX_PACKET_SIZE xs)
      else if xs = [] then [] else [(xs, True)])"
  by pat_completeness auto
termination
  by (relation "measure length") (auto simp: size_defs)

declare drain_plan.simps [simp del]

definition reader_plan :: "bytes \<Rightarrow> (bytes \<times> bool) list" where
  "reader_plan data = (if data = [] then [([], True)] else drain_plan data)"

text \<open>The full packets among them.\<close>

function full_plan :: "bytes \<Rightarrow> (bytes \<times> bool) list" where
  "full_plan xs =
     (if MAX_PACKET_SIZE \<le> length xs
      then (take MAX_PACKET_SIZE xs, False) # full_plan (drop MAX_PACKET_SIZE xs)
      else [])"
  by pat_completeness auto
termination
  by (relation "measure length") (auto simp: size_defs)

declare full_plan.simps [simp del]

text \<open>A source that yields \<open>data\<close> and then \<open>fin\<close>: each read into a non-empty buffer fills in between
  one byte and as many as fit, until nothing is left; the next read returns \<open>fin\<close>, which is
  \<open>Ok 0\<close> at the end of the input and \<open>Err e\<close> for a source that fails. This is the contract of
  \<open>AsyncRead::read\<close>.\<close>

inductive yields :: "'rd source_reader \<Rightarrow> (nat, io_error) result \<Rightarrow> 'rd \<Rightarrow> bytes \<Rightarrow> bool"
  for rr :: "'rd source_reader" and fin :: "(nat, io_error) result" where
  at_end: "(\<And>buf. buf \<noteq> [] \<Longrightarrow> \<exists>buf' rd'. rr rd buf = (fin, buf', rd') \<and> length buf' = length buf)
    \<Longrightarrow> yields rr fin rd []"
| more: "data \<noteq> [] \<Longrightarrow>
    (\<And>buf. buf \<noteq> [] \<Longrightarrow> \<exists>n buf' rd'. rr rd buf = (Ok n, buf', rd') \<and> 0 < n \<and> n \<le> length data
       \<and> n \<le> length buf \<and> length buf' = length buf \<and> take n buf' = take n data
       \<and> yields rr fin rd' (drop n data))
    \<Longrightarrow> yields rr fin rd data"

abbreviation delivers :: "'rd source_reader \<Rightarrow> 'rd \<Rightarrow> bytes \<Rightarrow> bool" where
  "delivers rr \<equiv> yields rr (Ok 0)"

abbreviation fails_after :: "'rd source_reader \<Rightarrow> io_error \<Rightarrow> 'rd \<Rightarrow> bytes \<Rightarrow> bool" where
  "fails_after rr e \<equiv> yields rr (Err e)"

section \<open>Slices\<close>

lemma MAX_PACKET_SIZE_pos [simp]: "0 < MAX_PACKET_SIZE"
  by (simp add: size_defs)

lemma send_plan_single [simp]: "send_plan sw tp s [(p, l)] = send_packet sw tp s p l"
  by (auto split: prod.splits result.splits)

lemmas send_plan_Cons = send_plan.simps(2)
declare send_plan_Cons [simp del]

lemma send_plan_append:
  "send_plan sw tp s (ps @ qs) =
     (case send_plan sw tp s ps of
        (Err e, s) \<Rightarrow> (Err e, s)
      | (Ok _, s) \<Rightarrow> send_plan sw tp s qs)"
  by (induction sw tp s ps rule: send_plan.induct) (auto simp: send_plan_Cons split: prod.splits result.splits)

lemma send_chunks_plan: "send_chunks sw tp s cs l = send_plan sw tp s (flag_last cs l)"
  by (induction sw tp s cs l rule: send_chunks.induct) (auto simp: send_plan_Cons split: prod.splits result.splits)

lemma send_slice_plan: "send_slice sw tp s data l = send_plan sw tp s (slice_plan data l)"
  by (simp add: send_slice_def slice_plan_def send_chunks_plan chunks_eq_Nil Let_def)

lemma flag_last_flags: "flags_ok (map snd (flag_last cs l))"
proof (induction cs)
  case (Cons c cs)
  then show ?case by (cases cs) auto
qed simp

lemma map_fst_flag_last [simp]: "map fst (flag_last cs l) = cs"
  by (induction cs) auto

lemma last_flag_last: "cs \<noteq> [] \<Longrightarrow> snd (last (flag_last cs l)) = l"
proof (induction cs)
  case (Cons c cs)
  then show ?case by (cases cs) auto
qed simp

lemma flag_last_eq_Nil [simp]: "flag_last cs l = [] \<longleftrightarrow> cs = []"
  by (cases cs) auto

lemma slice_plan_flags: "flags_ok (map snd (slice_plan data l))"
  by (simp add: slice_plan_def flag_last_flags)

lemma slice_plan_last: "slice_plan data l \<noteq> [] \<and> snd (last (slice_plan data l)) = l"
  by (simp add: slice_plan_def last_flag_last chunks_eq_Nil)

lemma slice_plan_concat: "concat (map fst (slice_plan data l)) = data"
  by (simp add: slice_plan_def concat_chunks)

lemma map_fst_slice_plan: "map fst (slice_plan data l) = (if data = [] then [[]] else chunks MAX_PACKET_SIZE data)"
  by (simp add: slice_plan_def)

lemma slice_plan_fits: "(p, f) \<in> set (slice_plan data l) \<Longrightarrow> length p \<le> MAX_PACKET_SIZE"
proof -
  assume "(p, f) \<in> set (slice_plan data l)"
  then have "p \<in> set (map fst (slice_plan data l))" by force
  then show ?thesis
    using chunks_bounds [OF MAX_PACKET_SIZE_pos] by (auto simp: map_fst_slice_plan simp del: set_map split: if_splits)
qed

lemma map_snd_flag_last: "cs \<noteq> [] \<Longrightarrow> map snd (flag_last cs l) = replicate (length cs - 1) False @ [l]"
proof (induction cs)
  case (Cons c cs)
  then show ?case by (cases cs) simp_all
qed simp

lemma map_snd_slice_plan: "map snd (slice_plan data l) = replicate (length (slice_plan data l) - 1) False @ [l]"
  using map_snd_flag_last [of "chunks MAX_PACKET_SIZE data" l] length_map [of fst "flag_last (chunks MAX_PACKET_SIZE data) l"]
  by (simp add: slice_plan_def chunks_eq_Nil)

lemma length_slice_plan:
  "length (slice_plan data l) = max 1 ((length data + (MAX_PACKET_SIZE - 1)) div MAX_PACKET_SIZE)"
proof (cases "data = []")
  case False
  have "length (slice_plan data l) = length (chunks MAX_PACKET_SIZE data)"
    using False length_map [of fst "slice_plan data l"] by (simp add: map_fst_slice_plan)
  moreover have "0 < length (chunks MAX_PACKET_SIZE data)"
    using False by (simp add: chunks_eq_Nil)
  ultimately show ?thesis
    unfolding length_chunks [OF MAX_PACKET_SIZE_pos] by linarith
qed (simp add: slice_plan_def size_defs)

text \<open>C22: Segmentation of a slice. Whatever the state of the connection and of the libraries,
  \<open>send_slice\<close> does exactly what sending a sequence of packets one after the other does, up to the first
  error: their payloads concatenated are the slice, each fits into a packet, all but the last one are
  flagged as not final and the last one carries the caller's flag, and there are as few of them as
  possible, one for an empty slice.\<close>

theorem slice_segmented:
  "\<exists>plan. send_slice sw tp s data l = send_plan sw tp s plan
     \<and> concat (map fst plan) = data
     \<and> list_all (\<lambda>p. length p \<le> MAX_PACKET_SIZE) (map fst plan)
     \<and> map snd plan = replicate (length plan - 1) False @ [l]
     \<and> length plan = max 1 ((length data + (MAX_PACKET_SIZE - 1)) div MAX_PACKET_SIZE)"
proof (intro exI [of _ "slice_plan data l"] conjI)
  show "list_all (\<lambda>p. length p \<le> MAX_PACKET_SIZE) (map fst (slice_plan data l))"
    by (auto simp: list_all_iff slice_plan_fits)
qed (rule send_slice_plan slice_plan_concat map_snd_slice_plan length_slice_plan)+

section \<open>Draining a reader\<close>

lemma drain_plan_step:
  "MAX_PACKET_SIZE \<le> length xs \<Longrightarrow>
   drain_plan xs = (take MAX_PACKET_SIZE xs, False) # drain_plan (drop MAX_PACKET_SIZE xs)"
  by (subst drain_plan.simps) simp

lemma drain_plan_Nil [simp]: "drain_plan [] = []"
  by (subst drain_plan.simps) (simp add: size_defs)

lemma full_plan_step:
  "MAX_PACKET_SIZE \<le> length xs \<Longrightarrow>
   full_plan xs = (take MAX_PACKET_SIZE xs, False) # full_plan (drop MAX_PACKET_SIZE xs)"
  by (subst full_plan.simps) simp

lemma full_plan_short: "length xs < MAX_PACKET_SIZE \<Longrightarrow> full_plan xs = []"
  by (subst full_plan.simps) simp

lemma drain_plan_short: "xs \<noteq> [] \<Longrightarrow> length xs < MAX_PACKET_SIZE \<Longrightarrow> drain_plan xs = [(xs, True)]"
  by (subst drain_plan.simps) simp

lemma drain_plan_slice_plan:
  "\<not> MAX_PACKET_SIZE dvd length xs \<Longrightarrow> drain_plan xs = slice_plan xs True"
proof (induction "length xs" arbitrary: xs rule: less_induct)
  case less
  have ne: "xs \<noteq> []" using less.prems by auto
  show ?case
  proof (cases "length xs < MAX_PACKET_SIZE")
    case True
    with ne show ?thesis by (simp add: drain_plan_short slice_plan_def chunks_short)
  next
    case False
    let ?ys = "drop MAX_PACKET_SIZE xs"
    have nd: "\<not> MAX_PACKET_SIZE dvd length ?ys" and shorter: "length ?ys < length xs"
      using False less.prems ne by (auto simp: dvd_minus_self)
    have ys: "?ys \<noteq> []" using nd by auto
    from less.hyps [OF shorter nd] have "drain_plan ?ys = slice_plan ?ys True" .
    with False ne ys show ?thesis
      by (simp add: drain_plan_step slice_plan_def chunks_step [of _ xs] chunks_eq_Nil)
  qed
qed

lemma drain_plan_multiple:
  "MAX_PACKET_SIZE dvd length xs \<Longrightarrow> drain_plan xs = map (\<lambda>c. (c, False)) (chunks MAX_PACKET_SIZE xs)"
proof (induction "length xs" arbitrary: xs rule: less_induct)
  case less
  show ?case
  proof (cases "xs = []")
    case True
    then show ?thesis by simp
  next
    case False
    with less.prems have le: "MAX_PACKET_SIZE \<le> length xs" by (simp add: dvd_imp_le)
    with False less.prems less.hyps [of "drop MAX_PACKET_SIZE xs"] show ?thesis
      by (simp add: drain_plan_step chunks_step)
  qed
qed

text \<open>The loop from an arbitrary point: \<open>take filled buf\<close> has been read and not sent.\<close>

definition send_reader_from where
  "send_reader_from sw tp rr s reader buf filled sent_any =
     (case send_reader_loop sw tp rr s reader buf filled sent_any of
        None \<Rightarrow> None
      | Some (Err e, s, reader) \<Rightarrow> Some ((Err e, s), reader)
      | Some (Ok (buf, filled, sent_any), s, reader) \<Rightarrow>
          if filled > 0 then Some (send_packet sw tp s (take filled buf) True, reader)
          else if \<not> sent_any then Some (send_packet sw tp s [] True, reader)
          else Some ((Ok (), s), reader))"

lemma send_reader_from_start:
  "send_reader sw tp rr s reader = send_reader_from sw tp rr s reader (replicate MAX_PACKET_SIZE 0) 0 False"
  by (simp add: send_reader_def send_reader_from_def)

lemma send_reader_from_flush:
  assumes "filled = MAX_PACKET_SIZE"
  shows "send_reader_from sw tp rr s reader buf filled sent_any =
     (case send_packet sw tp s (take filled buf) False of
        (Err e, s) \<Rightarrow> Some ((Err e, s), reader)
      | (Ok _, s) \<Rightarrow> send_reader_from sw tp rr s reader buf 0 sent_any)"
  using assms unfolding send_reader_from_def
  by (subst send_reader_loop.simps, subst (2) send_reader_loop.simps)
    (simp add: size_defs split: prod.splits result.splits)

lemma send_reader_from_fail:
  assumes "filled < MAX_PACKET_SIZE" "rr reader (drop filled buf) = (Err e, tail, reader')"
  shows "send_reader_from sw tp rr s reader buf filled sent_any = Some ((Err (Io e), s), reader')"
  using assms unfolding send_reader_from_def
  by (subst send_reader_loop.simps) simp

lemma send_reader_from_read:
  assumes "filled < MAX_PACKET_SIZE" "rr reader (drop filled buf) = (Ok n, tail, reader')"
  shows "send_reader_from sw tp rr s reader buf filled sent_any =
     (if n = 0 then
        if filled > 0 then Some (send_packet sw tp s (take filled (take filled buf @ tail)) True, reader')
        else if \<not> sent_any then Some (send_packet sw tp s [] True, reader')
        else Some ((Ok (), s), reader')
      else send_reader_from sw tp rr s reader' (take filled buf @ tail) (filled + n) True)"
  using assms unfolding send_reader_from_def
  by (subst send_reader_loop.simps) simp

definition rest_plan :: "bool \<Rightarrow> bytes \<Rightarrow> (bytes \<times> bool) list" where
  "rest_plan sent_any xs = (if xs = [] \<and> \<not> sent_any then [([], True)] else drain_plan xs)"

text \<open>What has been sent when the source has yielded all of \<open>xs\<close> and then \<open>fin\<close>.\<close>

fun ending :: "'w stream_writer \<Rightarrow> 't transport_lib \<Rightarrow> (nat, io_error) result \<Rightarrow> bool \<Rightarrow> 't \<times> 'w PacketTx
    \<Rightarrow> bytes \<Rightarrow> (unit, ConnectionError) result \<times> 't \<times> 'w PacketTx" where
  "ending sw tp (Ok _) sent_any s xs = send_plan sw tp s (rest_plan sent_any xs)"
| "ending sw tp (Err e) sent_any s xs =
     (case send_plan sw tp s (full_plan xs) of
        (Err e', s) \<Rightarrow> (Err e', s)
      | (Ok _, s) \<Rightarrow> (Err (Io e), s))"

lemma ending_flush:
  assumes "MAX_PACKET_SIZE \<le> length xs" sent_any
  shows "ending sw tp fin sent_any s xs =
    (case send_packet sw tp s (take MAX_PACKET_SIZE xs) False of
       (Err e, s) \<Rightarrow> (Err e, s)
     | (Ok _, s) \<Rightarrow> ending sw tp fin sent_any s (drop MAX_PACKET_SIZE xs))"
proof -
  have "xs \<noteq> []" using assms(1) by (auto simp: size_defs)
  with assms show ?thesis
    by (cases fin) (auto simp: rest_plan_def drain_plan_step full_plan_step send_plan_Cons
        split: prod.splits result.splits)
qed

text \<open>\<open>drains rr fin reader data\<close>: wherever the loop stands, it finishes and has sent the plan of what
  was buffered followed by \<open>data\<close>.\<close>

definition drains where
  "drains sw tp rr fin reader data \<longleftrightarrow>
     (\<forall>buf filled sent_any s. length buf = MAX_PACKET_SIZE \<longrightarrow> filled \<le> MAX_PACKET_SIZE \<longrightarrow>
        (0 < filled \<longrightarrow> sent_any) \<longrightarrow>
        (\<exists>reader'. send_reader_from sw tp rr s reader buf filled sent_any
           = Some (ending sw tp fin sent_any s (take filled buf @ data), reader')))"

text \<open>A full buffer is flushed first, so it is enough to look at a buffer with room.\<close>

lemma drainsI:
  assumes room: "\<And>buf f sent_any s. length buf = MAX_PACKET_SIZE \<Longrightarrow> f < MAX_PACKET_SIZE \<Longrightarrow>
      0 < f \<longrightarrow> sent_any \<Longrightarrow> \<exists>reader'. send_reader_from sw tp rr s reader buf f sent_any
        = Some (ending sw tp fin sent_any s (take f buf @ data), reader')"
  shows "drains sw tp rr fin reader data"
  unfolding drains_def
proof (intro allI impI)
  fix buf :: bytes and filled sent_any s
  assume buf: "length buf = MAX_PACKET_SIZE" and f: "filled \<le> MAX_PACKET_SIZE"
    and any: "0 < filled \<longrightarrow> sent_any"
  show "\<exists>reader'. send_reader_from sw tp rr s reader buf filled sent_any
      = Some (ending sw tp fin sent_any s (take filled buf @ data), reader')"
  proof (cases "filled < MAX_PACKET_SIZE")
    case True
    with room buf any show ?thesis by blast
  next
    case False
    with f any have full: "filled = MAX_PACKET_SIZE" and sent_any by (auto simp: size_defs)
    with buf have "ending sw tp fin sent_any s (take filled buf @ data) =
        (case send_packet sw tp s (take filled buf) False of
           (Err e, s) \<Rightarrow> (Err e, s) | (Ok _, s) \<Rightarrow> ending sw tp fin sent_any s data)"
      by (subst ending_flush) (simp_all cong: prod.case_cong result.case_cong)
    with room [OF buf, of 0] \<open>sent_any\<close> show ?thesis
      by (auto simp: send_reader_from_flush [OF full] split: prod.splits result.splits)
  qed
qed

lemma drains_end:
  assumes eof: "\<And>buf. buf \<noteq> [] \<Longrightarrow> \<exists>buf' rd'. rr reader buf = (fin, buf', rd') \<and> length buf' = length buf"
    and fin: "\<And>n. fin = Ok n \<Longrightarrow> n = 0"
  shows "drains sw tp rr fin reader []"
proof (rule drainsI)
  fix buf :: bytes and f sent_any s
  assume buf: "length buf = MAX_PACKET_SIZE" and f: "f < MAX_PACKET_SIZE" and any: "0 < f \<longrightarrow> sent_any"
  then have "drop f buf \<noteq> []" "buf \<noteq> []" by auto
  from eof [OF this(1)] obtain tail reader' where
    rd: "rr reader (drop f buf) = (fin, tail, reader')" by blast
  show "\<exists>reader'. send_reader_from sw tp rr s reader buf f sent_any
      = Some (ending sw tp fin sent_any s (take f buf @ []), reader')"
  proof (cases fin)
    case (Err e)
    with buf f rd show ?thesis by (simp add: send_reader_from_fail full_plan_short)
  next
    case (Ok n)
    with fin rd have rd0: "rr reader (drop f buf) = (Ok 0, tail, reader')" by simp
    have "drain_plan (take f buf) = (if f = 0 then [] else [(take f buf, True)])"
      using buf f \<open>buf \<noteq> []\<close> by (simp add: drain_plan_short)
    with buf f any \<open>buf \<noteq> []\<close> Ok show ?thesis
      by (auto simp: rest_plan_def
          send_reader_from_read [where rr = rr and reader = reader and buf = buf, OF f rd0])
  qed
qed

lemma drains_more:
  assumes "data \<noteq> []"
    and chunk: "\<And>buf. buf \<noteq> [] \<Longrightarrow> \<exists>n buf' rd'. rr reader buf = (Ok n, buf', rd') \<and> 0 < n
       \<and> n \<le> length buf \<and> length buf' = length buf \<and> take n buf' = take n data
       \<and> drains sw tp rr fin rd' (drop n data)"
  shows "drains sw tp rr fin reader data"
proof (rule drainsI)
  fix buf :: bytes and f sent_any s
  assume buf: "length buf = MAX_PACKET_SIZE" and f: "f < MAX_PACKET_SIZE"
  then have "drop f buf \<noteq> []" by simp
  from chunk [OF this] obtain n tail reader' where
    rd: "rr reader (drop f buf) = (Ok n, tail, reader')" and n: "0 < n" "n \<le> length (drop f buf)"
    and tail: "length tail = length (drop f buf)" "take n tail = take n data"
    and IH: "drains sw tp rr fin reader' (drop n data)" by blast
  let ?buf = "take f buf @ tail"
  have "length ?buf = MAX_PACKET_SIZE" "f + n \<le> MAX_PACKET_SIZE"
    using buf f n tail by simp_all
  with IH have "\<exists>reader''. send_reader_from sw tp rr s reader' ?buf (f + n) True
      = Some (ending sw tp fin True s (take (f + n) ?buf @ drop n data), reader'')"
    unfolding drains_def by blast
  moreover have "take (f + n) ?buf @ drop n data = take f buf @ data"
    using buf f tail(2) by simp
  moreover have "ending sw tp fin sent_any s (take f buf @ data) = ending sw tp fin True s (take f buf @ data)"
    using assms(1) by (cases fin) (simp_all add: rest_plan_def)
  ultimately show "\<exists>reader'. send_reader_from sw tp rr s reader buf f sent_any
      = Some (ending sw tp fin sent_any s (take f buf @ data), reader')"
    using n by (simp add: send_reader_from_read [where rr = rr and reader = reader and buf = buf, OF f rd])
qed

lemma yields_drains:
  assumes "yields rr fin reader data" "\<And>n. fin = Ok n \<Longrightarrow> n = 0"
  shows "drains sw tp rr fin reader data"
  using assms(1)
proof (induction rule: yields.induct)
  case (at_end reader)
  then show ?case using assms(2) by (rule drains_end)
next
  case (more data reader)
  show ?case by (rule drains_more [OF more.hyps]) (use more.IH in blast)
qed

lemma send_reader_ending:
  assumes "yields rr fin reader data" "\<And>n. fin = Ok n \<Longrightarrow> n = 0"
  shows "\<exists>reader'. send_reader sw tp rr s reader = Some (ending sw tp fin False s data, reader')"
proof -
  let ?buf = "replicate MAX_PACKET_SIZE 0 :: bytes"
  from yields_drains [OF assms] have
    "\<exists>reader'. send_reader_from sw tp rr s reader ?buf 0 False
      = Some (ending sw tp fin False s (take 0 ?buf @ data), reader')"
    unfolding drains_def by (metis length_replicate less_irrefl le0)
  then show ?thesis by (simp add: send_reader_from_start)
qed

text \<open>A source that ends: \<open>send_reader\<close> returns and has sent \<open>reader_plan\<close>.\<close>

lemma send_reader_plan:
  assumes "delivers rr reader data"
  shows "\<exists>reader'. send_reader sw tp rr s reader = Some (send_plan sw tp s (reader_plan data), reader')"
  using send_reader_ending [OF assms, of sw tp s] by (simp add: rest_plan_def reader_plan_def del: send_plan_single)

text \<open>A source that fails: the full packets have been sent, and the error of the source is reported.\<close>

lemma send_reader_fails:
  assumes "fails_after rr e reader data"
  shows "\<exists>reader'. send_reader sw tp rr s reader =
    Some ((case send_plan sw tp s (full_plan data) of
             (Err e', s) \<Rightarrow> (Err e', s) | (Ok _, s) \<Rightarrow> (Err (Io e), s)), reader')"
  using send_reader_ending [OF assms] by simp

lemma full_plan_flags: "\<exists>cs. full_plan data = map (\<lambda>c. (c, False)) cs \<and> (cs = [] \<longleftrightarrow> length data < MAX_PACKET_SIZE)
    \<and> (\<forall>c \<in> set cs. length c = MAX_PACKET_SIZE)"
proof (induction data rule: full_plan.induct)
  case (1 xs)
  show ?case
  proof (cases "MAX_PACKET_SIZE \<le> length xs")
    case True
    with 1 obtain cs where "full_plan (drop MAX_PACKET_SIZE xs) = map (\<lambda>c. (c, False)) cs"
      "\<forall>c \<in> set cs. length c = MAX_PACKET_SIZE" by blast
    with True show ?thesis
      by (intro exI [of _ "take MAX_PACKET_SIZE xs # cs"]) (simp add: full_plan_step)
  qed (simp add: full_plan_short)
qed

end
