(* ===== verification/Wire.thy ===== *)
theory Wire
  imports Send_Plan
begin

text \<open>
  What arrives at the other end. The hypotheses about Tokio and \<open>snow\<close> are three named contracts:
  \<^item> \<open>read_laws\<close>: the read half yields the bytes in \<open>pending\<close>, in order;
  \<^item> \<open>write_laws\<close>: a successful write appends to \<open>written\<close> (\<open>write_live\<close>: writes succeed);
  \<^item> \<open>cipher_laws\<close>: a message sealed by one side opens at the other, once and in order, with a
    16-byte tag; oversized messages are refused; the two directions do not disturb each other.
    \<open>sync n ts tr\<close> says that \<open>tr\<close> expects what \<open>ts\<close> seals next and that at least \<open>n\<close> more
    nonces are left.

  A run of the sending half is described by \<open>sent\<close>, what a receiving half is about to read by
  \<open>incoming\<close>; \<open>sent_incoming\<close> joins the two ends. The locale \<open>packet_source\<close> is the interface of
  the message layer with the receiving half; it is interpreted on \<open>read_packet\<close> and \<open>payload\<close>.
\<close>

section \<open>Contracts of the libraries\<close>

definition read_laws :: "'r stream_reader \<Rightarrow> ('r \<Rightarrow> bytes) \<Rightarrow> bool" where
  "read_laws sr pending \<longleftrightarrow>
     (\<forall>r b0 b1 rest. pending r = b0 # b1 # rest \<longrightarrow>
        (\<exists>r'. sr_read_u16 sr r = (Ok (u16_from_be_bytes b0 b1), r') \<and> pending r' = rest))
   \<and> (\<forall>r buf. length buf \<le> length (pending r) \<longrightarrow>
        (\<exists>r'. sr_read_exact sr r buf = (Ok (), take (length buf) (pending r), r')
           \<and> pending r' = drop (length buf) (pending r)))"

definition write_laws :: "'w stream_writer \<Rightarrow> ('w \<Rightarrow> bytes) \<Rightarrow> bool" where
  "write_laws sw written \<longleftrightarrow>
     (\<forall>w bs w'. sw_write_all sw w bs = (Ok (), w') \<longrightarrow> written w' = written w @ bs)
   \<and> (\<forall>w w'. sw_flush sw w = (Ok (), w') \<longrightarrow> written w' = written w)"

definition write_live :: "'w stream_writer \<Rightarrow> bool" where
  "write_live sw \<longleftrightarrow>
     (\<forall>w bs. \<exists>w'. sw_write_all sw w bs = (Ok (), w')) \<and> (\<forall>w. \<exists>w'. sw_flush sw w = (Ok (), w'))"

text \<open>The ciphertext \<open>ct\<close> opens at \<open>tr\<close> to \<open>plain\<close>, whatever buffer it is opened into, and leaves
  the cipher in a state with \<open>Q\<close>; and the same for a sequence of them.\<close>

definition opens :: "'t transport_lib \<Rightarrow> ('t \<Rightarrow> bool) \<Rightarrow> 't \<Rightarrow> bytes \<Rightarrow> bytes \<Rightarrow> bool" where
  "opens tp Q tr ct plain \<longleftrightarrow>
     (\<forall>buf. length ct \<le> length buf \<longrightarrow>
        (\<exists>buf' tr'. ts_read_message tp tr ct buf = (Ok (length plain), buf', tr')
           \<and> length buf' = length buf \<and> take (length plain) buf' = plain \<and> Q tr'))"

primrec opens_all :: "'t transport_lib \<Rightarrow> ('t \<Rightarrow> bool) \<Rightarrow> (bytes \<times> bytes) list \<Rightarrow> 't \<Rightarrow> bool" where
  "opens_all tp Q [] = Q"
| "opens_all tp Q (x # xs) = (\<lambda>tr. opens tp (opens_all tp Q xs) tr (fst x) (snd x))"

definition cipher_laws :: "'t transport_lib \<Rightarrow> (nat \<Rightarrow> 't \<Rightarrow> 't \<Rightarrow> bool) \<Rightarrow> bool" where
  "cipher_laws tp sync \<longleftrightarrow>
     (\<forall>n ts tr plain buf. sync (Suc n) ts tr \<longrightarrow> length plain + 16 \<le> 65535 \<longrightarrow>
        length plain + 16 \<le> length buf \<longrightarrow>
        (\<exists>buf' ts'. ts_write_message tp ts plain buf = (Ok (length plain + 16), buf', ts')
           \<and> length buf' = length buf
           \<and> opens tp (sync n ts') tr (take (length plain + 16) buf') plain))
   \<and> (\<forall>ts plain buf. 65535 < length plain + 16 \<longrightarrow>
        (\<exists>e buf'. ts_write_message tp ts plain buf = (Err e, buf', ts)))
   \<and> (\<forall>n ts tr ct buf. sync n ts tr \<longrightarrow> sync n (snd (snd (ts_read_message tp ts ct buf))) tr)
   \<and> (\<forall>n ts tr plain buf. sync n ts tr \<longrightarrow> sync n ts (snd (snd (ts_write_message tp tr plain buf))))"

lemma opens_mono:
  assumes "opens tp Q tr ct plain" "\<And>t. Q t \<Longrightarrow> Q' t"
  shows "opens tp Q' tr ct plain"
  unfolding opens_def
proof (intro allI impI)
  fix buf :: bytes
  assume "length ct \<le> length buf"
  with assms(1) obtain buf' tr' where "ts_read_message tp tr ct buf = (Ok (length plain), buf', tr')"
    "length buf' = length buf" "take (length plain) buf' = plain" "Q tr'"
    unfolding opens_def by blast
  with assms(2) show "\<exists>buf' tr'. ts_read_message tp tr ct buf = (Ok (length plain), buf', tr')
      \<and> length buf' = length buf \<and> take (length plain) buf' = plain \<and> Q' tr'" by blast
qed

lemma opens_all_mono: "opens_all tp Q xs tr \<Longrightarrow> (\<And>t. Q t \<Longrightarrow> Q' t) \<Longrightarrow> opens_all tp Q' xs tr"
proof (induction xs arbitrary: tr)
  case (Cons x xs)
  then show ?case by (auto elim: opens_mono)
qed simp

lemma opens_all_append: "opens_all tp Q (xs @ ys) = opens_all tp (opens_all tp Q ys) xs"
  by (induction xs) simp_all

lemma opens_all_ends: "opens_all tp Q xs tr \<Longrightarrow> \<exists>tr'. Q tr'"
proof (induction xs arbitrary: tr)
  case (Cons x xs)
  then obtain tr' where "opens_all tp Q xs tr'" by (auto simp: opens_def)
  then show ?case by (rule Cons.IH)
qed auto

section \<open>One packet\<close>

definition frame_of :: "bytes \<Rightarrow> bytes" where
  "frame_of ct = u16_to_be_bytes (of_nat (length ct)) @ ct"

lemma cipher_seal:
  assumes laws: "cipher_laws tp sync" and sy: "sync (Suc n) ts tr0"
    and fits: "length plain + 16 \<le> 65535" "length plain + 16 \<le> length buf"
  obtains buf' ts' where "ts_write_message tp ts plain buf = (Ok (length plain + 16), buf', ts')"
    "length buf' = length buf"
    "\<forall>tr. sync (Suc n) ts tr \<longrightarrow> opens tp (sync n ts') tr (take (length plain + 16) buf') plain"
proof -
  have seal: "\<exists>buf' ts'. ts_write_message tp ts plain buf = (Ok (length plain + 16), buf', ts')
      \<and> length buf' = length buf \<and> opens tp (sync n ts') tr (take (length plain + 16) buf') plain"
    if "sync (Suc n) ts tr" for tr
    using laws that fits unfolding cipher_laws_def by blast
  from seal [OF sy] obtain buf' ts' where
    wr: "ts_write_message tp ts plain buf = (Ok (length plain + 16), buf', ts')" "length buf' = length buf"
    by blast
  show thesis
  proof (rule that [OF wr], intro allI impI)
    fix tr assume "sync (Suc n) ts tr"
    from seal [OF this] wr(1) show "opens tp (sync n ts') tr (take (length plain + 16) buf') plain" by auto
  qed
qed

lemma write_frame_Ok:
  assumes "write_laws sw written" "write_frame sw (ts, tx) fr = (Ok (), ts', tx')"
  shows "ts' = ts \<and> written (tx_write tx') = written (tx_write tx) @ fr
    \<and> tx_packet_builder tx' = tx_packet_builder tx"
  using assms by (auto simp: write_frame_def write_laws_def split: prod.splits result.splits)

lemma write_frame_live:
  assumes "write_live sw"
  shows "fst (write_frame sw s fr) = Ok ()"
proof -
  obtain w1 where "sw_write_all sw (tx_write (snd s)) fr = (Ok (), w1)"
    using assms unfolding write_live_def by blast
  moreover obtain w2 where "sw_flush sw w1 = (Ok (), w2)"
    using assms unfolding write_live_def by blast
  ultimately show ?thesis by (cases s) (simp add: write_frame_def)
qed

lemma encrypt_and_write_seal:
  assumes "cipher_laws tp sync" "sync (Suc n) ts tr0" and fits: "length plain + 16 \<le> 65535"
  obtains ct ts' wb where "length ct = length plain + 16"
    "\<forall>tr. sync (Suc n) ts tr \<longrightarrow> opens tp (sync n ts') tr ct plain"
    "encrypt_and_write sw tp (ts, tx) plain = write_frame sw (ts', tx\<lparr>tx_write_buf := wb\<rparr>) (frame_of ct)"
proof -
  define wb where "wb = (if length (tx_write_buf tx) < FRAME_HEADER_SIZE + (length plain + CIPHER_OVERHEAD_SIZE)
    then vec_resize (tx_write_buf tx) (FRAME_HEADER_SIZE + (length plain + CIPHER_OVERHEAD_SIZE))
    else tx_write_buf tx)"
  have room: "length plain + 16 \<le> length (drop FRAME_HEADER_SIZE wb)"
    by (auto simp: wb_def FRAME_HEADER_SIZE_def CIPHER_OVERHEAD_SIZE_def)
  obtain sealed t1 where
    wr: "ts_write_message tp ts plain (drop FRAME_HEADER_SIZE wb) = (Ok (length plain + 16), sealed, t1)"
    and len: "length sealed = length (drop FRAME_HEADER_SIZE wb)"
    and op: "\<forall>tr. sync (Suc n) ts tr \<longrightarrow> opens tp (sync n t1) tr (take (length plain + 16) sealed) plain"
    using cipher_seal [OF assms(1,2) fits room] by metis
  let ?ct = "take (length plain + 16) sealed"
  let ?wb = "u16_to_be_bytes (of_nat (length plain + 16)) @ sealed"
  have ct: "length ?ct = length plain + 16" using len room by simp
  have frame: "take (FRAME_HEADER_SIZE + (length plain + 16)) ?wb = frame_of ?ct"
    using ct by (simp add: frame_of_def FRAME_HEADER_SIZE_def add.commute)
  have "encrypt_and_write sw tp (ts, tx) plain = write_frame sw (t1, tx\<lparr>tx_write_buf := ?wb\<rparr>) (frame_of ?ct)"
    unfolding encrypt_and_write_def Let_def prod.case wb_def [symmetric] wr result.case frame ..
  from that [OF ct op this] show thesis .
qed

text \<open>What a run of the sending half has put on the wire: \<open>raws\<close>, each sealed and framed, which a
  receiver that was in step at the start can open in order.\<close>

definition sent :: "'t transport_lib \<Rightarrow> (nat \<Rightarrow> 't \<Rightarrow> 't \<Rightarrow> bool) \<Rightarrow> ('w \<Rightarrow> bytes) \<Rightarrow> nat
    \<Rightarrow> 't \<times> 'w PacketTx \<Rightarrow> bytes list \<Rightarrow> 't \<times> 'w PacketTx \<Rightarrow> bool" where
  "sent tp sync written n s raws s' \<longleftrightarrow>
     (\<exists>cts. length cts = length raws \<and> (\<forall>ct \<in> set cts. length ct \<le> 65535)
        \<and> written (tx_write (snd s')) = written (tx_write (snd s)) @ concat (map frame_of cts)
        \<and> (\<forall>tr. sync (length raws + n) (fst s) tr \<longrightarrow> opens_all tp (sync n (fst s')) (zip cts raws) tr))"

lemma sent_nothing: "written (tx_write tx') = written (tx_write tx) \<Longrightarrow> sent tp sync written n (ts, tx) [] (ts, tx')"
  by (simp add: sent_def)

lemma sent_append:
  assumes "sent tp sync written (length raws' + n) s raws s1" "sent tp sync written n s1 raws' s'"
  shows "sent tp sync written n s (raws @ raws') s'"
proof -
  from assms(1) obtain cts where c: "length cts = length raws" "\<forall>ct \<in> set cts. length ct \<le> 65535"
    "written (tx_write (snd s1)) = written (tx_write (snd s)) @ concat (map frame_of cts)"
    "\<And>tr. sync (length raws + (length raws' + n)) (fst s) tr \<Longrightarrow>
       opens_all tp (sync (length raws' + n) (fst s1)) (zip cts raws) tr"
    unfolding sent_def by blast
  from assms(2) obtain cts' where c': "length cts' = length raws'" "\<forall>ct \<in> set cts'. length ct \<le> 65535"
    "written (tx_write (snd s')) = written (tx_write (snd s1)) @ concat (map frame_of cts')"
    "\<And>tr. sync (length raws' + n) (fst s1) tr \<Longrightarrow> opens_all tp (sync n (fst s')) (zip cts' raws') tr"
    unfolding sent_def by blast
  have op: "opens_all tp (sync n (fst s')) (zip (cts @ cts') (raws @ raws')) tr"
    if "sync (length (raws @ raws') + n) (fst s) tr" for tr
  proof -
    have "opens_all tp (sync (length raws' + n) (fst s1)) (zip cts raws) tr"
      using that by (intro c(4)) (simp add: add.assoc)
    then have "opens_all tp (opens_all tp (sync n (fst s')) (zip cts' raws')) (zip cts raws) tr"
      by (rule opens_all_mono) (rule c'(4))
    with c(1) show ?thesis by (simp add: opens_all_append)
  qed
  have "length (cts @ cts') = length (raws @ raws')" "\<forall>ct \<in> set (cts @ cts'). length ct \<le> 65535"
    "written (tx_write (snd s')) = written (tx_write (snd s)) @ concat (map frame_of (cts @ cts'))"
    using c c' by auto
  with op show ?thesis unfolding sent_def by blast
qed

lemma encrypt_and_write_sent:
  assumes "cipher_laws tp sync" "write_laws sw written" "sync (Suc n) ts tr0"
    "length plain + 16 \<le> 65535" and ok: "encrypt_and_write sw tp (ts, tx) plain = (Ok (), s')"
  shows "sent tp sync written n (ts, tx) [plain] s'
    \<and> tx_packet_builder (snd s') = tx_packet_builder tx"
proof -
  obtain ts' tx' where s': "s' = (ts', tx')" by force
  obtain ct ts1 wb where
    ct: "length ct = length plain + 16" "\<forall>tr. sync (Suc n) ts tr \<longrightarrow> opens tp (sync n ts1) tr ct plain"
    and eq: "encrypt_and_write sw tp (ts, tx) plain = write_frame sw (ts1, tx\<lparr>tx_write_buf := wb\<rparr>) (frame_of ct)"
    using encrypt_and_write_seal [OF assms(1,3,4), of sw tx] by metis
  from write_frame_Ok [OF assms(2) ok [unfolded eq s']] ct assms(4) show ?thesis
    by (simp add: s' sent_def exI [of _ "[ct]"])
qed

lemma encrypt_and_write_live:
  assumes "cipher_laws tp sync" "write_live sw" "sync (Suc n) ts tr" "length plain + 16 \<le> 65535"
  shows "fst (encrypt_and_write sw tp (ts, tx) plain) = Ok ()"
proof -
  obtain ct ts1 wb where
    "encrypt_and_write sw tp (ts, tx) plain = write_frame sw (ts1, tx\<lparr>tx_write_buf := wb\<rparr>) (frame_of ct)"
    using encrypt_and_write_seal [OF assms(1,3,4), of sw tx] by metis
  then show ?thesis using write_frame_live [OF assms(2)] by simp
qed

lemma read_frame_frame:
  assumes "read_laws sr pending" "pending r = frame_of ct @ rest" "length ct \<le> 65535"
  shows "\<exists>r'. read_frame sr r buf = (Ok (), ct, r') \<and> pending r' = rest"
proof -
  let ?len = "of_nat (length ct) :: u16"
  have "pending r = ucast (drop_bit 8 ?len) # ucast ?len # ct @ rest"
    using assms(2) by (simp add: frame_of_def u16_to_be_bytes_def)
  with assms(1) obtain r1 where r1: "sr_read_u16 sr r = (Ok ?len, r1)" "pending r1 = ct @ rest"
    unfolding read_laws_def by (metis u16_from_to_be_bytes)
  let ?buf = "vec_resize buf (unat ?len)"
  have "length ?buf = length ct" using assms(3) by simp
  with assms(1) r1(2) obtain r2 where "sr_read_exact sr r1 ?buf = (Ok (), ct, r2)" "pending r2 = rest"
    unfolding read_laws_def by (metis append_eq_conv_conj length_append le_add1)
  with r1(1) show ?thesis by (simp add: read_frame_def)
qed

lemma read_packet_frame:
  assumes "read_laws sr pending" "pending (rx_read rx) = frame_of ct @ rest" "length ct \<le> 65535"
    and op: "opens tp Q tr ct plain"
    and rd: "read (rx_packet_reader rx) plain = (res, pr)"
  shows "\<exists>tr' rx'. read_packet sr tp (tr, rx) = (map_err Packet res, tr', rx')
    \<and> rx_packet_reader rx' = pr \<and> pending (rx_read rx') = rest
    \<and> payload rx' = drop 2 plain \<and> Q tr'"
proof -
  from read_frame_frame [OF assms(1-3), of "rx_ciphertext_buf rx"] obtain r' where
    fr: "read_frame sr (rx_read rx) (rx_ciphertext_buf rx) = (Ok (), ct, r')" "pending r' = rest" by blast
  from op obtain buf' tr' where
    ts: "ts_read_message tp tr ct (vec_resize (rx_plaintext_buf rx) (length ct)) = (Ok (length plain), buf', tr')"
      "take (length plain) buf' = plain" "Q tr'"
    unfolding opens_def by (metis length_vec_resize order_refl)
  let ?rx = "rx\<lparr>rx_read := r', rx_ciphertext_buf := ct, rx_plaintext_buf := buf',
      rx_payload_end := length plain, rx_packet_reader := pr\<rparr>"
  have "payload ?rx = drop 2 plain" using ts(2) by (simp add: payload_def)
  moreover have "read_packet sr tp (tr, rx) = (map_err Packet res, tr', ?rx)"
    using fr(1) ts rd by (cases res) (simp_all add: read_packet_def)
  ultimately show ?thesis using fr(2) ts(3) by (intro exI [of _ tr'] exI [of _ ?rx]) simp
qed

section \<open>A sequence of packets\<close>

definition room_for :: "(bytes \<times> bool) list \<Rightarrow> bool" where
  "room_for plan \<longleftrightarrow> (\<forall>p \<in> fst ` set plan. length p \<le> MAX_PACKET_SIZE)"

lemma room_for_Nil [simp]: "room_for []"
  and room_for_Cons [simp]: "room_for ((p, l) # plan) \<longleftrightarrow> length p \<le> MAX_PACKET_SIZE \<and> room_for plan"
  by (simp_all add: room_for_def)

lemma pack_length: "pack b p l = (Ok raw, b') \<Longrightarrow> length raw = length p + 2"
  by (auto simp: pack_def Let_def split: if_splits)

lemma pack_fits: "pack b p l = (Ok raw, b') \<Longrightarrow> length p \<le> MAX_PACKET_SIZE \<Longrightarrow> length raw + 16 \<le> 65535"
  by (simp add: pack_length size_defs)

lemma send_packet_sent:
  assumes "cipher_laws tp sync" "write_laws sw written" "sync (Suc n) ts tr0" "length p \<le> MAX_PACKET_SIZE"
    and pk: "pack (tx_packet_builder tx) p l = (Ok raw, b')"
    and ok: "send_packet sw tp (ts, tx) p l = (Ok (), s')"
  shows "sent tp sync written n (ts, tx) [raw] s' \<and> tx_packet_builder (snd s') = b'"
proof -
  have "encrypt_and_write sw tp (ts, tx\<lparr>tx_packet_builder := b'\<rparr>) raw = (Ok (), s')"
    using ok pk by (simp add: send_packet_def)
  from encrypt_and_write_sent [OF assms(1-3) pack_fits [OF pk assms(4)] this] show ?thesis
    by (simp add: sent_def)
qed

lemma send_packet_live:
  assumes "cipher_laws tp sync" "write_live sw" "sync (Suc n) ts tr" "length p \<le> MAX_PACKET_SIZE"
    and pk: "pack (tx_packet_builder tx) p l = (Ok raw, b')"
  shows "fst (send_packet sw tp (ts, tx) p l) = Ok ()"
  using pk encrypt_and_write_live [OF assms(1-3) pack_fits [OF pk assms(4)]] by (simp add: send_packet_def)

lemma sent_ready: "sent tp sync written n s raws s' \<Longrightarrow> sync (length raws + n) (fst s) tr \<Longrightarrow> \<exists>tr'. sync n (fst s') tr'"
  unfolding sent_def by (blast dest: opens_all_ends)

lemma send_plan_sent:
  assumes "cipher_laws tp sync" "write_laws sw written"
  shows "room_for plan \<Longrightarrow> sync (length plan + n) ts tr0 \<Longrightarrow>
    pack_all pack (tx_packet_builder tx) plan = (Ok raws, b') \<Longrightarrow>
    send_plan sw tp (ts, tx) plan = (Ok (), s') \<Longrightarrow>
    length raws = length plan \<and> sent tp sync written n (ts, tx) raws s' \<and> tx_packet_builder (snd s') = b'"
proof (induction plan arbitrary: ts tx tr0 raws)
  case Nil
  then show ?case by (auto simp: sent_nothing)
next
  case (Cons piece plan)
  obtain p l where piece: "piece = (p, l)" by force
  from Cons.prems(3) obtain raw raws1 b1 where
    pk: "pack (tx_packet_builder tx) p l = (Ok raw, b1)"
    and pks: "pack_all pack b1 plan = (Ok raws1, b')" and raws: "raws = raw # raws1"
    by (auto simp: piece split: prod.splits result.splits)
  from Cons.prems(4) obtain ts1 tx1 where
    ok: "send_packet sw tp (ts, tx) p l = (Ok (), ts1, tx1)"
    and oks: "send_plan sw tp (ts1, tx1) plan = (Ok (), s')"
    by (auto simp: piece send_plan_Cons split: prod.splits result.splits)
  have fits: "length p \<le> MAX_PACKET_SIZE" "room_for plan" using Cons.prems(1) piece by simp_all
  have sy: "sync (Suc (length plan + n)) ts tr0" using Cons.prems(2) by simp
  from send_packet_sent [OF assms sy fits(1) pk ok] have
    one: "sent tp sync written (length plan + n) (ts, tx) [raw] (ts1, tx1)" "tx_packet_builder tx1 = b1"
    by simp_all
  from sent_ready [OF one(1)] sy obtain tr1 where "sync (length plan + n) ts1 tr1" by auto
  from Cons.IH [OF fits(2) this pks [folded one(2)] oks] have
    rest: "length raws1 = length plan" "sent tp sync written n (ts1, tx1) raws1 s'"
      "tx_packet_builder (snd s') = b'" by simp_all
  from sent_append [of tp sync written raws1 n "(ts, tx)" "[raw]"] one(1) rest show ?case
    by (simp add: raws)
qed

lemma send_plan_live:
  assumes "cipher_laws tp sync" "write_laws sw written" "write_live sw"
  shows "room_for plan \<Longrightarrow> sync (length plan + n) ts tr0 \<Longrightarrow>
    pack_all pack (tx_packet_builder tx) plan = (Ok raws, b') \<Longrightarrow>
    fst (send_plan sw tp (ts, tx) plan) = Ok ()"
proof (induction plan arbitrary: ts tx tr0 raws)
  case Nil
  then show ?case by simp
next
  case (Cons piece plan)
  obtain p l where piece: "piece = (p, l)" by force
  from Cons.prems(3) obtain raw raws1 b1 where
    pk: "pack (tx_packet_builder tx) p l = (Ok raw, b1)"
    and pks: "pack_all pack b1 plan = (Ok raws1, b')"
    by (auto simp: piece split: prod.splits result.splits)
  have fits: "length p \<le> MAX_PACKET_SIZE" "room_for plan" using Cons.prems(1) piece by simp_all
  have sy: "sync (Suc (length plan + n)) ts tr0" using Cons.prems(2) by simp
  obtain ts1 tx1 where ok: "send_packet sw tp (ts, tx) p l = (Ok (), ts1, tx1)"
    using send_packet_live [OF assms(1,3) sy fits(1) pk] by (metis prod.collapse)
  from send_packet_sent [OF assms(1,2) sy fits(1) pk ok] have
    one: "sent tp sync written (length plan + n) (ts, tx) [raw] (ts1, tx1)" "tx_packet_builder tx1 = b1"
    by simp_all
  from sent_ready [OF one(1)] sy obtain tr1 where "sync (length plan + n) ts1 tr1" by auto
  from Cons.IH [OF fits(2) this pks [folded one(2)]] show ?case
    by (simp add: piece send_plan_Cons ok)
qed

section \<open>The receiving end\<close>

text \<open>The packets that a receiving half is about to read: sealed and framed in its stream, followed
  by the bytes \<open>rest\<close>. After them the reader is in state \<open>pr'\<close> and the cipher satisfies \<open>Q\<close>.\<close>

definition incoming :: "'r stream_reader \<Rightarrow> ('r \<Rightarrow> bytes) \<Rightarrow> 't transport_lib \<Rightarrow> ('t \<Rightarrow> bool) \<Rightarrow> PacketReader
    \<Rightarrow> bytes \<Rightarrow> 't \<times> 'r PacketRx \<Rightarrow> (PacketHeader \<times> bytes) list \<Rightarrow> bool" where
  "incoming sr pending tp Q pr' rest s pkts \<longleftrightarrow> read_laws sr pending
   \<and> (\<exists>cts raws. length cts = length raws \<and> (\<forall>ct \<in> set cts. length ct \<le> 65535)
        \<and> pending (rx_read (snd s)) = concat (map frame_of cts) @ rest
        \<and> opens_all tp Q (zip cts raws) (fst s)
        \<and> read_all read (rx_packet_reader (snd s)) raws = (Ok (map fst pkts), pr')
        \<and> map (drop 2) raws = map snd pkts)"

text \<open>What was sent is what is incoming once its bytes have been carried to the receiver.\<close>

lemma sent_incoming:
  assumes "read_laws sr pending" "sent tp sync written n s raws s'" "sync (length raws + n) (fst s) tr"
    and net: "written (tx_write (snd s)) @ pending (rx_read rx) = written (tx_write (snd s')) @ rest"
    and rd: "read_all read (rx_packet_reader rx) raws = (Ok (map fst pkts), pr')"
    and pl: "map (drop 2) raws = map snd pkts"
  shows "incoming sr pending tp (sync n (fst s')) pr' rest (tr, rx) pkts"
proof -
  from assms(2,3) obtain cts where "length cts = length raws" "\<forall>ct \<in> set cts. length ct \<le> 65535"
    "written (tx_write (snd s')) = written (tx_write (snd s)) @ concat (map frame_of cts)"
    "opens_all tp (sync n (fst s')) (zip cts raws) tr"
    unfolding sent_def by blast
  with assms(1) net rd pl show ?thesis unfolding incoming_def
    by (intro conjI exI [of _ cts] exI [of _ raws]) simp_all
qed

lemma incoming_Nil:
  "incoming sr pending tp Q pr' rest s [] \<Longrightarrow>
   Q (fst s) \<and> pending (rx_read (snd s)) = rest \<and> rx_packet_reader (snd s) = pr'"
  by (auto simp: incoming_def)

lemma read_packet_incoming:
  assumes "incoming sr pending tp Q pr' rest s ((h, p) # pkts)"
  shows "\<exists>s'. read_packet sr tp s = (Ok h, s') \<and> payload (snd s') = p
    \<and> incoming sr pending tp Q pr' rest s' pkts"
proof -
  obtain tr rx where s: "s = (tr, rx)" by force
  from assms obtain cts raws where laws: "read_laws sr pending" and
    c: "length cts = length raws" "\<forall>ct \<in> set cts. length ct \<le> 65535"
      "pending (rx_read rx) = concat (map frame_of cts) @ rest"
      "opens_all tp Q (zip cts raws) tr"
      "read_all read (rx_packet_reader rx) raws = (Ok (h # map fst pkts), pr')"
      "map (drop 2) raws = p # map snd pkts"
    unfolding incoming_def s list.map fst_conv snd_conv by (elim conjE exE) (rule that)
  from c(6) obtain raw raws1 where raws: "raws = raw # raws1" "drop 2 raw = p" "map (drop 2) raws1 = map snd pkts"
    by (cases raws) auto
  with c(1) obtain ct cts1 where cts: "cts = ct # cts1" "length cts1 = length raws1" by (cases cts) auto
  from c(5) obtain pr1 where pr1: "read (rx_packet_reader rx) raw = (Ok h, pr1)"
    "read_all read pr1 raws1 = (Ok (map fst pkts), pr')"
    by (auto simp: raws split: prod.splits result.splits)
  have pend: "pending (rx_read rx) = frame_of ct @ (concat (map frame_of cts1) @ rest)"
    using c(3) cts by simp
  have len: "length ct \<le> 65535" using c(2) cts by simp
  have op: "opens tp (opens_all tp Q (zip cts1 raws1)) tr ct raw" using c(4) by (simp add: cts raws)
  from read_packet_frame [OF laws pend len op pr1(1)] obtain tr' rx' where
    "read_packet sr tp (tr, rx) = (Ok h, tr', rx')" "rx_packet_reader rx' = pr1"
    "pending (rx_read rx') = concat (map frame_of cts1) @ rest" "payload rx' = drop 2 raw"
    "opens_all tp Q (zip cts1 raws1) tr'" by auto
  with laws c(2) cts raws pr1 show ?thesis
    unfolding s incoming_def
    by (intro exI [of _ "(tr', rx')"] conjI exI [of _ cts1] exI [of _ raws1]) simp_all
qed

text \<open>The interface of the message layer with the receiving half: packets come one at a time, in
  order, each with its header and its payload.\<close>

locale packet_source =
  fixes read_packet :: "'s \<Rightarrow> (PacketHeader, ConnectionError) result \<times> 's"
    and payload :: "'s \<Rightarrow> bytes"
    and incoming :: "'s \<Rightarrow> (PacketHeader \<times> bytes) list \<Rightarrow> bool"
  assumes read_step: "incoming s ((h, p) # pkts) \<Longrightarrow>
    \<exists>s'. read_packet s = (Ok h, s') \<and> payload s' = p \<and> incoming s' pkts"

interpretation src: packet_source "read_packet sr tp" "\<lambda>s. payload (snd s)" "incoming sr pending tp Q pr' rest"
  for sr :: "'r stream_reader" and pending tp Q pr' rest
  by unfold_locales (rule read_packet_incoming)

end
