(* ===== verification/Loopback.thy ===== *)
theory Loopback
  imports Wire
begin

text \<open>
  An executable instance of the library contracts: streams that are byte lists, a source that
  yields its data in pieces of a given size, and a cipher that appends a 16-byte tag naming its
  nonce and accepts only the tag it expects. It offers no secrecy; it shows that the contracts
  \<open>read_laws\<close>, \<open>write_laws\<close>, \<open>write_live\<close>, \<open>cipher_laws\<close> and \<open>yields\<close> can be met together,
  and the concrete runs of the development are evaluated on it.
\<close>

section \<open>Streams\<close>

definition list_reader :: "bytes stream_reader" where
  "list_reader =
     \<lparr>sr_read_u16 = (\<lambda>bs. case bs of
          b0 # b1 # rest \<Rightarrow> (Ok (u16_from_be_bytes b0 b1), rest)
        | _ \<Rightarrow> (Err ''early eof'', [])),
      sr_read_exact = (\<lambda>bs buf.
        if length buf \<le> length bs then (Ok (), take (length buf) bs, drop (length buf) bs)
        else (Err ''early eof'', bs @ drop (length bs) buf, []))\<rparr>"

definition list_writer :: "bytes stream_writer" where
  "list_writer = \<lparr>sw_write_all = (\<lambda>w bs. (Ok (), w @ bs)), sw_flush = (\<lambda>w. (Ok (), w))\<rparr>"

lemma list_reader_laws: "read_laws list_reader id"
  by (simp add: read_laws_def list_reader_def)

lemma list_writer_laws: "write_laws list_writer id" "write_live list_writer"
  by (simp_all add: write_laws_def write_live_def list_writer_def)

text \<open>A source over a byte list, at most \<open>k + 1\<close> bytes per call, that ends with \<open>fin\<close>.\<close>

definition list_source :: "nat \<Rightarrow> (nat, io_error) result \<Rightarrow> bytes source_reader" where
  "list_source k fin rd buf =
     (if rd = [] then (fin, buf, rd)
      else let n = min (Suc k) (min (length rd) (length buf))
           in (Ok n, take n rd @ drop n buf, drop n rd))"

lemma list_source_yields: "yields (list_source k fin) fin data data"
proof (induction "length data" arbitrary: data rule: less_induct)
  case less
  show ?case
  proof (cases "data = []")
    case True
    then show ?thesis by (auto intro!: yields.at_end simp: list_source_def)
  next
    case False
    show ?thesis
    proof (rule yields.more [OF False])
      fix buf :: bytes assume "buf \<noteq> []"
      define n where "n = min (Suc k) (min (length data) (length buf))"
      have "0 < n" "n \<le> length data" "n \<le> length buf" using False \<open>buf \<noteq> []\<close> by (auto simp: n_def)
      moreover from this have "yields (list_source k fin) fin (drop n data) (drop n data)"
        by (intro less.hyps) simp
      ultimately show "\<exists>n buf' rd'. list_source k fin data buf = (Ok n, buf', rd') \<and> 0 < n \<and> n \<le> length data
          \<and> n \<le> length buf \<and> length buf' = length buf \<and> take n buf' = take n data
          \<and> yields (list_source k fin) fin rd' (drop n data)"
        using False by (simp add: list_source_def n_def [symmetric] Let_def)
    qed
  qed
qed

section \<open>Cipher\<close>

text \<open>A cipher state is the pair of its next sending and receiving nonces.\<close>

type_synonym tag_state = "nat \<times> nat"

definition tag_of :: "nat \<Rightarrow> bytes" where
  "tag_of n = replicate 16 (of_nat n)"

definition tag_cipher :: "tag_state transport_lib" where
  "tag_cipher =
     \<lparr>ts_write_message = (\<lambda>(i, j) plain buf.
        if 65535 < length plain + 16 \<or> length buf < length plain + 16 then (Err ''input'', buf, (i, j))
        else (Ok (length plain + 16), plain @ tag_of i @ drop (length plain + 16) buf, (Suc i, j))),
      ts_read_message = (\<lambda>(i, j) ct buf.
        if length ct < 16 \<or> length buf < length ct - 16 \<or> drop (length ct - 16) ct \<noteq> tag_of j
        then (Err ''decrypt'', buf, (i, j))
        else (Ok (length ct - 16), take (length ct - 16) ct @ drop (length ct - 16) buf, (i, Suc j)))\<rparr>"

definition tag_sync :: "nat \<Rightarrow> tag_state \<Rightarrow> tag_state \<Rightarrow> bool" where
  "tag_sync n s r \<longleftrightarrow> fst s = snd r"

lemma length_tag_of [simp]: "length (tag_of n) = 16"
  by (simp add: tag_of_def)

lemma tag_cipher_laws: "cipher_laws tag_cipher tag_sync"
  unfolding cipher_laws_def opens_def
  by (auto simp: tag_cipher_def tag_sync_def)

end
