(* ===== verification/Messages.thy ===== *)
theory Messages
  imports Loopback
begin

text \<open>
  Model of \<open>src/messages.rs\<close>: \<open>MessageTx\<close>, \<open>MessageRx\<close>, \<open>Message\<close> and \<open>MessagePackets\<close>.
  A \<open>Message\<close> and a \<open>MessagePackets\<close> borrow the \<open>MessageRx\<close>; here they are records of their own
  fields and every operation takes and returns the borrowed receiver with the shared cipher state.
  The loop of \<open>read_bytes\<close> may never end (\<open>None\<close>), and its \<open>unreachable!\<close> arm is the outcome
  \<open>Panic\<close>.

  The lemmas show that the packets of a message, read in order, give the message back and that an
  abandoned one is reported as \<open>MessageAborted\<close>; that a message taken from an idle receiver never
  reaches the panic; and that \<open>read_bytes\<close> and the packet iterator agree on every stream. The
  sending side and what crosses a whole link are in theory \<open>Delivery\<close>.
\<close>

section \<open>Data\<close>

record 'r MessageRx =
  mr_packets :: "'r PacketRx"
  mr_read_buf :: bytes

record 'w MessageTx =
  mt_packets :: "'w PacketTx"

record Message =
  first_header :: PacketHeader

record MessagePackets =
  mp_done :: bool
  mp_first_kind :: "PacketKind option"

datatype 'a outcome = Return 'a | Panic

section \<open>Operations\<close>

definition message_rx_new :: "'r PacketRx \<Rightarrow> 'r MessageRx" where
  "message_rx_new packets = \<lparr>mr_packets = packets, mr_read_buf = []\<rparr>"

definition message_tx_new :: "'w PacketTx \<Rightarrow> 'w MessageTx" where
  "message_tx_new packets = \<lparr>mt_packets = packets\<rparr>"

definition read_message :: "'r stream_reader \<Rightarrow> 't transport_lib \<Rightarrow> 't \<times> 'r MessageRx
    \<Rightarrow> (Message, ConnectionError) result \<times> 't \<times> 'r MessageRx" where
  "read_message sr tp s =
     (case s of (state, rx) \<Rightarrow>
        (case read_packet sr tp (state, mr_packets rx) of
           (Err e, state, packets) \<Rightarrow> (Err e, state, rx\<lparr>mr_packets := packets\<rparr>)
         | (Ok header, state, packets) \<Rightarrow>
             (Ok \<lparr>first_header = header\<rparr>, state, rx\<lparr>mr_packets := packets\<rparr>)))"

definition send_message :: "'w stream_writer \<Rightarrow> 't transport_lib \<Rightarrow> 't \<times> 'w MessageTx \<Rightarrow> u16 \<Rightarrow> bytes
    \<Rightarrow> (unit, ConnectionError) result \<times> 't \<times> 'w MessageTx" where
  "send_message sw tp s mtype data =
     (case s of (state, tx) \<Rightarrow>
        (case prepare_message (state, mt_packets tx) mtype of
           (Err e, state, packets) \<Rightarrow> (Err e, state, tx\<lparr>mt_packets := packets\<rparr>)
         | (Ok _, state, packets) \<Rightarrow>
             (case send_slice sw tp (state, packets) data True of
                (r, state, packets) \<Rightarrow> (r, state, tx\<lparr>mt_packets := packets\<rparr>))))"

definition message_send_reader :: "'w stream_writer \<Rightarrow> 't transport_lib \<Rightarrow> 'rd source_reader
    \<Rightarrow> 't \<times> 'w MessageTx \<Rightarrow> u16 \<Rightarrow> 'rd
    \<Rightarrow> (((unit, ConnectionError) result \<times> 't \<times> 'w MessageTx) \<times> 'rd) option" where
  "message_send_reader sw tp rr s mtype reader =
     (case s of (state, tx) \<Rightarrow>
        (case prepare_message (state, mt_packets tx) mtype of
           (Err e, state, packets) \<Rightarrow> Some ((Err e, state, tx\<lparr>mt_packets := packets\<rparr>), reader)
         | (Ok _, state, packets) \<Rightarrow>
             (case send_reader sw tp rr (state, packets) reader of
                None \<Rightarrow> None
              | Some ((r, state, packets), reader) \<Rightarrow>
                  Some ((r, state, tx\<lparr>mt_packets := packets\<rparr>), reader))))"

definition message_abort :: "'w stream_writer \<Rightarrow> 't transport_lib \<Rightarrow> 't \<times> 'w MessageTx
    \<Rightarrow> (unit, ConnectionError) result \<times> 't \<times> 'w MessageTx" where
  "message_abort sw tp s =
     (case s of (state, tx) \<Rightarrow>
        (case abort_message sw tp (state, mt_packets tx) of
           (r, state, packets) \<Rightarrow> (r, state, tx\<lparr>mt_packets := packets\<rparr>)))"

definition msg_type :: "Message \<Rightarrow> u16" where
  "msg_type m = ph_msg_type (first_header m)"

text \<open>The \<open>loop\<close> of \<open>read_bytes\<close>, over the packet operations it calls; \<open>buf\<close> is \<open>self.rx.read_buf\<close>.\<close>

partial_function (option) read_bytes_loop :: "('s \<Rightarrow> (PacketHeader, ConnectionError) result \<times> 's)
    \<Rightarrow> ('s \<Rightarrow> bytes) \<Rightarrow> 's \<Rightarrow> bytes
    \<Rightarrow> ((bytes, ConnectionError) result outcome \<times> 's \<times> bytes) option" where
  "read_bytes_loop rp pl s buf =
     (case rp s of
        (Err e, s) \<Rightarrow> Some (Return (Err e), s, buf)
      | (Ok header, s) \<Rightarrow>
          (case ph_kind header of
             Abort \<Rightarrow> Some (Return (Err MessageAborted), s, buf)
           | Last \<Rightarrow> Some (Return (Ok (buf @ pl s)), s, buf @ pl s)
           | Mid \<Rightarrow> read_bytes_loop rp pl s (buf @ pl s)
           | Sole \<Rightarrow> Some (Panic, s, buf)
           | First \<Rightarrow> Some (Panic, s, buf)))"

definition read_bytes :: "'r stream_reader \<Rightarrow> 't transport_lib \<Rightarrow> Message \<Rightarrow> 't \<times> 'r MessageRx
    \<Rightarrow> ((bytes, ConnectionError) result outcome \<times> 't \<times> 'r MessageRx) option" where
  "read_bytes sr tp m s =
     (case s of (state, rx) \<Rightarrow>
        (let buf = payload (mr_packets rx) in
         if ph_kind (first_header m) = Sole
         then Some (Return (Ok buf), state, rx\<lparr>mr_read_buf := buf\<rparr>)
         else
           (case read_bytes_loop (read_packet sr tp) (\<lambda>s. payload (snd s)) (state, mr_packets rx) buf of
              None \<Rightarrow> None
            | Some (r, (state, packets), buf) \<Rightarrow>
                Some (r, state, rx\<lparr>mr_packets := packets, mr_read_buf := buf\<rparr>))))"

definition into_packets :: "Message \<Rightarrow> MessagePackets" where
  "into_packets m = \<lparr>mp_done = False, mp_first_kind = Some (ph_kind (first_header m))\<rparr>"

text \<open>\<open>MessagePackets::next\<close>, over the packet operations it calls.\<close>

definition next_with :: "('s \<Rightarrow> (PacketHeader, ConnectionError) result \<times> 's) \<Rightarrow> ('s \<Rightarrow> bytes)
    \<Rightarrow> MessagePackets \<Rightarrow> 's \<Rightarrow> (bytes option, ConnectionError) result outcome \<times> MessagePackets \<times> 's" where
  "next_with rp pl mp s =
     (if mp_done mp then (Return (Ok None), mp, s)
      else
        (case mp_first_kind mp of
           Some kind \<Rightarrow>
             (let mp = mp\<lparr>mp_first_kind := None\<rparr>;
                  mp = (if kind = Sole then mp\<lparr>mp_done := True\<rparr> else mp)
              in (Return (Ok (Some (pl s))), mp, s))
         | None \<Rightarrow>
             (case rp s of
                (Err e, s) \<Rightarrow> (Return (Err e), mp, s)
              | (Ok header, s) \<Rightarrow>
                  (case ph_kind header of
                     Abort \<Rightarrow> (Return (Err MessageAborted), mp\<lparr>mp_done := True\<rparr>, s)
                   | Last \<Rightarrow> (Return (Ok (Some (pl s))), mp\<lparr>mp_done := True\<rparr>, s)
                   | Mid \<Rightarrow> (Return (Ok (Some (pl s))), mp, s)
                   | Sole \<Rightarrow> (Panic, mp, s)
                   | First \<Rightarrow> (Panic, mp, s)))))"

definition packets_next :: "'r stream_reader \<Rightarrow> 't transport_lib \<Rightarrow> MessagePackets \<Rightarrow> 't \<times> 'r MessageRx
    \<Rightarrow> (bytes option, ConnectionError) result outcome \<times> MessagePackets \<times> 't \<times> 'r MessageRx" where
  "packets_next sr tp mp s =
     (case s of (state, rx) \<Rightarrow>
        (case next_with (read_packet sr tp) (\<lambda>s. payload (snd s)) mp (state, mr_packets rx) of
           (r, mp, (state, packets)) \<Rightarrow> (r, mp, state, rx\<lparr>mr_packets := packets\<rparr>)))"

lemmas [op_defs] = read_message_def send_message_def message_send_reader_def message_abort_def
  read_bytes_def into_packets_def packets_next_def

section \<open>The packets of a message\<close>

abbreviation hdr :: "u16 \<Rightarrow> PacketKind \<Rightarrow> PacketHeader" where
  "hdr t k \<equiv> \<lparr>ph_kind = k, ph_msg_type = t\<rparr>"

definition plan_packets :: "u16 \<Rightarrow> (bytes \<times> bool) list \<Rightarrow> (PacketHeader \<times> bytes) list" where
  "plan_packets t plan = zip (map (hdr t) (piece_kinds True (map snd plan))) (map fst plan)"

definition packets_of :: "u16 \<Rightarrow> bytes \<Rightarrow> (PacketHeader \<times> bytes) list" where
  "packets_of t data = plan_packets t (slice_plan data True)"

lemma length_piece_kinds [simp]: "length (piece_kinds f ls) = length ls"
  by (induction f ls rule: piece_kinds.induct) simp_all

lemma plan_packets_fst: "map fst (plan_packets t plan) = map (hdr t) (piece_kinds True (map snd plan))"
  and plan_packets_snd: "map snd (plan_packets t plan) = map fst plan"
  and length_plan_packets [simp]: "length (plan_packets t plan) = length plan"
  by (simp_all add: plan_packets_def)

lemma piece_kinds_mids: "piece_kinds False (map snd (map (\<lambda>p. (p, False)) ps)) = map (\<lambda>_. Mid) ps"
  by (induction ps) simp_all

lemma piece_kinds_append: "piece_kinds False (xs @ ys) = piece_kinds False xs @ piece_kinds False ys"
  by (induction xs) simp_all

lemma plan_packets_split:
  "plan_packets t (map (\<lambda>p. (p, False)) (p # ps) @ [(q, True)]) =
     (hdr t First, p) # map (Pair (hdr t Mid)) ps @ [(hdr t Last, q)]"
  and plan_packets_open:
  "plan_packets t (map (\<lambda>p. (p, False)) (p # ps)) = (hdr t First, p) # map (Pair (hdr t Mid)) ps"
proof -
  have "zip (map (hdr t) (piece_kinds False (map snd (map (\<lambda>p. (p, False)) ps)))) ps = map (Pair (hdr t Mid)) ps"
    unfolding piece_kinds_mids by (induction ps) simp_all
  then show "plan_packets t (map (\<lambda>p. (p, False)) (p # ps) @ [(q, True)]) =
     (hdr t First, p) # map (Pair (hdr t Mid)) ps @ [(hdr t Last, q)]"
    "plan_packets t (map (\<lambda>p. (p, False)) (p # ps)) = (hdr t First, p) # map (Pair (hdr t Mid)) ps"
    by (simp_all add: plan_packets_def piece_kinds_append comp_def)
qed

lemma flagged_plan_split:
  "flags_ok (map snd plan) \<Longrightarrow> plan \<noteq> [] \<Longrightarrow> snd (last plan) \<Longrightarrow>
   \<exists>ps q. plan = map (\<lambda>p. (p, False)) ps @ [(q, True)]"
proof (induction plan)
  case (Cons x plan)
  show ?case
  proof (cases "plan = []")
    case True
    with Cons.prems show ?thesis by (intro exI [of _ "[]"] exI [of _ "fst x"]) (cases x, simp)
  next
    case False
    with Cons obtain ps q where "plan = map (\<lambda>p. (p, False)) ps @ [(q, True)]" by auto
    moreover have "x = (fst x, False)" using False Cons.prems(1) by (cases x) auto
    ultimately show ?thesis by (intro exI [of _ "fst x # ps"] exI [of _ q]) simp
  qed
qed simp

lemma packets_of_cases:
  obtains (sole) "packets_of t data = [(hdr t Sole, data)]"
  | (split) p ps q where "packets_of t data = (hdr t First, p) # map (Pair (hdr t Mid)) ps @ [(hdr t Last, q)]"
      "data = p @ concat ps @ q"
proof -
  obtain ps q where plan: "slice_plan data True = map (\<lambda>p. (p, False)) ps @ [(q, True)]"
    using flagged_plan_split [OF slice_plan_flags] slice_plan_last [of data True] by blast
  have data: "data = concat ps @ q"
    using slice_plan_concat [of data True] unfolding plan by (simp add: comp_def)
  show thesis
  proof (cases ps)
    case Nil
    with plan data show thesis by (intro sole) (simp add: packets_of_def plan_packets_def)
  next
    case (Cons r rs)
    with plan data show thesis
      by (intro split [of r rs q]) (simp_all only: packets_of_def plan_packets_split, simp)
  qed
qed

section \<open>Reading against the packet interface\<close>

context packet_source
begin

lemma loop_mids:
  "incoming s (map (Pair (hdr t Mid)) ps @ pkts) \<Longrightarrow>
   \<exists>s'. read_bytes_loop read_packet payload s buf = read_bytes_loop read_packet payload s' (buf @ concat ps)
     \<and> incoming s' pkts"
proof (induction ps arbitrary: s buf)
  case (Cons p ps)
  from Cons.prems read_step obtain s1 where
    s1: "read_packet s = (Ok (hdr t Mid), s1)" "payload s1 = p" "incoming s1 (map (Pair (hdr t Mid)) ps @ pkts)"
    by fastforce
  from Cons.IH [OF s1(3), of "buf @ p"] s1(1,2) show ?case
    by (subst read_bytes_loop.simps) simp
qed auto

lemma loop_last:
  assumes "incoming s (map (Pair (hdr t Mid)) ps @ (hdr t Last, q) # pkts)"
  shows "\<exists>s'. read_bytes_loop read_packet payload s buf
      = Some (Return (Ok (buf @ concat ps @ q)), s', buf @ concat ps @ q) \<and> incoming s' pkts"
proof -
  from loop_mids [OF assms, of buf] obtain s1 where
    eq: "read_bytes_loop read_packet payload s buf = read_bytes_loop read_packet payload s1 (buf @ concat ps)"
    and s1: "incoming s1 ((hdr t Last, q) # pkts)" by blast
  from read_step [OF s1] show ?thesis
    unfolding eq by (subst read_bytes_loop.simps) auto
qed

lemma loop_abort:
  assumes "incoming s (map (Pair (hdr t Mid)) ps @ (hdr t Abort, q) # pkts)"
  shows "\<exists>s'. read_bytes_loop read_packet payload s buf
      = Some (Return (Err MessageAborted), s', buf @ concat ps) \<and> incoming s' pkts"
proof -
  from loop_mids [OF assms, of buf] obtain s1 where
    eq: "read_bytes_loop read_packet payload s buf = read_bytes_loop read_packet payload s1 (buf @ concat ps)"
    and s1: "incoming s1 ((hdr t Abort, q) # pkts)" by blast
  from read_step [OF s1] show ?thesis
    unfolding eq by (subst read_bytes_loop.simps) auto
qed

end

section \<open>Receiving a message\<close>

abbreviation rx_reader :: "'r MessageRx \<Rightarrow> PacketReader" where
  "rx_reader rx \<equiv> rx_packet_reader (mr_packets rx)"

abbreviation rx_half :: "'t \<times> 'r MessageRx \<Rightarrow> 't \<times> 'r PacketRx" where
  "rx_half s \<equiv> (fst s, mr_packets (snd s))"

text \<open>What a \<open>MessageRx\<close> is about to read, with the parameters of \<open>incoming\<close>.\<close>

abbreviation coming where
  "coming sr pending tp Q pr' rest s \<equiv> incoming sr pending tp Q pr' rest (rx_half s)"

lemma read_message_coming:
  assumes "coming sr pending tp Q pr' rest s ((h, p) # pkts)"
  shows "\<exists>s'. read_message sr tp s = (Ok \<lparr>first_header = h\<rparr>, s') \<and> payload (mr_packets (snd s')) = p
    \<and> coming sr pending tp Q pr' rest s' pkts"
proof -
  obtain t rx where s: "s = (t, rx)" by force
  from read_packet_incoming [OF assms] obtain t' packets where
    "read_packet sr tp (t, mr_packets rx) = (Ok h, t', packets)" "payload packets = p"
    "incoming sr pending tp Q pr' rest (t', packets) pkts"
    by (auto simp: s)
  then show ?thesis
    by (intro exI [of _ "(t', rx\<lparr>mr_packets := packets\<rparr>)"]) (simp add: s read_message_def)
qed

text \<open>A message is read: \<open>read_message\<close> returns the handle and \<open>read_bytes\<close> the whole payload.\<close>

definition receive :: "'r stream_reader \<Rightarrow> 't transport_lib \<Rightarrow> 't \<times> 'r MessageRx
    \<Rightarrow> ((u16 \<times> bytes, ConnectionError) result outcome \<times> 't \<times> 'r MessageRx) option" where
  "receive sr tp s =
     (case read_message sr tp s of
        (Err e, s) \<Rightarrow> Some (Return (Err e), s)
      | (Ok m, s) \<Rightarrow>
          (case read_bytes sr tp m s of
             None \<Rightarrow> None
           | Some (Panic, s) \<Rightarrow> Some (Panic, s)
           | Some (Return (Err e), s) \<Rightarrow> Some (Return (Err e), s)
           | Some (Return (Ok bs), s) \<Rightarrow> Some (Return (Ok (msg_type m, bs)), s)))"

lemma receive_message:
  assumes "coming sr pending tp Q pr' rest s (packets_of t data @ pkts)"
  shows "\<exists>s'. receive sr tp s = Some (Return (Ok (t, data)), s') \<and> coming sr pending tp Q pr' rest s' pkts"
proof (cases rule: packets_of_cases [of t data])
  case sole
  with assms read_message_coming [of sr pending tp Q pr' rest s "hdr t Sole" data pkts] obtain s1 where
    "read_message sr tp s = (Ok \<lparr>first_header = hdr t Sole\<rparr>, s1)" "payload (mr_packets (snd s1)) = data"
    "coming sr pending tp Q pr' rest s1 pkts" by auto
  then show ?thesis
    by (cases s1) (simp add: receive_def read_bytes_def msg_type_def Let_def)
next
  case (split p ps q)
  with assms have "coming sr pending tp Q pr' rest s
      ((hdr t First, p) # (map (Pair (hdr t Mid)) ps @ (hdr t Last, q) # pkts))" by simp
  from read_message_coming [OF this] obtain s1 where
    s1: "read_message sr tp s = (Ok \<lparr>first_header = hdr t First\<rparr>, s1)" "payload (mr_packets (snd s1)) = p"
      "coming sr pending tp Q pr' rest s1 (map (Pair (hdr t Mid)) ps @ (hdr t Last, q) # pkts)" by blast
  from src.loop_last [OF s1(3), of p] obtain t2 packets where
    "read_bytes_loop (read_packet sr tp) (\<lambda>s. payload (snd s)) (fst s1, mr_packets (snd s1)) p
      = Some (Return (Ok data), (t2, packets), data)"
    "incoming sr pending tp Q pr' rest (t2, packets) pkts"
    using split(2) by auto
  with s1(1,2) show ?thesis
    by (cases s1) (simp add: receive_def read_bytes_def msg_type_def Let_def)
qed

text \<open>An abandoned message: some packets, the first of which opens it, then the abort packet.\<close>

lemma receive_aborted:
  assumes "coming sr pending tp Q pr' rest s
    ((hdr t First, p) # map (Pair (hdr t Mid)) ps @ (hdr t Abort, q) # pkts)"
  shows "\<exists>s'. receive sr tp s = Some (Return (Err MessageAborted), s') \<and> coming sr pending tp Q pr' rest s' pkts"
proof -
  from read_message_coming [OF assms] obtain s1 where
    s1: "read_message sr tp s = (Ok \<lparr>first_header = hdr t First\<rparr>, s1)" "payload (mr_packets (snd s1)) = p"
      "coming sr pending tp Q pr' rest s1 (map (Pair (hdr t Mid)) ps @ (hdr t Abort, q) # pkts)" by blast
  from src.loop_abort [OF s1(3), of p] obtain t2 packets where
    "read_bytes_loop (read_packet sr tp) (\<lambda>s. payload (snd s)) (fst s1, mr_packets (snd s1)) p
      = Some (Return (Err MessageAborted), (t2, packets), p @ concat ps)"
    "incoming sr pending tp Q pr' rest (t2, packets) pkts" by auto
  with s1(1,2) show ?thesis
    by (cases s1) (simp add: receive_def read_bytes_def Let_def)
qed

fun receive_all :: "'r stream_reader \<Rightarrow> 't transport_lib \<Rightarrow> 't \<times> 'r MessageRx \<Rightarrow> nat
    \<Rightarrow> (((u16 \<times> bytes) list, ConnectionError) result outcome \<times> 't \<times> 'r MessageRx) option" where
  "receive_all sr tp s 0 = Some (Return (Ok []), s)"
| "receive_all sr tp s (Suc n) =
     (case receive sr tp s of
        None \<Rightarrow> None
      | Some (Panic, s) \<Rightarrow> Some (Panic, s)
      | Some (Return (Err e), s) \<Rightarrow> Some (Return (Err e), s)
      | Some (Return (Ok m), s) \<Rightarrow>
          (case receive_all sr tp s n of
             Some (Return (Ok ms), s) \<Rightarrow> Some (Return (Ok (m # ms)), s)
           | failed \<Rightarrow> failed))"

definition all_packets :: "(u16 \<times> bytes) list \<Rightarrow> (PacketHeader \<times> bytes) list" where
  "all_packets ms = concat (map (\<lambda>(t, data). packets_of t data) ms)"

lemma all_packets_simps [simp]:
  "all_packets [] = []" "all_packets ((t, data) # ms) = packets_of t data @ all_packets ms"
  by (simp_all add: all_packets_def)

lemma receive_all_coming:
  "coming sr pending tp Q pr' rest s (all_packets ms @ pkts) \<Longrightarrow>
   \<exists>s'. receive_all sr tp s (length ms) = Some (Return (Ok ms), s') \<and> coming sr pending tp Q pr' rest s' pkts"
proof (induction ms arbitrary: s)
  case (Cons m ms)
  obtain t data where m: "m = (t, data)" by force
  with Cons.prems have "coming sr pending tp Q pr' rest s (packets_of t data @ (all_packets ms @ pkts))" by simp
  from receive_message [OF this] obtain s1 where
    "receive sr tp s = Some (Return (Ok (t, data)), s1)"
    "coming sr pending tp Q pr' rest s1 (all_packets ms @ pkts)" by blast
  with Cons.IH [of s1] m show ?case by auto
qed auto

section \<open>Induction over the loop of \<open>read_bytes\<close>\<close>

lemma read_bytes_loop_induct [consumes 1, case_names failed aborted finished panicked continued]:
  assumes major: "read_bytes_loop rp pl s buf = Some y"
    and failed: "\<And>s e s1 buf. rp s = (Err e, s1) \<Longrightarrow> P s buf (Return (Err e), s1, buf)"
    and aborted: "\<And>s h s1 buf. rp s = (Ok h, s1) \<Longrightarrow> ph_kind h = Abort \<Longrightarrow>
      P s buf (Return (Err MessageAborted), s1, buf)"
    and finished: "\<And>s h s1 buf. rp s = (Ok h, s1) \<Longrightarrow> ph_kind h = Last \<Longrightarrow>
      P s buf (Return (Ok (buf @ pl s1)), s1, buf @ pl s1)"
    and panicked: "\<And>s h s1 buf. rp s = (Ok h, s1) \<Longrightarrow> ph_kind h \<in> {Sole, First} \<Longrightarrow>
      P s buf (Panic, s1, buf)"
    and continued: "\<And>s h s1 buf y. rp s = (Ok h, s1) \<Longrightarrow> ph_kind h = Mid \<Longrightarrow>
      P s1 (buf @ pl s1) y \<Longrightarrow> P s buf y"
  shows "P s buf y"
proof -
  have "rp = rp \<longrightarrow> pl = pl \<longrightarrow> P s buf y"
  proof (rule read_bytes_loop.raw_induct [where P = "\<lambda>rp' pl' s buf y. rp' = rp \<longrightarrow> pl' = pl \<longrightarrow> P s buf y"],
      intro impI)
    fix f rp' pl' s buf y
    assume IH: "\<And>rp' pl' s buf y. f rp' pl' s buf = Some y \<Longrightarrow> rp' = rp \<longrightarrow> pl' = pl \<longrightarrow> P s buf y"
      and body: "(case rp' s of (Ok header, s) \<Rightarrow> case ph_kind header of Sole \<Rightarrow> Some (Panic, s, buf)
          | First \<Rightarrow> Some (Panic, s, buf) | Mid \<Rightarrow> f rp' pl' s (buf @ pl' s)
          | Last \<Rightarrow> Some (Return (Ok (buf @ pl' s)), s, buf @ pl' s)
          | Abort \<Rightarrow> Some (Return (Err MessageAborted), s, buf)
        | (Err e, s) \<Rightarrow> Some (Return (Err e), s, buf)) = Some y"
      and eqs: "rp' = rp" "pl' = pl"
    obtain res s1 where res: "rp s = (res, s1)" by (cases "rp s")
    show "P s buf y"
    proof (cases res)
      case (Err e)
      with body res failed show ?thesis by (auto simp: eqs)
    next
      case (Ok h)
      with body res IH [of rp pl s1 "buf @ pl s1" y] aborted finished panicked continued show ?thesis
        by (cases "ph_kind h") (auto simp: eqs)
    qed
  qed (rule major)
  then show ?thesis by simp
qed

section \<open>No panic on a receiver that reads its messages\<close>

abbreviation receiver_idle :: "'r MessageRx \<Rightarrow> bool" where
  "receiver_idle rx \<equiv> \<not> pr_in_progress (rx_reader rx)"

lemma read_continues:
  assumes "pr_in_progress pr" "read pr raw = (Ok h, pr')"
  shows "ph_kind h \<in> {Mid, Last, Abort} \<and> (pr_in_progress pr' \<longleftrightarrow> ph_kind h = Mid)"
  using assms
  by (cases "ph_kind h") (auto simp: read_decode read_kind_def split: result.splits prod.splits if_splits)

lemma read_opens:
  assumes "\<not> pr_in_progress pr" "read pr raw = (Ok h, pr')"
  shows "ph_kind h \<in> {Sole, First} \<and> (pr_in_progress pr' \<longleftrightarrow> ph_kind h = First)"
  using assms by (auto simp: read_decode read_kind_def split: result.splits prod.splits if_splits)

lemma read_packet_reader:
  "read_packet sr tp s = (Ok h, s') \<Longrightarrow>
   \<exists>raw. read (rx_packet_reader (snd s)) raw = (Ok h, rx_packet_reader (snd s'))"
  by (auto simp: read_packet_def Let_def split: prod.splits result.splits)

lemma read_packet_continues:
  assumes "pr_in_progress (rx_packet_reader (snd s))" "read_packet sr tp s = (Ok h, s')"
  shows "ph_kind h \<in> {Mid, Last, Abort} \<and> (pr_in_progress (rx_packet_reader (snd s')) \<longleftrightarrow> ph_kind h = Mid)"
  using read_packet_reader [OF assms(2)] read_continues [OF assms(1)] by blast

lemma read_packet_not_aborted: "fst (read_packet sr tp s) \<noteq> Err MessageAborted"
  by (auto simp: read_packet_def read_frame_def Let_def split: prod.splits result.splits)

text \<open>How a read of the rest of a message may end: not in a panic, and between messages if it
  returned the payload or reported the abort.\<close>

definition ends_well :: "('a, ConnectionError) result outcome \<Rightarrow> PacketReader \<Rightarrow> bool" where
  "ends_well r pr \<longleftrightarrow> r \<noteq> Panic
     \<and> ((\<exists>v. r = Return (Ok v)) \<or> r = Return (Err MessageAborted) \<longrightarrow> \<not> pr_in_progress pr)"

lemma read_bytes_loop_safe:
  assumes "read_bytes_loop (read_packet sr tp) pl s buf = Some y"
  shows "pr_in_progress (rx_packet_reader (snd s)) \<Longrightarrow> ends_well (fst y) (rx_packet_reader (snd (fst (snd y))))"
  using assms
proof (induction rule: read_bytes_loop_induct)
  case (failed s e s1 buf)
  with read_packet_not_aborted [of sr tp s] show ?case by (simp add: ends_well_def)
next
  case (aborted s h s1 buf)
  from read_packet_continues [OF aborted(3,1)] aborted(2) show ?case by (simp add: ends_well_def)
next
  case (finished s h s1 buf)
  from read_packet_continues [OF finished(3,1)] finished(2) show ?case by (simp add: ends_well_def)
next
  case (panicked s h s1 buf)
  from read_packet_continues [OF panicked(3,1)] panicked(2) show ?case by auto
next
  case (continued s h s1 buf y)
  from read_packet_continues [OF continued.prems continued.hyps(1)] continued.hyps(2) show ?case
    by (intro continued.IH) simp
qed

lemma receive_safe:
  assumes idle: "receiver_idle (snd s)" and r: "receive sr tp s = Some (r, s')"
  shows "ends_well r (rx_reader (snd s'))"
proof -
  obtain t rx where s: "s = (t, rx)" by force
  obtain res t1 packets where rp: "read_packet sr tp (t, mr_packets rx) = (res, t1, packets)"
    by (metis prod_cases3)
  show ?thesis
  proof (cases res)
    case (Err e)
    with r rp have "r = Return (Err e)" by (auto simp: receive_def read_message_def s)
    moreover have "e \<noteq> MessageAborted"
      using read_packet_not_aborted [of sr tp "(t, mr_packets rx)"] rp Err by auto
    ultimately show ?thesis by (simp add: ends_well_def)
  next
    case (Ok h)
    with read_packet_reader [of sr tp "(t, mr_packets rx)"] rp obtain raw where
      "read (rx_reader rx) raw = (Ok h, rx_packet_reader packets)" by fastforce
    from read_opens [OF _ this] idle s have
      h: "ph_kind h \<in> {Sole, First}" "pr_in_progress (rx_packet_reader packets) \<longleftrightarrow> ph_kind h = First" by auto
    show ?thesis
    proof (cases "ph_kind h = Sole")
      case True
      with h r rp Ok show ?thesis
        by (auto simp: receive_def read_message_def read_bytes_def s Let_def ends_well_def)
    next
      case False
      with r rp Ok obtain y where
        loop: "read_bytes_loop (read_packet sr tp) (\<lambda>s. payload (snd s)) (t1, packets) (payload packets) = Some y"
        and r': "r = (case fst y of Panic \<Rightarrow> Panic | Return (Err e) \<Rightarrow> Return (Err e)
            | Return (Ok bs) \<Rightarrow> Return (Ok (ph_msg_type h, bs)))"
        and s': "rx_reader (snd s') = rx_packet_reader (snd (fst (snd y)))"
        by (auto simp: receive_def read_message_def read_bytes_def s Let_def msg_type_def
            split: option.splits outcome.splits result.splits prod.splits)
      have "pr_in_progress (rx_packet_reader (snd (t1, packets)))" using h False by auto
      from read_bytes_loop_safe [OF loop this] show ?thesis
        unfolding r' s' by (auto simp: ends_well_def split: outcome.splits result.splits)
    qed
  qed
qed

text \<open>A caller that goes on reading after every error: the outcome of each call and the receiver after
  it, up to a panic or a call that does not return.\<close>

fun receive_each :: "'r stream_reader \<Rightarrow> 't transport_lib \<Rightarrow> 't \<times> 'r MessageRx \<Rightarrow> nat
    \<Rightarrow> ((u16 \<times> bytes, ConnectionError) result outcome \<times> 't \<times> 'r MessageRx) list" where
  "receive_each sr tp s 0 = []"
| "receive_each sr tp s (Suc n) =
     (case receive sr tp s of
        None \<Rightarrow> []
      | Some (Panic, s) \<Rightarrow> [(Panic, s)]
      | Some (Return r, s) \<Rightarrow> (Return r, s) # receive_each sr tp s n)"

text \<open>A call that failed, and not because the sender abandoned the message, with the message still open.\<close>

definition failed_inside :: "('a, ConnectionError) result outcome \<times> 't \<times> 'r MessageRx \<Rightarrow> bool" where
  "failed_inside x \<longleftrightarrow> (\<exists>e. fst x = Return (Err e) \<and> e \<noteq> MessageAborted) \<and> \<not> receiver_idle (snd (snd x))"

lemma ends_well_idle:
  "ends_well r (rx_reader (snd s)) \<Longrightarrow> r \<noteq> Panic \<and> (\<not> failed_inside (r, s) \<longrightarrow> receiver_idle (snd s))"
  by (cases r) (auto simp: ends_well_def failed_inside_def, metis result.exhaust)

lemma receive_each_safe:
  "receiver_idle (snd s) \<Longrightarrow> j < length (receive_each sr tp s n) \<Longrightarrow>
   \<forall>i < j. \<not> failed_inside (receive_each sr tp s n ! i) \<Longrightarrow>
   ends_well (fst (receive_each sr tp s n ! j)) (rx_reader (snd (snd (receive_each sr tp s n ! j))))"
proof (induction n arbitrary: s j)
  case (Suc n)
  from Suc.prems(2) obtain r s1 where r: "receive sr tp s = Some (r, s1)"
    by (auto split: option.splits)
  note safe = receive_safe [OF Suc.prems(1) r]
  with r obtain v where each: "r = Return v" "receive_each sr tp s (Suc n) = (r, s1) # receive_each sr tp s1 n"
    by (cases r) (auto simp: ends_well_def)
  show ?case
  proof (cases j)
    case 0
    with safe show ?thesis by (simp only: each(2) nth_Cons_0 fst_conv snd_conv)
  next
    case (Suc k)
    with Suc.prems(3) have "\<not> failed_inside (r, s1)" by (auto simp: each(2) simp del: receive_each.simps)
    with ends_well_idle [OF safe] have "receiver_idle (snd s1)" by blast
    moreover have "k < length (receive_each sr tp s1 n)" "\<forall>i < k. \<not> failed_inside (receive_each sr tp s1 n ! i)"
      using Suc Suc.prems(2,3) by (auto simp: each(2) simp del: receive_each.simps)
    ultimately have "ends_well (fst (receive_each sr tp s1 n ! k)) (rx_reader (snd (snd (receive_each sr tp s1 n ! k))))"
      by (rule Suc.IH)
    then show ?thesis unfolding each(2) Suc nth_Cons_Suc .
  qed
qed simp

section \<open>The packet iterator\<close>

text \<open>The client loop \<open>while let Some(p) = packets.next().await?\<close>, collecting what is yielded.\<close>

partial_function (option) collect_packets :: "'r stream_reader \<Rightarrow> 't transport_lib \<Rightarrow> MessagePackets
    \<Rightarrow> 't \<times> 'r MessageRx \<Rightarrow> bytes list
    \<Rightarrow> ((bytes list, ConnectionError) result outcome \<times> 't \<times> 'r MessageRx) option" where
  "collect_packets sr tp mp s acc =
     (case packets_next sr tp mp s of
        (Panic, mp, s) \<Rightarrow> Some (Panic, s)
      | (Return (Err e), mp, s) \<Rightarrow> Some (Return (Err e), s)
      | (Return (Ok None), mp, s) \<Rightarrow> Some (Return (Ok acc), s)
      | (Return (Ok (Some p)), mp, s) \<Rightarrow> collect_packets sr tp mp s (acc @ [p]))"

abbreviation continuing :: MessagePackets where
  "continuing \<equiv> \<lparr>mp_done = False, mp_first_kind = None\<rparr>"

fun joined :: "(bytes list, ConnectionError) result outcome \<Rightarrow> (bytes, ConnectionError) result outcome" where
  "joined Panic = Panic"
| "joined (Return (Err e)) = Return (Err e)"
| "joined (Return (Ok ps)) = Return (Ok (concat ps))"

lemma collect_done: "collect_packets sr tp \<lparr>mp_done = True, mp_first_kind = k\<rparr> s acc = Some (Return (Ok acc), s)"
  by (subst collect_packets.simps) (cases s, simp add: packets_next_def next_with_def)

text \<open>One unfolding of the collecting loop after the first packet.\<close>

lemma collect_continuing:
  "collect_packets sr tp continuing (t, rx) acc =
     (case read_packet sr tp (t, mr_packets rx) of
        (Err e, t, pk) \<Rightarrow> Some (Return (Err e), t, rx\<lparr>mr_packets := pk\<rparr>)
      | (Ok h, t, pk) \<Rightarrow>
          (case ph_kind h of
             Abort \<Rightarrow> Some (Return (Err MessageAborted), t, rx\<lparr>mr_packets := pk\<rparr>)
           | Last \<Rightarrow> Some (Return (Ok (acc @ [payload pk])), t, rx\<lparr>mr_packets := pk\<rparr>)
           | Mid \<Rightarrow> collect_packets sr tp continuing (t, rx\<lparr>mr_packets := pk\<rparr>) (acc @ [payload pk])
           | Sole \<Rightarrow> Some (Panic, t, rx\<lparr>mr_packets := pk\<rparr>)
           | First \<Rightarrow> Some (Panic, t, rx\<lparr>mr_packets := pk\<rparr>)))"
  by (subst collect_packets.simps)
    (auto simp: packets_next_def next_with_def collect_done split: prod.splits result.splits PacketKind.splits)

definition same_read where
  "same_read \<equiv> rel_option (\<lambda>(r, s, buf) (r', t', rx'). r = joined r' \<and> s = (t', mr_packets rx'))"

lemma loop_collects:
  assumes "read_bytes_loop (read_packet sr tp) (\<lambda>s. payload (snd s)) s buf = Some y"
  shows "s = (t, mr_packets rx) \<Longrightarrow> buf = concat acc \<Longrightarrow>
    same_read (Some y) (collect_packets sr tp continuing (t, rx) acc)"
  using assms
proof (induction arbitrary: t rx acc rule: read_bytes_loop_induct)
  case (failed s e s1 buf)
  then show ?case by (cases s1) (simp add: collect_continuing same_read_def)
next
  case (aborted s h s1 buf)
  then show ?case by (cases s1) (simp add: collect_continuing same_read_def)
next
  case (finished s h s1 buf)
  then show ?case by (cases s1) (simp add: collect_continuing same_read_def)
next
  case (panicked s h s1 buf)
  then show ?case by (cases s1; cases "ph_kind h") (simp_all add: collect_continuing same_read_def)
next
  case (continued s h s1 buf y)
  obtain t1 pk where s1: "s1 = (t1, pk)" by (cases s1)
  have "same_read (Some y) (collect_packets sr tp continuing (t1, rx\<lparr>mr_packets := pk\<rparr>) (acc @ [payload pk]))"
    by (rule continued.IH) (simp_all add: s1 continued.prems)
  with continued.hyps continued.prems show ?case by (subst collect_continuing) (simp add: s1)
qed

lemma loop_continued:
  "read_packet sr tp (t, pk) = (Ok h, s1) \<Longrightarrow> ph_kind h = Mid \<Longrightarrow>
   read_bytes_loop (read_packet sr tp) pl (t, pk) buf = read_bytes_loop (read_packet sr tp) pl s1 (buf @ pl s1)"
  by (subst read_bytes_loop.simps) simp

lemma loop_stops:
  "read_packet sr tp (t, pk) = (r, s1) \<Longrightarrow> (\<nexists>h. r = Ok h \<and> ph_kind h = Mid) \<Longrightarrow>
   read_bytes_loop (read_packet sr tp) pl (t, pk) buf \<noteq> None"
  by (subst read_bytes_loop.simps) (auto split: result.splits PacketKind.splits)

lemma packets_next_continued:
  "read_packet sr tp (t, mr_packets rx) = (Ok h, t1, pk) \<Longrightarrow> ph_kind h = Mid \<Longrightarrow>
   packets_next sr tp continuing (t, rx) = (Return (Ok (Some (payload pk))), continuing, t1, rx\<lparr>mr_packets := pk\<rparr>)"
  by (simp add: packets_next_def next_with_def)

lemma collects_loop:
  assumes "collect_packets sr tp continuing (t, rx) acc = Some y"
  shows "read_bytes_loop (read_packet sr tp) pl (t, mr_packets rx) buf \<noteq> None"
proof -
  have "continuing = continuing \<longrightarrow>
      (\<forall>buf. read_bytes_loop (read_packet sr tp) pl (fst (t, rx), mr_packets (snd (t, rx))) buf \<noteq> None)"
  proof (rule collect_packets.raw_induct [where P = "\<lambda>sr tp mp s acc y. mp = continuing \<longrightarrow>
      (\<forall>buf. read_bytes_loop (read_packet sr tp) pl (fst s, mr_packets (snd s)) buf \<noteq> None)"], intro impI allI)
    fix f sr tp mp s acc y buf
    assume IH: "\<And>sr tp mp s acc y. f sr tp mp s acc = Some y \<Longrightarrow> mp = continuing \<longrightarrow>
        (\<forall>buf. read_bytes_loop (read_packet sr tp) pl (fst s, mr_packets (snd s)) buf \<noteq> None)"
      and body: "(case packets_next sr tp mp s of
          (Return (Ok None), mp, s) \<Rightarrow> Some (Return (Ok acc), s)
        | (Return (Ok (Some p)), mp, s) \<Rightarrow> f sr tp mp s (acc @ [p])
        | (Return (Err e), mp, s) \<Rightarrow> Some (Return (Err e), s)
        | (Panic, mp, s) \<Rightarrow> Some (Panic, s)) = Some y"
      and mp: "mp = continuing"
    obtain t rx where s: "s = (t, rx)" by (cases s)
    obtain r t1 pk where rp: "read_packet sr tp (t, mr_packets rx) = (r, t1, pk)" by (metis prod_cases3)
    show "read_bytes_loop (read_packet sr tp) pl (fst s, mr_packets (snd s)) buf \<noteq> None"
    proof (cases "\<exists>h. r = Ok h \<and> ph_kind h = Mid")
      case True
      then obtain h where h: "r = Ok h" "ph_kind h = Mid" by blast
      have "f sr tp continuing (t1, rx\<lparr>mr_packets := pk\<rparr>) (acc @ [payload pk]) = Some y"
        using body packets_next_continued [OF rp [unfolded h(1)] h(2)] by (simp add: mp s)
      from IH [OF this] show ?thesis using loop_continued [OF rp [unfolded h(1)] h(2)] by (simp add: s)
    next
      case False
      from loop_stops [OF rp False] show ?thesis by (simp add: s)
    qed
  qed (rule assms)
  then show ?thesis by simp
qed

text \<open>The two ways of reading a message, \<open>read_bytes\<close> and the packets of \<open>into_packets\<close>.\<close>

lemma read_bytes_collects:
  "rel_option (\<lambda>(r, t, rx) (r', t', rx'). r = joined r' \<and> t = t' \<and> mr_packets rx = mr_packets rx')
     (read_bytes sr tp m s) (collect_packets sr tp (into_packets m) s [])"
proof -
  obtain t rx where s: "s = (t, rx)" by force
  have step: "collect_packets sr tp (into_packets m) (t, rx) [] =
      (if ph_kind (first_header m) = Sole then Some (Return (Ok [payload (mr_packets rx)]), t, rx)
       else collect_packets sr tp continuing (t, rx) [payload (mr_packets rx)])"
    by (subst collect_packets.simps)
      (simp add: packets_next_def next_with_def into_packets_def collect_done)
  show ?thesis
  proof (cases "ph_kind (first_header m) = Sole")
    case True
    then show ?thesis by (simp add: s read_bytes_def step Let_def)
  next
    case False
    let ?buf = "payload (mr_packets rx)"
    show ?thesis
    proof (cases "read_bytes_loop (read_packet sr tp) (\<lambda>s. payload (snd s)) (t, mr_packets rx) ?buf")
      case None
      then have "collect_packets sr tp continuing (t, rx) [?buf] = None"
        using collects_loop [of sr tp t rx "[?buf]"] by (metis not_None_eq)
      with None False show ?thesis by (simp add: s read_bytes_def step Let_def)
    next
      case (Some y)
      from loop_collects [OF Some refl, of "[?buf]"] obtain z where
        "collect_packets sr tp continuing (t, rx) [?buf] = Some z"
        "fst y = joined (fst z)" "fst (snd y) = (fst (snd z), mr_packets (snd (snd z)))"
        by (auto simp: same_read_def option_rel_Some1 split: prod.splits)
      with Some False show ?thesis
        by (auto simp: s read_bytes_def step Let_def split: prod.splits)
    qed
  qed
qed

section \<open>Short messages\<close>

lemma one_packet: "length d \<le> MAX_PACKET_SIZE \<Longrightarrow> packets_of t d = [(hdr t Sole, d)]"
  by (cases "d = []") (simp_all add: packets_of_def slice_plan_def plan_packets_def chunks_step)

lemma two_packets:
  assumes "MAX_PACKET_SIZE < length d" "length d \<le> 2 * MAX_PACKET_SIZE"
  shows "packets_of t d = [(hdr t First, take MAX_PACKET_SIZE d), (hdr t Last, drop MAX_PACKET_SIZE d)]"
proof -
  have "d \<noteq> []" using assms(1) by auto
  with assms show ?thesis
    by (simp add: packets_of_def slice_plan_def plan_packets_def chunks_step [of _ d] chunks_step [of _ "drop _ d"])
qed

section \<open>Properties\<close>

text \<open>The receiving end of a fresh link over the instance of theory \<open>Loopback\<close>, with \<open>bs\<close> waiting in
  its stream.\<close>

definition loop_rx :: "bytes \<Rightarrow> tag_state \<times> bytes MessageRx" where
  "loop_rx bs = ((0, 0), message_rx_new \<lparr>rx_packet_reader = reader_new, rx_read = bs,
     rx_ciphertext_buf = [], rx_plaintext_buf = [], rx_payload_end = 0\<rparr>)"

text \<open>C13: A caller that reads its messages to the end is made to panic only after an error that left a
  message half read. Starting between messages, on any stream and with any cipher, it calls
  \<open>read_message\<close> and \<open>read_bytes\<close> any number of times and goes on after errors, also after
  \<open>MessageAborted\<close>. As long as no earlier call failed inside a message with another error, a call does
  not reach the \<open>unreachable!\<close> arm.\<close>

theorem receive_never_panics:
  assumes "receiver_idle (snd s)" "j < length (receive_each sr tp s n)"
    and "\<forall>i < j. \<not> failed_inside (receive_each sr tp s n ! i)"
  shows "fst (receive_each sr tp s n ! j) \<noteq> Panic"
  using receive_each_safe [OF assms] by (simp add: ends_well_def)

theorem receive_never_panics_witness:
  "length (receive_each list_reader tag_cipher (loop_rx [0, 1, 7]) 2) = 2
   \<and> fst (receive_each list_reader tag_cipher (loop_rx [0, 1, 7]) 2 ! 1) \<noteq> Panic"
proof -
  let ?each = "receive_each list_reader tag_cipher (loop_rx [0, 1, 7]) 2"
  have idle: "receiver_idle (snd (loop_rx [0, 1, 7]))" by (simp add: loop_rx_def message_rx_new_def reader_new_def)
  have len: "u16_from_be_bytes 0 1 = 1" by code_simp
  have fails: "\<exists>e s'. receive list_reader tag_cipher (loop_rx bs) = Some (Return (Err e), s') \<and> receiver_idle (snd s')
      \<and> (\<exists>e' s''. receive list_reader tag_cipher s' = Some (Return (Err e'), s''))" if "bs = [0, 1, 7]" for bs
    by (simp add: that loop_rx_def message_rx_new_def receive_def read_message_def read_packet_def
        read_frame_def list_reader_def tag_cipher_def len vec_resize_def reader_new_def Let_def)
  from fails [OF refl] have run: "length ?each = 2" "\<not> failed_inside (?each ! 0)"
    by (auto simp: numeral_2_eq_2 failed_inside_def)
  have "fst (?each ! 1) \<noteq> Panic"
    by (rule receive_never_panics [OF idle]) (use run in simp_all)
  with run(1) show ?thesis by blast
qed

text \<open>C16: \<open>read_bytes\<close> and draining \<open>into_packets\<close> are the same reader: on every stream, with every
  cipher and for every opening header, one returns exactly when the other does; the payload is the
  concatenation of the yielded packets, errors and panics are the same, and the receiver is left
  with the same packet half.\<close>

theorem read_bytes_iterator:
  "rel_option (\<lambda>(r, t, rx) (r', t', rx'). r = joined r' \<and> t = t' \<and> mr_packets rx = mr_packets rx')
     (read_bytes sr tp m s) (collect_packets sr tp (into_packets m) s [])"
  by (rule read_bytes_collects)

end
