(* ===== verification/Delivery.thy ===== *)
theory Delivery
  imports Messages
begin

text \<open>
  What crosses a link between a \<open>MessageTx\<close> and the \<open>MessageRx\<close> at the other end. \<open>posted\<close>
  describes a run of the sending side as packets that the reader of the other side accepts, and
  \<open>linked\<close> is an idle link. Messages sent one after the other are the messages received; a
  message streamed from a reader arrives like one sent from a slice, unless its length is a
  positive multiple of \<open>MAX_PACKET_SIZE\<close>; a message whose source fails half way can be abandoned,
  and the link is then idle again, provided a packet of it had left. The last sections show what a
  dropped handle, and a peer that seals packets of its own making, do to a receiver.
\<close>

section \<open>Sending a message\<close>

abbreviation tx_builder :: "'w MessageTx \<Rightarrow> PacketBuilder" where
  "tx_builder tx \<equiv> tx_packet_builder (mt_packets tx)"

abbreviation tx_half :: "'t \<times> 'w MessageTx \<Rightarrow> 't \<times> 'w PacketTx" where
  "tx_half s \<equiv> (fst s, mt_packets (snd s))"

text \<open>\<open>posted\<close>: the packets \<open>pkts\<close> went out in order, and a packet reader in state \<open>pr\<close> accepts them.\<close>

definition posted where
  "posted tp sync written n s pr pkts s' pr' \<longleftrightarrow>
     (\<exists>raws. length raws = length pkts \<and> sent tp sync written n s raws s'
        \<and> read_all read pr raws = (Ok (map fst pkts), pr') \<and> map (drop 2) raws = map snd pkts)"

lemma read_all_append:
  "read_all rd r xs = (Ok hs, r1) \<Longrightarrow> read_all rd r1 ys = (Ok hs', r2) \<Longrightarrow>
   read_all rd r (xs @ ys) = (Ok (hs @ hs'), r2)"
  by (induction xs arbitrary: r hs) (auto split: result.splits prod.splits)

lemma posted_append:
  assumes "posted tp sync written (length pkts' + n) s pr pkts s1 pr1"
    "posted tp sync written n s1 pr1 pkts' s' pr'"
  shows "posted tp sync written n s pr (pkts @ pkts') s' pr'"
proof -
  from assms obtain raws raws' where "length raws = length pkts" "length raws' = length pkts'"
    "sent tp sync written (length raws' + n) s raws s1" "sent tp sync written n s1 raws' s'"
    "read_all read pr raws = (Ok (map fst pkts), pr1)" "read_all read pr1 raws' = (Ok (map fst pkts'), pr')"
    "map (drop 2) raws = map snd pkts" "map (drop 2) raws' = map snd pkts'"
    unfolding posted_def by auto
  then show ?thesis unfolding posted_def
    by (intro exI [of _ "raws @ raws'"]) (simp add: sent_append read_all_append)
qed

lemma posted_nothing: "posted tp sync written n s pr [] s pr"
  by (cases s) (simp add: posted_def sent_nothing)

lemma posted_ready: "posted tp sync written n s pr pkts s' pr' \<Longrightarrow> sync (length pkts + n) (fst s) tr \<Longrightarrow>
   \<exists>tr'. sync n (fst s') tr'"
  unfolding posted_def by (metis sent_ready)

lemma posted_incoming:
  assumes "read_laws sr pending" "posted tp sync written n s (rx_packet_reader rx) pkts s' pr'"
    "sync (length pkts + n) (fst s) tr"
    "written (tx_write (snd s)) @ pending (rx_read rx) = written (tx_write (snd s')) @ rest"
  shows "incoming sr pending tp (sync n (fst s')) pr' rest (tr, rx) pkts"
  using assms sent_incoming unfolding posted_def by metis

text \<open>A plan sent on a prepared builder, as \<open>send_slice\<close> and \<open>send_reader\<close> do.\<close>

lemma send_plan_posted:
  assumes laws: "cipher_laws tp sync" "write_laws sw written"
    and fits: "room_for plan" "flags_ok (map snd plan)" and sy: "sync (length plan + n) ts tr0"
    and b: "in_step (tx_packet_builder tx) pr" "builder_opened (tx_packet_builder tx) = Some t"
      "\<not> builder_started (tx_packet_builder tx)"
  shows "send_plan sw tp (ts, tx) plan = (Ok (), s') \<Longrightarrow>
      \<exists>pr'. posted tp sync written n (ts, tx) pr (plan_packets t plan) s' pr'
        \<and> in_step (tx_packet_builder (snd s')) pr'
        \<and> builder_opened (tx_packet_builder (snd s')) = (if plan \<noteq> [] \<and> snd (last plan) then None else Some t)"
    and "write_live sw \<Longrightarrow> fst (send_plan sw tp (ts, tx) plan) = Ok ()"
proof -
  from codec.pieces_roundtrip [OF b(1,2) fits(2)] b(3) obtain raws b' pr' where
    pk: "pack_all pack (tx_packet_builder tx) plan = (Ok raws, b')"
    and rd: "read_all read pr raws = (Ok (map (hdr t) (piece_kinds True (map snd plan))), pr')"
      "map (drop 2) raws = map fst plan" "in_step b' pr'"
      "builder_opened b' = (if plan \<noteq> [] \<and> snd (last plan) then None else Some t)"
    by auto
  show "\<exists>pr'. posted tp sync written n (ts, tx) pr (plan_packets t plan) s' pr'
        \<and> in_step (tx_packet_builder (snd s')) pr'
        \<and> builder_opened (tx_packet_builder (snd s')) = (if plan \<noteq> [] \<and> snd (last plan) then None else Some t)"
    if "send_plan sw tp (ts, tx) plan = (Ok (), s')"
  proof -
    from send_plan_sent [OF laws fits(1) sy pk that] have "length raws = length plan"
      "sent tp sync written n (ts, tx) raws s'" "tx_packet_builder (snd s') = b'" by simp_all
    with rd show ?thesis
      by (intro exI [of _ pr']) (auto simp: posted_def plan_packets_fst plan_packets_snd)
  qed
  show "fst (send_plan sw tp (ts, tx) plan) = Ok ()" if "write_live sw"
    using send_plan_live [OF laws that fits(1) sy pk] .
qed

lemma slice_plan_room: "room_for (slice_plan data l)"
  using slice_plan_fits by (fastforce simp: room_for_def)

lemma prepare_message_ready:
  assumes "in_step (tx_packet_builder tx) pr" "builder_opened (tx_packet_builder tx) = None" "t \<le> TYPE_MASK"
  shows "\<exists>b. prepare_message (ts, tx) t = (Ok (), ts, tx\<lparr>tx_packet_builder := b\<rparr>)
    \<and> in_step b pr \<and> builder_opened b = Some t \<and> \<not> builder_started b"
  using codec.prepare_step [OF assms] by (auto simp: prepare_message_def)

text \<open>The two ends of an idle link: ciphers in step with \<open>n\<close> nonces left, codecs in step, no message
  being sent.\<close>

definition linked :: "(nat \<Rightarrow> 't \<Rightarrow> 't \<Rightarrow> bool) \<Rightarrow> nat \<Rightarrow> 't \<times> 'w MessageTx \<Rightarrow> 't \<times> 'r MessageRx \<Rightarrow> bool" where
  "linked sync n s r \<longleftrightarrow> sync n (fst s) (fst r)
     \<and> in_step (tx_builder (snd s)) (rx_reader (snd r)) \<and> builder_opened (tx_builder (snd s)) = None"

text \<open>After \<open>prepare_message\<close>, sending \<open>plan\<close> in one of the two ways: what has been posted.\<close>

lemma prepared_plan_posted:
  assumes laws: "cipher_laws tp sync" "write_laws sw written"
    and fits: "room_for plan" "flags_ok (map snd plan)" and sy: "sync (length plan + n) ts tr0"
    and b: "in_step (tx_builder tx) pr" "builder_opened (tx_builder tx) = None" "t \<le> TYPE_MASK"
  shows "\<exists>b1. prepare_message (ts, mt_packets tx) t = (Ok (), ts, (mt_packets tx)\<lparr>tx_packet_builder := b1\<rparr>)
    \<and> (\<forall>s'. send_plan sw tp (ts, (mt_packets tx)\<lparr>tx_packet_builder := b1\<rparr>) plan = (Ok (), s') \<longrightarrow>
        (\<exists>pr'. posted tp sync written n (ts, mt_packets tx) pr (plan_packets t plan) s' pr'
        \<and> in_step (tx_packet_builder (snd s')) pr'
        \<and> builder_opened (tx_packet_builder (snd s')) = (if plan \<noteq> [] \<and> snd (last plan) then None else Some t)))
    \<and> (write_live sw \<longrightarrow> fst (send_plan sw tp (ts, (mt_packets tx)\<lparr>tx_packet_builder := b1\<rparr>) plan) = Ok ())"
proof -
  from prepare_message_ready [OF b, of ts] obtain b1 where
    pm: "prepare_message (ts, mt_packets tx) t = (Ok (), ts, (mt_packets tx)\<lparr>tx_packet_builder := b1\<rparr>)"
    and b1: "in_step b1 pr" "builder_opened b1 = Some t" "\<not> builder_started b1" by blast
  let ?tx = "(mt_packets tx)\<lparr>tx_packet_builder := b1\<rparr>"
  have same: "posted tp sync written n (ts, ?tx) = posted tp sync written n (ts, mt_packets tx)"
    by (intro ext) (simp add: posted_def sent_def)
  have b1': "in_step (tx_packet_builder ?tx) pr" "builder_opened (tx_packet_builder ?tx) = Some t"
    "\<not> builder_started (tx_packet_builder ?tx)" using b1 by simp_all
  show ?thesis
    using pm send_plan_posted [OF laws fits sy b1'] unfolding same by blast
qed

lemma slice_plan_ends: "(slice_plan data l \<noteq> [] \<and> snd (last (slice_plan data l))) = l"
  using slice_plan_last [of data l] by simp

lemma send_message_posted:
  assumes laws: "cipher_laws tp sync" "write_laws sw written"
    and sy: "sync (length (packets_of t data) + n) (fst s) tr0"
    and b: "in_step (tx_builder (snd s)) pr" "builder_opened (tx_builder (snd s)) = None" "t \<le> TYPE_MASK"
  shows "send_message sw tp s t data = (Ok (), s') \<Longrightarrow>
      \<exists>pr'. posted tp sync written n (tx_half s) pr (packets_of t data) (tx_half s') pr'
        \<and> in_step (tx_builder (snd s')) pr' \<and> builder_opened (tx_builder (snd s')) = None"
    and "write_live sw \<Longrightarrow> fst (send_message sw tp s t data) = Ok ()"
proof -
  obtain ts tx where s: "s = (ts, tx)" by force
  let ?plan = "slice_plan data True"
  have sy': "sync (length ?plan + n) ts tr0" using sy by (simp add: packets_of_def s)
  have b': "in_step (tx_builder tx) pr" "builder_opened (tx_builder tx) = None" using b by (simp_all add: s)
  from prepared_plan_posted [OF laws slice_plan_room slice_plan_flags sy' b' b(3)] obtain b1 where
    pm: "prepare_message (ts, mt_packets tx) t = (Ok (), ts, (mt_packets tx)\<lparr>tx_packet_builder := b1\<rparr>)"
    and post: "\<And>s'. send_plan sw tp (ts, (mt_packets tx)\<lparr>tx_packet_builder := b1\<rparr>) ?plan = (Ok (), s') \<Longrightarrow>
        \<exists>pr'. posted tp sync written n (ts, mt_packets tx) pr (plan_packets t ?plan) s' pr'
        \<and> in_step (tx_packet_builder (snd s')) pr' \<and> builder_opened (tx_packet_builder (snd s')) = None"
    and live: "write_live sw \<Longrightarrow> fst (send_plan sw tp (ts, (mt_packets tx)\<lparr>tx_packet_builder := b1\<rparr>) ?plan) = Ok ()"
    unfolding slice_plan_ends if_True by blast
  show "\<exists>pr'. posted tp sync written n (tx_half s) pr (packets_of t data) (tx_half s') pr'
        \<and> in_step (tx_builder (snd s')) pr' \<and> builder_opened (tx_builder (snd s')) = None"
    if "send_message sw tp s t data = (Ok (), s')"
  proof -
    from that obtain ts' packets where s': "s' = (ts', tx\<lparr>mt_packets := packets\<rparr>)"
      and "send_plan sw tp (ts, (mt_packets tx)\<lparr>tx_packet_builder := b1\<rparr>) ?plan = (Ok (), ts', packets)"
      by (auto simp: send_message_def s pm send_slice_plan split: prod.splits)
    from post [OF this(2)] show ?thesis by (simp add: s s' packets_of_def)
  qed
  show "fst (send_message sw tp s t data) = Ok ()" if "write_live sw"
    using live [OF that] by (auto simp: send_message_def s pm send_slice_plan split: prod.splits)
qed

fun send_all :: "'w stream_writer \<Rightarrow> 't transport_lib \<Rightarrow> 't \<times> 'w MessageTx \<Rightarrow> (u16 \<times> bytes) list
    \<Rightarrow> (unit, ConnectionError) result \<times> 't \<times> 'w MessageTx" where
  "send_all sw tp s [] = (Ok (), s)"
| "send_all sw tp s ((t, data) # ms) =
     (case send_message sw tp s t data of
        (Err e, s) \<Rightarrow> (Err e, s)
      | (Ok _, s) \<Rightarrow> send_all sw tp s ms)"

definition types_ok :: "(u16 \<times> bytes) list \<Rightarrow> bool" where
  "types_ok ms \<longleftrightarrow> (\<forall>t \<in> fst ` set ms. t \<le> TYPE_MASK)"

lemma types_ok_simps [simp]: "types_ok []" "types_ok ((t, data) # ms) \<longleftrightarrow> t \<le> TYPE_MASK \<and> types_ok ms"
  by (simp_all add: types_ok_def)

lemma send_all_posted:
  assumes laws: "cipher_laws tp sync" "write_laws sw written"
  shows "sync (length (all_packets ms) + n) (fst s) tr0 \<Longrightarrow> types_ok ms \<Longrightarrow>
    in_step (tx_builder (snd s)) pr \<Longrightarrow> builder_opened (tx_builder (snd s)) = None \<Longrightarrow>
    (send_all sw tp s ms = (Ok (), s') \<longrightarrow>
      (\<exists>pr'. posted tp sync written n (tx_half s) pr (all_packets ms) (tx_half s') pr'
        \<and> in_step (tx_builder (snd s')) pr' \<and> builder_opened (tx_builder (snd s')) = None))
    \<and> (write_live sw \<longrightarrow> fst (send_all sw tp s ms) = Ok ())"
proof (induction ms arbitrary: s tr0 pr)
  case Nil
  then show ?case by (auto intro: posted_nothing)
next
  case (Cons m ms)
  obtain t data where m: "m = (t, data)" by force
  have sy: "sync (length (packets_of t data) + (length (all_packets ms) + n)) (fst s) tr0"
    using Cons.prems(1) by (simp add: m add.assoc)
  have t: "t \<le> TYPE_MASK" "types_ok ms" using Cons.prems(2) by (simp_all add: m)
  note msg = send_message_posted [OF laws sy Cons.prems(3,4) t(1)]
  show ?case
  proof (cases "fst (send_message sw tp s t data) = Ok ()")
    case False
    with msg(2) show ?thesis by (auto simp: m split: prod.splits result.splits)
  next
    case True
    then obtain s1 where s1: "send_message sw tp s t data = (Ok (), s1)" by (metis prod.collapse)
    from msg(1) [OF s1] obtain pr1 where
      p1: "posted tp sync written (length (all_packets ms) + n) (tx_half s) pr (packets_of t data) (tx_half s1) pr1"
        "in_step (tx_builder (snd s1)) pr1" "builder_opened (tx_builder (snd s1)) = None" by blast
    from posted_ready [OF p1(1)] sy obtain tr1 where "sync (length (all_packets ms) + n) (fst s1) tr1" by auto
    from Cons.IH [OF this t(2) p1(2,3)] p1(1) s1 show ?thesis
      by (auto simp: m intro: posted_append)
  qed
qed

section \<open>Streaming from a reader\<close>

lemma reader_plan_slice_plan:
  "data = [] \<or> \<not> MAX_PACKET_SIZE dvd length data \<Longrightarrow> reader_plan data = slice_plan data True"
  by (auto simp: reader_plan_def drain_plan_slice_plan) (simp add: slice_plan_def)

lemma message_send_reader_slice:
  assumes "delivers rr reader data" "data = [] \<or> \<not> MAX_PACKET_SIZE dvd length data"
  shows "\<exists>reader'. message_send_reader sw tp rr s t reader = Some (send_message sw tp s t data, reader')"
proof -
  obtain ts tx where s: "s = (ts, tx)" by force
  obtain r ts1 pk where pm: "prepare_message (ts, mt_packets tx) t = (r, ts1, pk)" by (metis prod_cases3)
  from send_reader_plan [OF assms(1), of sw tp "(ts1, pk)"] obtain reader' where
    "send_reader sw tp rr (ts1, pk) reader = Some (send_slice sw tp (ts1, pk) data True, reader')"
    unfolding reader_plan_slice_plan [OF assms(2)] send_slice_plan by blast
  then show ?thesis
    by (cases r; cases "send_slice sw tp (ts1, pk) data True")
      (simp_all add: message_send_reader_def send_message_def s pm)
qed

text \<open>\<open>send_reader\<close> on a source that fails, for an idle link: what was posted before the error.\<close>

lemma full_plan_room: "room_for (full_plan data)"
  using full_plan_flags [of data] by (auto simp: room_for_def)

lemma flags_ok_False: "flags_ok (map snd (map (\<lambda>c. (c, False)) cs))"
  by (induction cs) simp_all

text \<open>Pieces sent without a final one: they are posted and the message stays open.\<close>

lemma unflagged_plan_posted:
  assumes laws: "cipher_laws tp sync" "write_laws sw written" "write_live sw"
    and plan: "plan = map (\<lambda>c. (c, False)) cs" and room: "room_for plan"
    and sy: "sync (length plan + n) ts tr0"
    and b: "in_step (tx_builder tx) pr" "builder_opened (tx_builder tx) = None" "t \<le> TYPE_MASK"
  shows "\<exists>b1 ts1 pk pr'. prepare_message (ts, mt_packets tx) t = (Ok (), ts, (mt_packets tx)\<lparr>tx_packet_builder := b1\<rparr>)
    \<and> send_plan sw tp (ts, (mt_packets tx)\<lparr>tx_packet_builder := b1\<rparr>) plan = (Ok (), ts1, pk)
    \<and> posted tp sync written n (ts, mt_packets tx) pr (plan_packets t plan) (ts1, pk) pr'
    \<and> in_step (tx_packet_builder pk) pr' \<and> builder_opened (tx_packet_builder pk) = Some t"
proof -
  have flags: "flags_ok (map snd plan)" unfolding plan by (rule flags_ok_False)
  have unflagged: "(plan \<noteq> [] \<and> snd (last plan)) = False"
    unfolding plan by (cases cs rule: rev_cases) simp_all
  from prepared_plan_posted [OF laws(1,2) room flags sy b] laws(3) obtain b1 where
    pm: "prepare_message (ts, mt_packets tx) t = (Ok (), ts, (mt_packets tx)\<lparr>tx_packet_builder := b1\<rparr>)"
    and post: "\<And>s'. send_plan sw tp (ts, (mt_packets tx)\<lparr>tx_packet_builder := b1\<rparr>) plan = (Ok (), s') \<Longrightarrow>
        \<exists>pr'. posted tp sync written n (ts, mt_packets tx) pr (plan_packets t plan) s' pr'
        \<and> in_step (tx_packet_builder (snd s')) pr' \<and> builder_opened (tx_packet_builder (snd s')) = Some t"
    and live: "fst (send_plan sw tp (ts, (mt_packets tx)\<lparr>tx_packet_builder := b1\<rparr>) plan) = Ok ()"
    unfolding unflagged if_False by blast
  obtain ts1 pk where
    sp: "send_plan sw tp (ts, (mt_packets tx)\<lparr>tx_packet_builder := b1\<rparr>) plan = (Ok (), ts1, pk)"
    using live by (metis prod.collapse)
  from post [OF sp] pm sp show ?thesis by auto
qed

lemma message_send_reader_failed:
  assumes laws: "cipher_laws tp sync" "write_laws sw written" "write_live sw"
    and sy: "sync (length (full_plan data) + n) (fst s) tr0" and src: "fails_after rr e reader data"
    and b: "in_step (tx_builder (snd s)) pr" "builder_opened (tx_builder (snd s)) = None" "t \<le> TYPE_MASK"
  shows "\<exists>s' reader' pr'. message_send_reader sw tp rr s t reader = Some ((Err (Io e), s'), reader')
    \<and> posted tp sync written n (tx_half s) pr (plan_packets t (full_plan data)) (tx_half s') pr'
    \<and> in_step (tx_builder (snd s')) pr' \<and> builder_opened (tx_builder (snd s')) = Some t"
proof -
  obtain ts tx where s: "s = (ts, tx)" by force
  obtain cs where cs: "full_plan data = map (\<lambda>c. (c, False)) cs" using full_plan_flags by blast
  have l: "sync (length (full_plan data) + n) ts tr0" "in_step (tx_builder tx) pr"
    "builder_opened (tx_builder tx) = None" using sy b by (simp_all add: s)
  from unflagged_plan_posted [OF laws cs full_plan_room l b(3)] obtain b1 ts1 pk pr' where
    pm: "prepare_message (ts, mt_packets tx) t = (Ok (), ts, (mt_packets tx)\<lparr>tx_packet_builder := b1\<rparr>)"
    and sp: "send_plan sw tp (ts, (mt_packets tx)\<lparr>tx_packet_builder := b1\<rparr>) (full_plan data) = (Ok (), ts1, pk)"
    and post: "posted tp sync written n (ts, mt_packets tx) pr (plan_packets t (full_plan data)) (ts1, pk) pr'"
      "in_step (tx_packet_builder pk) pr'" "builder_opened (tx_packet_builder pk) = Some t" by blast
  from send_reader_fails [OF src, of sw tp "(ts, (mt_packets tx)\<lparr>tx_packet_builder := b1\<rparr>)"] sp obtain reader' where
    "send_reader sw tp rr (ts, (mt_packets tx)\<lparr>tx_packet_builder := b1\<rparr>) reader = Some ((Err (Io e), ts1, pk), reader')"
    by auto
  with post pm show ?thesis
    by (intro exI [of _ "(ts1, tx\<lparr>mt_packets := pk\<rparr>)"] exI [of _ reader'] exI [of _ pr'])
      (simp add: message_send_reader_def s)
qed

section \<open>Abandoning a message\<close>

lemma sent_read_error:
  assumes "read_laws sr pending" "sent tp sync written n (tx_half s) [raw] (tx_half s')"
    "sync (Suc n) (fst s) (fst r)"
    and net: "written (tx_write (mt_packets (snd s))) @ pending (rx_read (mr_packets (snd r)))
     = written (tx_write (mt_packets (snd s'))) @ rest"
    and rd: "read (rx_reader (snd r)) raw = (Err e, pr')"
  shows "\<exists>t' pk. read_packet sr tp (rx_half r) = (Err (Packet e), t', pk)"
proof -
  from assms(2,3) obtain ct where ct: "length ct \<le> 65535" "opens tp (sync n (fst s')) (fst r) ct raw"
    "written (tx_write (mt_packets (snd s'))) = written (tx_write (mt_packets (snd s))) @ frame_of ct"
    by (auto simp: sent_def length_Suc_conv)
  with net have "pending (rx_read (mr_packets (snd r))) = frame_of ct @ rest" by simp
  from read_packet_frame [OF assms(1) this ct(1,2) rd] show ?thesis by auto
qed

text \<open>The reader that has accepted an opening packet and middle ones has a message open.\<close>

lemma posted_open:
  assumes "posted tp sync written n s pr ((hdr t First, p) # map (Pair (hdr t Mid)) ps) s' pr'"
  shows "open_message pr' = Some t"
proof -
  have mids: "open_message pr' = Some t"
    if "read_all read pr raws = (Ok (map (\<lambda>_. hdr t Mid) ps), pr')" "open_message pr = Some t" for pr raws ps
    using that
  proof (induction ps arbitrary: pr raws)
    case Nil
    then show ?case by (cases raws) (auto split: prod.splits result.splits)
  next
    case (Cons q ps)
    then obtain raw raws1 pr1 where raws: "raws = raw # raws1" "read pr raw = (Ok (hdr t Mid), pr1)"
      "read_all read pr1 raws1 = (Ok (map (\<lambda>_. hdr t Mid) ps), pr')"
      by (cases raws) (auto split: prod.splits result.splits)
    have "open_message pr1 = Some t"
      using raws(2) Cons.prems(2)
      by (auto simp: read_decode read_kind_def open_message_def split: result.splits prod.splits if_splits)
    with Cons.IH [OF raws(3)] show ?case by simp
  qed
  from assms obtain raw raws1 pr1 where "read pr raw = (Ok (hdr t First), pr1)"
    "read_all read pr1 raws1 = (Ok (map (\<lambda>_. hdr t Mid) ps), pr')"
    unfolding posted_def
    by (auto simp: comp_def length_Suc_conv split: prod.splits result.splits)
  moreover from this(1) have "open_message pr1 = Some t"
    by (auto simp: read_decode read_kind_def open_message_def split: result.splits prod.splits if_splits)
  ultimately show ?thesis using mids by blast
qed

lemma plan_packets_started:
  assumes "in_step b pr" "open_message pr = Some t"
  shows "builder_opened b = Some t \<Longrightarrow> builder_started b"
  using assms by (auto simp: in_step_defs split: if_splits)

lemma message_abort_posted:
  assumes laws: "cipher_laws tp sync" "write_laws sw written" "write_live sw"
    and sy: "sync (Suc n) (fst s) tr0"
    and b: "in_step (tx_builder (snd s)) pr" "builder_opened (tx_builder (snd s)) = Some t"
  shows "\<exists>s'. message_abort sw tp s = (Ok (), s') \<and> builder_opened (tx_builder (snd s')) = None
    \<and> sent tp sync written n (tx_half s) [u16_to_be_bytes (header_word Abort t)] (tx_half s')
    \<and> (builder_started (tx_builder (snd s)) \<longrightarrow>
        (\<exists>pr'. posted tp sync written n (tx_half s) pr [(hdr t Abort, [])] (tx_half s') pr'
          \<and> in_step (tx_builder (snd s')) pr'))"
proof -
  obtain ts tx where s: "s = (ts, tx)" by force
  let ?raw = "u16_to_be_bytes (header_word Abort t)"
  let ?b = "(tx_builder tx)\<lparr>pb_buf := ?raw, pb_in_progress := False, pb_is_first := True\<rparr>"
  let ?tx = "(mt_packets tx)\<lparr>tx_packet_builder := ?b\<rparr>"
  have ab: "abort (tx_builder tx) = (Some ?raw, ?b)"
    using b(2) by (auto simp: abort_def builder_opened_def s Let_def split: if_splits)
  have sy': "sync (Suc n) ts tr0" using sy by (simp add: s)
  have fits: "length ?raw + 16 \<le> 65535" by simp
  obtain ts1 pk where ew: "encrypt_and_write sw tp (ts, ?tx) ?raw = (Ok (), ts1, pk)"
    using encrypt_and_write_live [OF laws(1,3) sy' fits] by (metis prod.collapse)
  from encrypt_and_write_sent [OF laws(1,2) sy' fits ew] have
    st: "sent tp sync written n (ts, mt_packets tx) [?raw] (ts1, pk)" "tx_packet_builder pk = ?b"
    by (simp_all add: sent_def)
  have post: "\<exists>pr'. posted tp sync written n (ts, mt_packets tx) pr [(hdr t Abort, [])] (ts1, pk) pr'
      \<and> in_step (tx_packet_builder pk) pr'" if "builder_started (tx_builder tx)"
  proof -
    from codec.abort_step [of "tx_builder tx" pr t] b that ab obtain pr' where
      "read pr ?raw = (Ok (hdr t Abort), pr')" "in_step ?b pr'" by (auto simp: s)
    with st show ?thesis by (auto simp: posted_def intro!: exI [of _ "[?raw]"])
  qed
  show ?thesis
    by (intro exI [of _ "(ts1, tx\<lparr>mt_packets := pk\<rparr>)"])
      (use st ew ab post in \<open>simp add: message_abort_def abort_message_def s builder_opened_def\<close>)
qed

text \<open>A message that has been opened on the wire can be abandoned.\<close>

lemma abort_open_posted:
  assumes laws: "cipher_laws tp sync" "write_laws sw written" "write_live sw"
    and post1: "posted tp sync written (Suc n) (tx_half s) pr pkts (tx_half s1) pr1"
    and pkts: "pkts = (hdr t First, p) # map (Pair (hdr t Mid)) ps"
    and sy: "sync (length pkts + Suc n) (fst s) tr0"
    and b1: "in_step (tx_builder (snd s1)) pr1" "builder_opened (tx_builder (snd s1)) = Some t"
  shows "\<exists>s2 pr2. message_abort sw tp s1 = (Ok (), s2)
    \<and> posted tp sync written n (tx_half s) pr (pkts @ [(hdr t Abort, [])]) (tx_half s2) pr2
    \<and> in_step (tx_builder (snd s2)) pr2 \<and> builder_opened (tx_builder (snd s2)) = None"
proof -
  have "builder_started (tx_builder (snd s1))"
    using posted_open [OF post1 [unfolded pkts]] plan_packets_started [OF b1(1) _ b1(2)] by blast
  moreover obtain tr1 where "sync (Suc n) (fst s1) tr1" using posted_ready [OF post1] sy by auto
  ultimately obtain s2 pr2 where s2: "message_abort sw tp s1 = (Ok (), s2)"
    "builder_opened (tx_builder (snd s2)) = None" "in_step (tx_builder (snd s2)) pr2"
    and post2: "posted tp sync written n (tx_half s1) pr1 [(hdr t Abort, [])] (tx_half s2) pr2"
    using message_abort_posted [OF laws _ b1] by blast
  have "posted tp sync written (length [(hdr t Abort, [] :: bytes)] + n) (tx_half s) pr pkts (tx_half s1) pr1"
    using post1 by simp
  from posted_append [OF this post2] s2 show ?thesis by blast
qed

lemma full_plan_packets:
  assumes "MAX_PACKET_SIZE \<le> length data"
  obtains p ps where "plan_packets t (full_plan data) = (hdr t First, p) # map (Pair (hdr t Mid)) ps"
proof -
  obtain p ps where plan: "full_plan data = map (\<lambda>c. (c, False)) (p # ps)"
    using full_plan_flags [of data] assms by (metis list.exhaust not_less)
  show thesis by (rule that) (unfold plan, rule plan_packets_open)
qed

lemma length_plan_packets [simp]: "length (plan_packets t plan) = length plan"
  by (simp add: plan_packets_def)

lemma abandoned_posted:
  assumes laws: "cipher_laws tp sync" "write_laws sw written" "write_live sw"
    and src: "fails_after rr e reader data" "MAX_PACKET_SIZE \<le> length data"
    and sy: "sync (length (full_plan data) + Suc n) (fst s) tr0"
    and b: "in_step (tx_builder (snd s)) pr" "builder_opened (tx_builder (snd s)) = None" "t \<le> TYPE_MASK"
  shows "\<exists>s1 reader' s2 pr2. message_send_reader sw tp rr s t reader = Some ((Err (Io e), s1), reader')
    \<and> message_abort sw tp s1 = (Ok (), s2)
    \<and> posted tp sync written n (tx_half s) pr (plan_packets t (full_plan data) @ [(hdr t Abort, [])]) (tx_half s2) pr2
    \<and> in_step (tx_builder (snd s2)) pr2 \<and> builder_opened (tx_builder (snd s2)) = None"
proof -
  from message_send_reader_failed [OF laws sy src(1) b] obtain s1 reader' pr1 where
    s1: "message_send_reader sw tp rr s t reader = Some ((Err (Io e), s1), reader')"
    and post1: "posted tp sync written (Suc n) (tx_half s) pr (plan_packets t (full_plan data)) (tx_half s1) pr1"
    and b1: "in_step (tx_builder (snd s1)) pr1" "builder_opened (tx_builder (snd s1)) = Some t" by blast
  obtain p ps where pkts: "plan_packets t (full_plan data) = (hdr t First, p) # map (Pair (hdr t Mid)) ps"
    using full_plan_packets [OF src(2)] .
  have "sync (length (plan_packets t (full_plan data)) + Suc n) (fst s) tr0" using sy by simp
  from abort_open_posted [OF laws post1 pkts this b1] s1 show ?thesis by blast
qed

section \<open>Whole links\<close>

text \<open>\<open>carried\<close>: the network has brought to the receiver \<open>r\<close> what the sender wrote between \<open>s\<close> and
  \<open>s'\<close>, and after it \<open>rest\<close>.\<close>

definition carried :: "('w \<Rightarrow> bytes) \<Rightarrow> ('r \<Rightarrow> bytes) \<Rightarrow> 't \<times> 'w MessageTx \<Rightarrow> 't \<times> 'w MessageTx
    \<Rightarrow> 't \<times> 'r MessageRx \<Rightarrow> bytes \<Rightarrow> bool" where
  "carried written pending s s' r rest \<longleftrightarrow>
     written (tx_write (mt_packets (snd s))) @ pending (rx_read (mr_packets (snd r)))
     = written (tx_write (mt_packets (snd s'))) @ rest"

lemma posted_coming:
  assumes "read_laws sr pending" "posted tp sync written n (tx_half s) (rx_reader (snd r)) pkts (tx_half s') pr'"
    "sync (length pkts + n) (fst s) (fst r)" "carried written pending s s' r rest"
  shows "coming sr pending tp (sync n (fst s')) pr' rest r pkts"
  using posted_incoming [OF assms(1,2)] assms(3,4) by (simp add: carried_def)

lemma coming_done:
  assumes "coming sr pending tp (sync n (fst s')) pr' rest r []"
    "in_step (tx_builder (snd s')) pr'" "builder_opened (tx_builder (snd s')) = None"
  shows "linked sync n s' r \<and> pending (rx_read (mr_packets (snd r))) = rest"
  using incoming_Nil [OF assms(1)] assms(2,3) by (simp add: linked_def)

text \<open>The sending end of a fresh link over the instance of theory \<open>Loopback\<close>.\<close>

definition loop_tx :: "tag_state \<times> bytes MessageTx" where
  "loop_tx = ((0, 0), message_tx_new \<lparr>tx_packet_builder = builder_new, tx_write = [], tx_write_buf = []\<rparr>)"

abbreviation loop_wire :: "tag_state \<times> bytes MessageTx \<Rightarrow> bytes" where
  "loop_wire s \<equiv> tx_write (mt_packets (snd s))"

lemma loop_linked: "linked tag_sync n loop_tx (loop_rx bs)"
  by (simp add: linked_def tag_sync_def loop_tx_def loop_rx_def message_tx_new_def message_rx_new_def in_step_new)

lemma loop_carried: "carried id id loop_tx s' (loop_rx (loop_wire s')) []"
  by (simp add: carried_def loop_tx_def loop_rx_def message_tx_new_def message_rx_new_def)

lemmas loop_laws = tag_cipher_laws list_writer_laws list_reader_laws

lemma deliver_messages:
  assumes "cipher_laws tp sync" "write_laws sw written" "read_laws sr pending"
    and "linked sync (length (all_packets ms) + n) s r" "types_ok ms"
    and "send_all sw tp s ms = (Ok (), s')" "carried written pending s s' r rest"
  shows "\<exists>r'. receive_all sr tp r (length ms) = Some (Return (Ok ms), r')
    \<and> linked sync n s' r' \<and> pending (rx_read (mr_packets (snd r'))) = rest"
proof -
  have l: "sync (length (all_packets ms) + n) (fst s) (fst r)"
    "in_step (tx_builder (snd s)) (rx_reader (snd r))" "builder_opened (tx_builder (snd s)) = None"
    using assms(4) by (simp_all add: linked_def)
  from send_all_posted [OF assms(1,2) l(1) assms(5) l(2,3), of s'] assms(6) obtain pr' where
    p: "posted tp sync written n (tx_half s) (rx_reader (snd r)) (all_packets ms) (tx_half s') pr'"
    and idle: "in_step (tx_builder (snd s')) pr'" "builder_opened (tx_builder (snd s')) = None" by blast
  from posted_coming [OF assms(3) p l(1) assms(7)]
  have "coming sr pending tp (sync n (fst s')) pr' rest r (all_packets ms @ [])" by simp
  from receive_all_coming [OF this] coming_done [OF _ idle] show ?thesis by blast
qed

lemma send_all_wire:
  assumes "cipher_laws tp sync" "write_laws sw written" "write_live sw"
    and link: "sync (length (all_packets ms) + n) (fst s) tr0" "types_ok ms" "in_step (tx_builder (snd s)) pr"
      "builder_opened (tx_builder (snd s)) = None"
  obtains s' wire where "send_all sw tp s ms = (Ok (), s')"
    "written (tx_write (mt_packets (snd s'))) = written (tx_write (mt_packets (snd s))) @ wire"
proof -
  note posts = send_all_posted [OF assms(1,2) link]
  from posts assms(3) obtain s' where s': "send_all sw tp s ms = (Ok (), s')" by (metis prod.collapse)
  with posts obtain pr' where "posted tp sync written n (tx_half s) pr (all_packets ms) (tx_half s') pr'"
    by blast
  then obtain wire where "written (tx_write (mt_packets (snd s'))) = written (tx_write (mt_packets (snd s))) @ wire"
    by (auto simp: posted_def sent_def)
  with s' show thesis by (rule that)
qed

text \<open>C5: Messages sent one after the other over an idle link are received, in order, with their
  types and their whole payloads, whatever their sizes; the link is idle again afterwards, and
  what else was in the stream is left for later reads. The cipher must have enough nonces for
  the packets.\<close>

theorem messages_delivered:
  assumes "cipher_laws tp sync" "write_laws sw written" "read_laws sr pending"
    and "linked sync (length (all_packets ms) + n) s r" "types_ok ms"
    and "send_all sw tp s ms = (Ok (), s')" "carried written pending s s' r rest"
  shows "\<exists>r'. receive_all sr tp r (length ms) = Some (Return (Ok ms), r')
    \<and> linked sync n s' r' \<and> pending (rx_read (mr_packets (snd r'))) = rest"
  using assms by (rule deliver_messages)

theorem messages_delivered_witness:
  "\<exists>s' r'. send_all list_writer tag_cipher loop_tx [(1, [10, 20]), (2, []), (4095, replicate 200000 7)] = (Ok (), s')
    \<and> receive_all list_reader tag_cipher (loop_rx (loop_wire s')) 3
        = Some (Return (Ok [(1, [10, 20]), (2, []), (4095, replicate 200000 7)]), r')"
proof -
  let ?ms = "[(1, [10, 20]), (2, []), (4095, replicate 200000 7)] :: (u16 \<times> bytes) list"
  have types: "types_ok ?ms" by (simp add: TYPE_MASK_def)
  have link: "linked tag_sync (length (all_packets ?ms) + 0) loop_tx (loop_rx bs)" for bs by (rule loop_linked)
  have "fst (send_all list_writer tag_cipher loop_tx ?ms) = Ok ()"
    using send_all_posted [OF loop_laws(1,2)] loop_laws(3) types link unfolding linked_def by blast
  then obtain s' where s': "send_all list_writer tag_cipher loop_tx ?ms = (Ok (), s')" by (metis prod.collapse)
  from messages_delivered [OF loop_laws(1,2,4) link types s' loop_carried] have
    "\<exists>r'. receive_all list_reader tag_cipher (loop_rx (loop_wire s')) (length ?ms) = Some (Return (Ok ?ms), r')"
    by blast
  moreover have "length ?ms = 3" by simp
  ultimately show ?thesis using s' by metis
qed

text \<open>C21: Sending does not fail for reasons of its own: on an idle link, with a stream that accepts
  writes, enough nonces and 12-bit message types, every message of every size is sent.\<close>

theorem messages_sent:
  assumes "cipher_laws tp sync" "write_laws sw written" "write_live sw"
    and "linked sync (length (all_packets ms) + n) s r" "types_ok ms"
  shows "fst (send_all sw tp s ms) = Ok ()"
  using send_all_posted [OF assms(1,2)] assms(3-5) unfolding linked_def by blast

theorem messages_sent_witness:
  "fst (send_all list_writer tag_cipher loop_tx [(3, [1]), (0, replicate 131034 9)]) = Ok ()"
  by (rule messages_sent [where r = "loop_rx []" and n = 0, OF loop_laws(1,2,3) loop_linked])
    (simp add: TYPE_MASK_def)

text \<open>C17: Streaming a message from a source of exactly the payload bytes, delivered in pieces of any
  size, ends and does the same as sending the payload from a slice (same result, same packets,
  same final state), when the length of the payload is not a positive multiple of
  \<open>MAX_PACKET_SIZE\<close>.\<close>

theorem send_reader_like_send_message:
  assumes "delivers rr reader data" "data = [] \<or> \<not> MAX_PACKET_SIZE dvd length data"
  shows "\<exists>reader'. message_send_reader sw tp rr s t reader = Some (send_message sw tp s t data, reader')"
  using assms by (rule message_send_reader_slice)

theorem send_reader_like_send_message_witness:
  "\<exists>reader'. message_send_reader list_writer tag_cipher (list_source 1 (Ok 0)) loop_tx 5 (replicate 70000 3)
    = Some (send_message list_writer tag_cipher loop_tx 5 (replicate 70000 3), reader')"
  by (rule send_reader_like_send_message [OF list_source_yields]) (simp add: size_defs)

text \<open>C31: When the length of the streamed payload is a positive multiple of \<open>MAX_PACKET_SIZE\<close>,
  \<open>send_reader\<close> reports success without having sent a final packet: the message stays open, and
  the next message is refused with \<open>MessageAlreadyInProgress\<close>.\<close>

theorem send_reader_multiple_unfinished:
  assumes "cipher_laws tp sync" "write_laws sw written" "write_live sw"
    and "delivers rr reader data" "data \<noteq> []" "MAX_PACKET_SIZE dvd length data"
    and "linked sync (length (chunks MAX_PACKET_SIZE data) + n) s r" "t \<le> TYPE_MASK"
  shows "\<exists>s' reader'. message_send_reader sw tp rr s t reader = Some ((Ok (), s'), reader')
    \<and> builder_opened (tx_builder (snd s')) = Some t
    \<and> (\<forall>t' payload. t' \<le> TYPE_MASK \<longrightarrow>
         fst (send_message sw tp s' t' payload) = Err (PacketBuilderErr MessageAlreadyInProgress))"
proof -
  obtain ts tx where s: "s = (ts, tx)" by force
  let ?plan = "map (\<lambda>c. (c, False)) (chunks MAX_PACKET_SIZE data)"
  have plan: "reader_plan data = ?plan"
    using assms(5,6) by (simp add: reader_plan_def drain_plan_multiple)
  have room: "room_for ?plan" using chunks_bounds [OF MAX_PACKET_SIZE_pos] by (auto simp: room_for_def)
  have l: "sync (length ?plan + n) ts (fst r)" "in_step (tx_builder tx) (rx_reader (snd r))"
    "builder_opened (tx_builder tx) = None"
    using assms(7) by (simp_all add: linked_def s)
  from unflagged_plan_posted [OF assms(1-3) refl room l assms(8)] obtain b1 ts1 pk where
    pm: "prepare_message (ts, mt_packets tx) t = (Ok (), ts, (mt_packets tx)\<lparr>tx_packet_builder := b1\<rparr>)"
    and sp: "send_plan sw tp (ts, (mt_packets tx)\<lparr>tx_packet_builder := b1\<rparr>) ?plan = (Ok (), ts1, pk)"
    and op: "builder_opened (tx_packet_builder pk) = Some t" by blast
  from send_reader_plan [OF assms(4), of sw tp "(ts, (mt_packets tx)\<lparr>tx_packet_builder := b1\<rparr>)"] sp obtain reader'
    where "send_reader sw tp rr (ts, (mt_packets tx)\<lparr>tx_packet_builder := b1\<rparr>) reader = Some ((Ok (), ts1, pk), reader')"
    unfolding plan by auto
  then have "message_send_reader sw tp rr s t reader = Some ((Ok (), ts1, tx\<lparr>mt_packets := pk\<rparr>), reader')"
    using pm by (simp add: message_send_reader_def s)
  with op show ?thesis
    by (intro exI [of _ "(ts1, tx\<lparr>mt_packets := pk\<rparr>)"] exI [of _ reader'])
      (auto simp: builder_opened_def send_message_def prepare_message_def prepare_def split: if_splits)
qed

theorem send_reader_multiple_unfinished_witness:
  "\<exists>s' reader'. message_send_reader list_writer tag_cipher (list_source 4095 (Ok 0)) loop_tx 5 (replicate 131034 0)
      = Some ((Ok (), s'), reader')
    \<and> fst (send_message list_writer tag_cipher s' 6 [1]) = Err (PacketBuilderErr MessageAlreadyInProgress)"
proof -
  have "\<exists>s' reader'. message_send_reader list_writer tag_cipher (list_source 4095 (Ok 0)) loop_tx 5 (replicate 131034 0)
      = Some ((Ok (), s'), reader') \<and> builder_opened (tx_builder (snd s')) = Some 5
    \<and> (\<forall>t' payload. t' \<le> TYPE_MASK \<longrightarrow>
         fst (send_message list_writer tag_cipher s' t' payload) = Err (PacketBuilderErr MessageAlreadyInProgress))"
    by (rule send_reader_multiple_unfinished [OF loop_laws(1-3) list_source_yields, where r = "loop_rx []" and n = 0])
      (simp_all add: size_defs loop_linked TYPE_MASK_def)
  moreover have "(6 :: u16) \<le> TYPE_MASK" by (simp add: TYPE_MASK_def)
  ultimately show ?thesis by blast
qed

text \<open>C23: A message whose source fails after at least one full packet: \<open>send_reader\<close> reports the
  error of the source, \<open>abort_message\<close> then succeeds, the receiver of the message gets
  \<open>MessageAborted\<close>, and the link is idle again, ready for the next message.\<close>

theorem failed_source_abandoned:
  assumes "cipher_laws tp sync" "write_laws sw written" "write_live sw" "read_laws sr pending"
    and "fails_after rr e reader data" "MAX_PACKET_SIZE \<le> length data"
    and "linked sync (Suc (length (full_plan data)) + n) s r" "t \<le> TYPE_MASK"
  shows "\<exists>s1 reader' s2. message_send_reader sw tp rr s t reader = Some ((Err (Io e), s1), reader')
    \<and> message_abort sw tp s1 = (Ok (), s2)
    \<and> (carried written pending s s2 r rest \<longrightarrow>
        (\<exists>r'. receive sr tp r = Some (Return (Err MessageAborted), r') \<and> linked sync n s2 r'
           \<and> pending (rx_read (mr_packets (snd r'))) = rest))"
proof -
  have l: "sync (length (full_plan data) + Suc n) (fst s) (fst r)" "in_step (tx_builder (snd s)) (rx_reader (snd r))"
    "builder_opened (tx_builder (snd s)) = None"
    using assms(7) by (simp_all add: linked_def)
  from abandoned_posted [OF assms(1-3,5,6) l assms(8)] obtain s1 reader' s2 pr2 where
    run: "message_send_reader sw tp rr s t reader = Some ((Err (Io e), s1), reader')" "message_abort sw tp s1 = (Ok (), s2)"
    and post: "posted tp sync written n (tx_half s) (rx_reader (snd r)) (plan_packets t (full_plan data) @ [(hdr t Abort, [])]) (tx_half s2) pr2"
    and idle: "in_step (tx_builder (snd s2)) pr2" "builder_opened (tx_builder (snd s2)) = None" by blast
  obtain p ps where pkts: "plan_packets t (full_plan data) = (hdr t First, p) # map (Pair (hdr t Mid)) ps"
    using full_plan_packets [OF assms(6)] .
  have "\<exists>r'. receive sr tp r = Some (Return (Err MessageAborted), r') \<and> linked sync n s2 r'
      \<and> pending (rx_read (mr_packets (snd r'))) = rest" if net: "carried written pending s s2 r rest"
  proof -
    have "sync (length (plan_packets t (full_plan data) @ [(hdr t Abort, [] :: bytes)]) + n) (fst s) (fst r)"
      using l(1) by simp
    from posted_coming [OF assms(4) post this net] pkts
    have "coming sr pending tp (sync n (fst s2)) pr2 rest r
        ((hdr t First, p) # map (Pair (hdr t Mid)) ps @ [(hdr t Abort, [])])" by simp
    from receive_aborted [OF this] coming_done [where sync = sync and n = n and s' = s2, OF _ idle] show ?thesis by blast
  qed
  with run show ?thesis by blast
qed

theorem failed_source_abandoned_witness:
  "\<exists>s1 reader' s2 r'.
      message_send_reader list_writer tag_cipher (list_source 99 (Err ''broken'')) loop_tx 5 (replicate 70000 0)
        = Some ((Err (Io ''broken''), s1), reader')
    \<and> message_abort list_writer tag_cipher s1 = (Ok (), s2)
    \<and> receive list_reader tag_cipher (loop_rx (loop_wire s2)) = Some (Return (Err MessageAborted), r')"
proof -
  let ?P = "\<lambda>bs rest. \<exists>s1 reader' s2.
      message_send_reader list_writer tag_cipher (list_source 99 (Err ''broken'')) loop_tx 5 (replicate 70000 0)
        = Some ((Err (Io ''broken''), s1), reader')
    \<and> message_abort list_writer tag_cipher s1 = (Ok (), s2)
    \<and> (carried id id loop_tx s2 (loop_rx bs) rest \<longrightarrow>
        (\<exists>r'. receive list_reader tag_cipher (loop_rx bs) = Some (Return (Err MessageAborted), r')
           \<and> linked tag_sync 0 s2 r' \<and> id (rx_read (mr_packets (snd r'))) = rest))"
  have P: "?P bs rest" for bs rest
    by (rule failed_source_abandoned [OF loop_laws list_source_yields])
      (simp_all add: size_defs loop_linked TYPE_MASK_def)
  from P [of "[]" "[]"] obtain s1 reader' s2 where
    run: "message_send_reader list_writer tag_cipher (list_source 99 (Err ''broken'')) loop_tx 5 (replicate 70000 0)
        = Some ((Err (Io ''broken''), s1), reader')" "message_abort list_writer tag_cipher s1 = (Ok (), s2)" by blast
  with P [of "loop_wire s2" "[]"] loop_carried [of s2] show ?thesis by auto
qed

text \<open>C32: When the source fails before the first packet has left, the speculative \<open>abort_message\<close> that
  is documented as safe sends an abort packet for a message the receiver has never seen, and the
  receiver fails with \<open>MissingMessageStart\<close>.\<close>

theorem early_abort_rejected:
  assumes "cipher_laws tp sync" "write_laws sw written" "write_live sw" "read_laws sr pending"
    and "fails_after rr e reader data" "length data < MAX_PACKET_SIZE"
    and "linked sync (Suc n) s r" "t \<le> TYPE_MASK"
  shows "\<exists>s1 reader' s2. message_send_reader sw tp rr s t reader = Some ((Err (Io e), s1), reader')
    \<and> message_abort sw tp s1 = (Ok (), s2)
    \<and> (carried written pending s s2 r rest \<longrightarrow>
        (\<exists>r'. receive sr tp r = Some (Return (Err (Packet (MissingMessageStart t))), r')))"
proof -
  have none: "full_plan data = []" by (rule full_plan_short [OF assms(6)])
  have l: "sync (length (full_plan data) + Suc n) (fst s) (fst r)" "in_step (tx_builder (snd s)) (rx_reader (snd r))"
    "builder_opened (tx_builder (snd s)) = None"
    using assms(7) by (simp_all add: linked_def none)
  from message_send_reader_failed [OF assms(1-3) l(1) assms(5) l(2,3) assms(8)] obtain s1 reader' pr1 where
    s1: "message_send_reader sw tp rr s t reader = Some ((Err (Io e), s1), reader')"
    and post1: "posted tp sync written (Suc n) (tx_half s) (rx_reader (snd r)) [] (tx_half s1) pr1"
    and b1: "in_step (tx_builder (snd s1)) pr1" "builder_opened (tx_builder (snd s1)) = Some t"
    by (auto simp: none plan_packets_def)
  from posted_ready [OF post1] l(1) obtain tr1 where "sync (Suc n) (fst s1) tr1" by (auto simp: none)
  from message_abort_posted [OF assms(1-3) this b1] obtain s2 where
    s2: "message_abort sw tp s1 = (Ok (), s2)"
    and st2: "sent tp sync written n (tx_half s1) [u16_to_be_bytes (header_word Abort t)] (tx_half s2)" by blast
  have st1: "sent tp sync written (length [u16_to_be_bytes (header_word Abort t)] + n) (tx_half s) [] (tx_half s1)"
    using post1 by (simp add: posted_def)
  have st: "sent tp sync written n (tx_half s) [u16_to_be_bytes (header_word Abort t)] (tx_half s2)"
    using sent_append [OF st1 st2] by simp
  have idle: "\<not> pr_in_progress (rx_reader (snd r))"
    using l(2,3) by (auto simp: in_step_defs split: if_splits)
  have rd: "read (rx_reader (snd r)) (u16_to_be_bytes (header_word Abort t)) = (Err (MissingMessageStart t), rx_reader (snd r))"
    using assms(8) idle by (simp add: read_kind_def)
  have "\<exists>r'. receive sr tp r = Some (Return (Err (Packet (MissingMessageStart t))), r')"
    if net: "carried written pending s s2 r rest"
  proof -
    have sy: "sync (Suc n) (fst s) (fst r)" using l(1) none by simp
    obtain t' pk where "read_packet sr tp (rx_half r) = (Err (Packet (MissingMessageStart t)), t', pk)"
      using sent_read_error [OF assms(4) st sy net [unfolded carried_def] rd] by blast
    then show ?thesis by (cases r) (simp add: receive_def read_message_def)
  qed
  with s1 s2 show ?thesis by blast
qed

theorem early_abort_rejected_witness:
  "\<exists>s1 reader' s2 r'.
      message_send_reader list_writer tag_cipher (list_source 0 (Err ''broken'')) loop_tx 5 [1, 2, 3]
        = Some ((Err (Io ''broken''), s1), reader')
    \<and> message_abort list_writer tag_cipher s1 = (Ok (), s2)
    \<and> receive list_reader tag_cipher (loop_rx (loop_wire s2)) = Some (Return (Err (Packet (MissingMessageStart 5))), r')"
proof -
  have P: "\<exists>s1 reader' s2.
      message_send_reader list_writer tag_cipher (list_source 0 (Err ''broken'')) loop_tx 5 [1, 2, 3]
        = Some ((Err (Io ''broken''), s1), reader')
    \<and> message_abort list_writer tag_cipher s1 = (Ok (), s2)
    \<and> (carried id id loop_tx s2 (loop_rx bs) rest \<longrightarrow>
        (\<exists>r'. receive list_reader tag_cipher (loop_rx bs) = Some (Return (Err (Packet (MissingMessageStart 5))), r')))"
    for bs rest
    by (rule early_abort_rejected [OF loop_laws list_source_yields, where n = 0])
      (simp_all add: size_defs loop_linked TYPE_MASK_def)
  from P [of "[]" "[]"] obtain s1 reader' s2 where
    run: "message_send_reader list_writer tag_cipher (list_source 0 (Err ''broken'')) loop_tx 5 [1, 2, 3]
        = Some ((Err (Io ''broken''), s1), reader')" "message_abort list_writer tag_cipher s1 = (Ok (), s2)" by blast
  with P [of "loop_wire s2" "[]"] loop_carried [of s2] show ?thesis by auto
qed

text \<open>C33: A \<open>Message\<close> handle that is dropped unread leaves the rest of its packets in the stream.
  After a first message of two packets has been dropped, \<open>read_message\<close> returns its last packet
  as if it opened a message, and \<open>read_bytes\<close> on that handle reaches \<open>unreachable!\<close> at the next
  message.\<close>

theorem dropped_message_panics:
  assumes "cipher_laws tp sync" "write_laws sw written" "read_laws sr pending"
    and "linked sync (length (all_packets [(t, d), (u, x)]) + n) s r" "t \<le> TYPE_MASK" "u \<le> TYPE_MASK"
    and "MAX_PACKET_SIZE < length d" "length d \<le> 2 * MAX_PACKET_SIZE" "length x \<le> MAX_PACKET_SIZE"
    and "send_all sw tp s [(t, d), (u, x)] = (Ok (), s')" "carried written pending s s' r rest"
  shows "\<exists>m1 r1 m2 r2 r3. read_message sr tp r = (Ok m1, r1) \<and> read_message sr tp r1 = (Ok m2, r2)
    \<and> read_bytes sr tp m2 r2 = Some (Panic, r3)"
proof -
  have types: "types_ok [(t, d), (u, x)]" using assms(5,6) by simp
  have l: "sync (length (all_packets [(t, d), (u, x)]) + n) (fst s) (fst r)"
    "in_step (tx_builder (snd s)) (rx_reader (snd r))" "builder_opened (tx_builder (snd s)) = None"
    using assms(4) by (simp_all add: linked_def)
  from send_all_posted [OF assms(1,2) l(1) types l(2,3), of s'] assms(10) obtain pr' where
    p: "posted tp sync written n (tx_half s) (rx_reader (snd r)) (all_packets [(t, d), (u, x)]) (tx_half s') pr'"
    by blast
  have pkts: "all_packets [(t, d), (u, x)]
      = [(hdr t First, take MAX_PACKET_SIZE d), (hdr t Last, drop MAX_PACKET_SIZE d), (hdr u Sole, x)]"
    using two_packets [OF assms(7,8), of t] one_packet [OF assms(9), of u] by simp
  from posted_coming [OF assms(3) p l(1) assms(11)] have
    c: "coming sr pending tp (sync n (fst s')) pr' rest r
      [(hdr t First, take MAX_PACKET_SIZE d), (hdr t Last, drop MAX_PACKET_SIZE d), (hdr u Sole, x)]"
    by (simp only: pkts)
  from read_message_coming [OF c] obtain r1 where
    r1: "read_message sr tp r = (Ok \<lparr>first_header = hdr t First\<rparr>, r1)"
    and c1: "coming sr pending tp (sync n (fst s')) pr' rest r1 [(hdr t Last, drop MAX_PACKET_SIZE d), (hdr u Sole, x)]"
    by blast
  from read_message_coming [OF c1] obtain r2 where
    r2: "read_message sr tp r1 = (Ok \<lparr>first_header = hdr t Last\<rparr>, r2)"
    and c2: "coming sr pending tp (sync n (fst s')) pr' rest r2 [(hdr u Sole, x)]" by blast
  from read_packet_incoming [OF c2] obtain t3 pk where
    "read_packet sr tp (rx_half r2) = (Ok (hdr u Sole), t3, pk)" by auto
  then have "\<exists>r3. read_bytes sr tp \<lparr>first_header = hdr t Last\<rparr> r2 = Some (Panic, r3)"
    by (cases r2) (simp add: read_bytes_def Let_def read_bytes_loop.simps [of _ _ "(_, _)"])
  with r1 r2 show ?thesis by blast
qed

theorem dropped_message_panics_witness:
  "\<exists>s' m1 r1 m2 r2 r3. send_all list_writer tag_cipher loop_tx [(1, replicate 70000 0), (2, [5])] = (Ok (), s')
    \<and> read_message list_reader tag_cipher (loop_rx (loop_wire s')) = (Ok m1, r1)
    \<and> read_message list_reader tag_cipher r1 = (Ok m2, r2)
    \<and> read_bytes list_reader tag_cipher m2 r2 = Some (Panic, r3)"
proof -
  let ?ms = "[(1, replicate 70000 0), (2, [5])] :: (u16 \<times> bytes) list"
  have types: "types_ok ?ms" by (simp add: TYPE_MASK_def)
  have link: "linked tag_sync (length (all_packets ?ms) + 0) loop_tx (loop_rx bs)" for bs by (rule loop_linked)
  have "fst (send_all list_writer tag_cipher loop_tx ?ms) = Ok ()"
    using send_all_posted [OF loop_laws(1,2)] loop_laws(3) types link unfolding linked_def by blast
  then obtain s' where s': "send_all list_writer tag_cipher loop_tx ?ms = (Ok (), s')" by (metis prod.collapse)
  have "\<exists>m1 r1 m2 r2 r3. read_message list_reader tag_cipher (loop_rx (loop_wire s')) = (Ok m1, r1)
      \<and> read_message list_reader tag_cipher r1 = (Ok m2, r2) \<and> read_bytes list_reader tag_cipher m2 r2 = Some (Panic, r3)"
    by (rule dropped_message_panics [OF loop_laws(1,2,4) link _ _ _ _ _ s' loop_carried])
      (simp_all add: TYPE_MASK_def size_defs)
  with s' show ?thesis by blast
qed

section \<open>A peer that does not use the packet builder\<close>

text \<open>A peer with the session keys can seal and send any bytes as packets.\<close>

fun write_raws :: "'w stream_writer \<Rightarrow> 't transport_lib \<Rightarrow> 't \<times> 'w PacketTx \<Rightarrow> bytes list
    \<Rightarrow> (unit, ConnectionError) result \<times> 't \<times> 'w PacketTx" where
  "write_raws sw tp s [] = (Ok (), s)"
| "write_raws sw tp s (raw # raws) =
     (case encrypt_and_write sw tp s raw of
        (Err e, s) \<Rightarrow> (Err e, s)
      | (Ok _, s) \<Rightarrow> write_raws sw tp s raws)"

lemma write_raws_sent:
  assumes "cipher_laws tp sync" "write_laws sw written"
  shows "sync (length raws + n) (fst s) tr \<Longrightarrow> \<forall>raw \<in> set raws. length raw + 16 \<le> 65535 \<Longrightarrow>
    write_raws sw tp s raws = (Ok (), s') \<Longrightarrow> sent tp sync written n s raws s'"
proof (induction raws arbitrary: s tr)
  case Nil
  then show ?case by (simp add: sent_def)
next
  case (Cons raw raws)
  obtain ts tx where s: "s = (ts, tx)" by force
  from Cons.prems(3) obtain s1 where s1: "encrypt_and_write sw tp (ts, tx) raw = (Ok (), s1)"
    "write_raws sw tp s1 raws = (Ok (), s')"
    by (auto simp: s split: prod.splits result.splits)
  have sy: "sync (Suc (length raws + n)) ts tr" using Cons.prems(1) by (simp add: s)
  have one: "sent tp sync written (length raws + n) s [raw] s1"
    using encrypt_and_write_sent [OF assms sy _ s1(1)] Cons.prems(2) by (simp add: s)
  with sent_ready [OF this] sy obtain tr1 where "sync (length raws + n) (fst s1) tr1" by (auto simp: s)
  from Cons.IH [OF this _ s1(2)] Cons.prems(2) have "sent tp sync written n s1 raws s'" by simp
  from sent_append [OF one this] show ?case by simp
qed

lemma write_raws_live:
  assumes "cipher_laws tp sync" "write_laws sw written" "write_live sw"
  shows "sync (length raws + n) (fst s) tr \<Longrightarrow> \<forall>raw \<in> set raws. length raw + 16 \<le> 65535 \<Longrightarrow>
    fst (write_raws sw tp s raws) = Ok ()"
proof (induction raws arbitrary: s tr)
  case (Cons raw raws)
  obtain ts tx where s: "s = (ts, tx)" by force
  have sy: "sync (Suc (length raws + n)) ts tr" using Cons.prems(1) by (simp add: s)
  obtain s1 where s1: "encrypt_and_write sw tp (ts, tx) raw = (Ok (), s1)"
    using encrypt_and_write_live [OF assms(1,3) sy, of raw tx] Cons.prems(2) by (metis list.set_intros(1) prod.collapse)
  then have "sent tp sync written (length raws + n) s [raw] s1"
    using encrypt_and_write_sent [OF assms(1,2) sy _ s1] Cons.prems(2) by (simp add: s)
  with sent_ready [OF this] sy obtain tr1 where "sync (length raws + n) (fst s1) tr1" by (auto simp: s)
  with Cons.IH [of s1 tr1] Cons.prems(2) s1 show ?case by (simp add: s)
qed simp

text \<open>What is on its way to a receiver, whatever its reader will say of it.\<close>

definition raw_coming :: "('r \<Rightarrow> bytes) \<Rightarrow> 't transport_lib \<Rightarrow> ('t \<Rightarrow> bool) \<Rightarrow> bytes \<Rightarrow> 't \<times> 'r PacketRx \<Rightarrow> bytes list \<Rightarrow> bool" where
  "raw_coming pending tp Q rest s raws \<longleftrightarrow>
     (\<exists>cts. length cts = length raws \<and> (\<forall>ct \<in> set cts. length ct \<le> 65535)
        \<and> pending (rx_read (snd s)) = concat (map frame_of cts) @ rest
        \<and> opens_all tp Q (zip cts raws) (fst s))"

lemma read_packet_raw:
  assumes "read_laws sr pending" "raw_coming pending tp Q rest s (raw # raws)"
    and rd: "read (rx_packet_reader (snd s)) raw = (res, pr)"
  shows "\<exists>s'. read_packet sr tp s = (map_err Packet res, s') \<and> rx_packet_reader (snd s') = pr
    \<and> raw_coming pending tp Q rest s' raws"
proof -
  obtain tr rx where s: "s = (tr, rx)" by force
  from assms(2) obtain ct cts where c: "length cts = length raws" "length ct \<le> 65535" "\<forall>ct \<in> set cts. length ct \<le> 65535"
    "pending (rx_read rx) = frame_of ct @ (concat (map frame_of cts) @ rest)"
    "opens tp (opens_all tp Q (zip cts raws)) tr ct raw"
    by (auto simp: raw_coming_def s length_Suc_conv)
  from read_packet_frame [OF assms(1) c(4,2,5), of res pr] rd obtain tr' rx' where
    "read_packet sr tp s = (map_err Packet res, tr', rx')" "rx_packet_reader rx' = pr"
    "pending (rx_read rx') = concat (map frame_of cts) @ rest" "opens_all tp Q (zip cts raws) tr'"
    by (auto simp: s)
  with c(1,3) show ?thesis by (auto simp: raw_coming_def)
qed

lemma written_raw_coming:
  assumes "sent tp sync written n (tx_half s) raws (tx_half s')" "sync (length raws + n) (fst s) (fst r)"
    and "carried written pending s s' r rest"
  shows "raw_coming pending tp (sync n (fst s')) rest (rx_half r) raws"
  using assms by (auto simp: sent_def raw_coming_def carried_def)

abbreviation packed :: "PacketKind \<Rightarrow> u16 \<Rightarrow> bytes \<Rightarrow> bytes" where
  "packed k t p \<equiv> u16_to_be_bytes (header_word k t) @ p"

text \<open>C34: A peer can crash a receiver that goes on after an error. It opens a message, sends a packet with
  a header that does not decode, closes the message and sends another one, all sealed with the keys
  of the session. The receiver gets the error of the second packet and is left inside the message;
  reading the next message then takes the closing packet for its start and reaches \<open>unreachable!\<close>.\<close>

theorem error_inside_message_panics:
  assumes "cipher_laws tp sync" "write_laws sw written" "read_laws sr pending"
    and "linked sync (4 + n) s r" "t \<le> TYPE_MASK" "u \<le> TYPE_MASK" "decode_header bad = Err e"
    and "\<forall>raw \<in> set [packed First t p, bad, packed Last t q, packed Sole u x]. length raw + 16 \<le> 65535"
    and "write_raws sw tp (tx_half s) [packed First t p, bad, packed Last t q, packed Sole u x] = (Ok (), tx_half s')"
    and "carried written pending s s' r rest"
  shows "\<exists>r1 r2. receive sr tp r = Some (Return (Err (Packet e)), r1) \<and> receive sr tp r1 = Some (Panic, r2)"
proof -
  let ?Q = "sync n (fst s')" and ?raws = "[packed First t p, bad, packed Last t q, packed Sole u x]"
  have sy: "sync (length ?raws + n) (fst s) (fst r)" and idle: "receiver_idle (snd r)"
    using assms(4) by (auto simp: linked_def in_step_defs eval_nat_numeral split: if_splits)
  have "sent tp sync written n (tx_half s) ?raws (tx_half s')"
    by (rule write_raws_sent [OF assms(1,2) _ assms(8,9)]) (use sy in simp)
  from written_raw_coming [OF this sy assms(10)] have
    c0: "raw_coming pending tp ?Q rest (rx_half r) ?raws" .
  have rd: "read (rx_reader (snd r)) (packed First t p) = (Ok (hdr t First), \<lparr>pr_in_progress = True, pr_msg_type = t\<rparr>)"
    using idle assms(5) by (simp add: read_kind_def)
  from read_packet_raw [OF assms(3) c0] rd obtain s1 where
    s1: "read_packet sr tp (rx_half r) = (Ok (hdr t First), s1)" "rx_packet_reader (snd s1) = \<lparr>pr_in_progress = True, pr_msg_type = t\<rparr>"
    and c1: "raw_coming pending tp ?Q rest s1 [bad, packed Last t q, packed Sole u x]" by auto
  from read_packet_raw [OF assms(3) c1] assms(7) obtain s2 where
    s2: "read_packet sr tp s1 = (Err (Packet e), s2)" "rx_packet_reader (snd s2) = \<lparr>pr_in_progress = True, pr_msg_type = t\<rparr>"
    and c2: "raw_coming pending tp ?Q rest s2 [packed Last t q, packed Sole u x]" by (auto simp: read_decode s1(2))
  from read_packet_raw [OF assms(3) c2] assms(5) obtain s3 where
    s3: "read_packet sr tp s2 = (Ok (hdr t Last), s3)" "\<not> pr_in_progress (rx_packet_reader (snd s3))"
    and c3: "raw_coming pending tp ?Q rest s3 [packed Sole u x]" by (auto simp: s2(2) read_kind_def)
  from read_packet_raw [OF assms(3) c3] s3(2) assms(6) obtain s4 where
    s4: "read_packet sr tp s3 = (Ok (hdr u Sole), s4)" by (auto simp: read_kind_def)
  obtain r1 where r1: "receive sr tp r = Some (Return (Err (Packet e)), r1)" "rx_half r1 = s2"
    using s1(1) s2(1) by (cases r; cases s1; cases s2)
      (auto simp: receive_def read_message_def read_bytes_def Let_def read_bytes_loop.simps [of _ _ "(_, _)"])
  moreover have "\<exists>r2. receive sr tp r1 = Some (Panic, r2)"
    using s3(1) s4 r1(2) by (cases r1; cases s3; cases s4)
      (auto simp: receive_def read_message_def read_bytes_def Let_def read_bytes_loop.simps [of _ _ "(_, _)"])
  ultimately show ?thesis by blast
qed

theorem error_inside_message_panics_witness:
  "\<exists>r r1 r2. receive list_reader tag_cipher r = Some (Return (Err (Packet (UnknownKind 15))), r1)
    \<and> receive list_reader tag_cipher r1 = Some (Panic, r2)"
proof -
  let ?raws = "[packed First 5 [1], [0xFF, 0xFF], packed Last 5 [2], packed Sole 6 [3]] :: bytes list"
  have fits: "\<forall>raw \<in> set ?raws. length raw + 16 \<le> 65535" by simp
  have "tag_sync (length ?raws + 0) (fst (tx_half loop_tx)) (fst (loop_rx []))"
    by (simp add: tag_sync_def loop_tx_def loop_rx_def)
  from write_raws_live [OF loop_laws(1-3) this fits] obtain ts pk where
    w: "write_raws list_writer tag_cipher (tx_half loop_tx) ?raws = (Ok (), tx_half (ts, message_tx_new pk))"
    by (cases "write_raws list_writer tag_cipher (tx_half loop_tx) ?raws")
      (auto simp: message_tx_new_def)
  have types: "(5 :: u16) \<le> TYPE_MASK" "(6 :: u16) \<le> TYPE_MASK" by (simp_all add: TYPE_MASK_def)
  have "decode_header [0xFF, 0xFF] = Err (UnknownKind 15)" by code_simp
  from error_inside_message_panics [OF loop_laws(1,2,4) loop_linked types this fits w loop_carried] show ?thesis by blast
qed

end
