(* ===== verification/Handshake.thy ===== *)
theory Handshake
  imports Delivery
begin

text \<open>
  Model of the handshake half of \<open>src/packets.rs\<close> (\<open>HandshakeContext\<close>, \<open>accept\<close>, \<open>connect\<close>) and
  of the entry points \<open>accept\<close> and \<open>connect\<close> of \<open>src/lib.rs\<close>.

  The \<open>snow\<close> handshake state, the duplex stream and its \<open>split\<close> are arguments (\<open>handshake_lib\<close>,
  collected with the other libraries in \<open>libs\<close>). A body of \<open>accept\<close> or \<open>connect\<close> is a sequence of
  calls on the handshake context, each of which may fail and end it; \<open>try_then\<close> is the \<open>?\<close>
  operator over that state. The body returns its context as well, so that what has been written
  to the stream when it failed can be spoken about. The timer is an argument too: how long the
  body takes, \<open>None\<close> if it never finishes.
\<close>

section \<open>Library interfaces\<close>

record ('hs, 't) handshake_lib =
  hl_build_initiator :: "string \<Rightarrow> bytes \<Rightarrow> ('hs, snow_error) result"
  hl_build_responder :: "string \<Rightarrow> bytes \<Rightarrow> ('hs, snow_error) result"
  hl_write_message :: "'hs \<Rightarrow> bytes \<Rightarrow> bytes \<Rightarrow> (nat, snow_error) result \<times> bytes \<times> 'hs"
  hl_read_message :: "'hs \<Rightarrow> bytes \<Rightarrow> bytes \<Rightarrow> (nat, snow_error) result \<times> bytes \<times> 'hs"
  hl_get_remote_static :: "'hs \<Rightarrow> bytes option"
  hl_into_transport_mode :: "'hs \<Rightarrow> ('t, snow_error) result"

record ('hs, 't, 's, 'r, 'w, 'fb, 'fp, 'sk, 'vk, 'sg) libs =
  lb_noise :: "('hs, 't) handshake_lib"
  lb_reader :: "'s stream_reader"
  lb_writer :: "'s stream_writer"
  lb_split :: "'s \<Rightarrow> 'r \<times> 'w"
  lb_yatlv :: "('fb, 'fp) yatlv_lib"
  lb_ed25519 :: "('sk, 'vk, 'sg) ed25519_lib"

definition NOISE_PARAMS :: string where
  "NOISE_PARAMS = ''Noise_XX_25519_AESGCM_BLAKE2b''"

text \<open>Milliseconds.\<close>

definition HANDSHAKE_TIMEOUT :: nat where
  "HANDSHAKE_TIMEOUT = 10000"

section \<open>The handshake context\<close>

record ('hs, 's) HandshakeContext =
  hc_handshake :: 'hs
  hc_frame :: bytes
  hc_noise_buf :: bytes
  hc_stream :: 's

definition new_context :: "'hs \<Rightarrow> 's \<Rightarrow> ('hs, 's) HandshakeContext" where
  "new_context handshake stream =
     \<lparr>hc_handshake = handshake, hc_frame = [],
      hc_noise_buf = replicate (FRAME_HEADER_SIZE + MAX_CIPHERTEXT_SIZE) 0, hc_stream = stream\<rparr>"

definition new_initiator :: "('hs, 't) handshake_lib \<Rightarrow> 's \<Rightarrow> TransportPrivateKey
    \<Rightarrow> (('hs, 's) HandshakeContext, ConnectionError) result" where
  "new_initiator hl stream local_private =
     (case hl_build_initiator hl NOISE_PARAMS (tpriv_expose local_private) of
        Err e \<Rightarrow> Err (Noise e)
      | Ok handshake \<Rightarrow> Ok (new_context handshake stream))"

definition new_responder :: "('hs, 't) handshake_lib \<Rightarrow> 's \<Rightarrow> TransportPrivateKey
    \<Rightarrow> (('hs, 's) HandshakeContext, ConnectionError) result" where
  "new_responder hl stream local_private =
     (case hl_build_responder hl NOISE_PARAMS (tpriv_expose local_private) of
        Err e \<Rightarrow> Err (Noise e)
      | Ok handshake \<Rightarrow> Ok (new_context handshake stream))"

definition recv :: "('hs, 't) handshake_lib \<Rightarrow> 's stream_reader \<Rightarrow> ('hs, 's) HandshakeContext
    \<Rightarrow> (bytes, ConnectionError) result \<times> ('hs, 's) HandshakeContext" where
  "recv hl sr hs =
     (case read_frame sr (hc_stream hs) (hc_frame hs) of
        (Err e, frame, stream) \<Rightarrow> (Err e, hs\<lparr>hc_frame := frame, hc_stream := stream\<rparr>)
      | (Ok _, frame, stream) \<Rightarrow>
          (case hl_read_message hl (hc_handshake hs) frame (hc_noise_buf hs) of
             (r, noise_buf, handshake) \<Rightarrow>
               (let hs = hs\<lparr>hc_frame := frame, hc_stream := stream, hc_noise_buf := noise_buf,
                            hc_handshake := handshake\<rparr>
                in case r of
                     Err e \<Rightarrow> (Err (Noise e), hs)
                   | Ok n \<Rightarrow> (Ok (take n noise_buf), hs))))"

definition send :: "('hs, 't) handshake_lib \<Rightarrow> 's stream_writer \<Rightarrow> ('hs, 's) HandshakeContext \<Rightarrow> bytes
    \<Rightarrow> (unit, ConnectionError) result \<times> ('hs, 's) HandshakeContext" where
  "send hl sw hs pl =
     (case hl_write_message hl (hc_handshake hs) pl (drop FRAME_HEADER_SIZE (hc_noise_buf hs)) of
        (Err e, ciph, handshake) \<Rightarrow>
          (Err (Noise e), hs\<lparr>hc_handshake := handshake,
             hc_noise_buf := take FRAME_HEADER_SIZE (hc_noise_buf hs) @ ciph\<rparr>)
      | (Ok n, ciph, handshake) \<Rightarrow>
          (let noise_buf = u16_to_be_bytes (of_nat n) @ ciph;
               hs = hs\<lparr>hc_handshake := handshake, hc_noise_buf := noise_buf\<rparr>
           in case sw_write_all sw (hc_stream hs) (take (FRAME_HEADER_SIZE + n) noise_buf) of
                (Err e, stream) \<Rightarrow> (Err (Io e), hs\<lparr>hc_stream := stream\<rparr>)
              | (Ok _, stream) \<Rightarrow>
                  (case sw_flush sw stream of
                     (r, stream) \<Rightarrow> (map_err Io r, hs\<lparr>hc_stream := stream\<rparr>))))"

definition remote_static :: "('hs, 't) handshake_lib \<Rightarrow> ('hs, 's) HandshakeContext
    \<Rightarrow> (TransportPublicKey, ConnectionError) result" where
  "remote_static hl hs =
     (case hl_get_remote_static hl (hc_handshake hs) of
        None \<Rightarrow> Err MissingRemoteStatic
      | Some raw \<Rightarrow>
          (case try_into_array32 raw of
             None \<Rightarrow> Err RemoteStaticKeyLength
           | Some arr \<Rightarrow> Ok (TransportPublicKey arr)))"

definition into_split :: "('hs, 't) handshake_lib \<Rightarrow> ('s \<Rightarrow> 'r \<times> 'w) \<Rightarrow> ('hs, 's) HandshakeContext
    \<Rightarrow> ('t \<times> 'w PacketTx \<times> 'r PacketRx, ConnectionError) result" where
  "into_split hl split hs =
     (case hl_into_transport_mode hl (hc_handshake hs) of
        Err e \<Rightarrow> Err (Noise e)
      | Ok state \<Rightarrow>
          (case split (hc_stream hs) of
             (rd, wr) \<Rightarrow>
               Ok (state,
                   \<lparr>tx_packet_builder = builder_new, tx_write = wr, tx_write_buf = []\<rparr>,
                   \<lparr>rx_packet_reader = reader_new, rx_read = rd, rx_ciphertext_buf = hc_frame hs,
                    rx_plaintext_buf = hc_noise_buf hs, rx_payload_end = 0\<rparr>)))"

section \<open>Entry points\<close>

text \<open>The \<open>?\<close> operator on a call that works on the context.\<close>

definition try_then :: "('a, 'e) result \<times> 'c \<Rightarrow> ('a \<Rightarrow> 'c \<Rightarrow> ('b, 'e) result \<times> 'c)
    \<Rightarrow> ('b, 'e) result \<times> 'c" where
  "try_then r k = (case r of (Err e, c) \<Rightarrow> (Err e, c) | (Ok a, c) \<Rightarrow> k a c)"

text \<open>What both sides do with the peer's payload: \<open>verify_raw\<close>, then \<open>validate_public_key\<close> against
  the static key of the session.\<close>

definition check_peer :: "('hs, 't, 's, 'r, 'w, 'fb, 'fp, 'sk, 'vk, 'sg) libs
    \<Rightarrow> 'vk SignatureVerificationKey \<Rightarrow> bytes \<Rightarrow> ('hs, 's) HandshakeContext
    \<Rightarrow> (AuthHeader, ConnectionError) result" where
  "check_peer lb verification_key pl hs =
     (case verify_raw (lb_yatlv lb) (lb_ed25519 lb) verification_key pl of
        Err e \<Rightarrow> Err (BadAuthErr e)
      | Ok remote_auth_header \<Rightarrow>
          (case remote_static (lb_noise lb) hs of
             Err e \<Rightarrow> Err e
           | Ok key \<Rightarrow>
               (case validate_public_key remote_auth_header key of
                  Err e \<Rightarrow> Err (BadAuthErr e)
                | Ok _ \<Rightarrow> Ok remote_auth_header)))"

definition finish :: "('hs, 't, 's, 'r, 'w, 'fb, 'fp, 'sk, 'vk, 'sg) libs \<Rightarrow> AuthHeader
    \<Rightarrow> ('hs, 's) HandshakeContext
    \<Rightarrow> (('t \<times> 'w PacketTx \<times> 'r PacketRx) \<times> AuthDetails, ConnectionError) result \<times> ('hs, 's) HandshakeContext" where
  "finish lb remote_auth_header hs =
     (let details = AuthDetails_from remote_auth_header in
      case into_split (lb_noise lb) (lb_split lb) hs of
        Err e \<Rightarrow> (Err e, hs)
      | Ok halves \<Rightarrow> (Ok (halves, details), hs))"

definition accept_steps :: "('hs, 't, 's, 'r, 'w, 'fb, 'fp, 'sk, 'vk, 'sg) libs
    \<Rightarrow> SignedAuthHeader \<Rightarrow> 'vk SignatureVerificationKey \<Rightarrow> ('hs, 's) HandshakeContext
    \<Rightarrow> (('t \<times> 'w PacketTx \<times> 'r PacketRx) \<times> AuthDetails, ConnectionError) result \<times> ('hs, 's) HandshakeContext" where
  "accept_steps lb local_auth_header verification_key hs =
     try_then (recv (lb_noise lb) (lb_reader lb) hs) (\<lambda>_ hs.
     try_then (send (lb_noise lb) (lb_writer lb) hs (sah_expose local_auth_header)) (\<lambda>_ hs.
     try_then (recv (lb_noise lb) (lb_reader lb) hs) (\<lambda>pl hs.
     try_then (check_peer lb verification_key pl hs, hs) (\<lambda>remote_auth_header hs.
     finish lb remote_auth_header hs))))"

definition connect_steps :: "('hs, 't, 's, 'r, 'w, 'fb, 'fp, 'sk, 'vk, 'sg) libs
    \<Rightarrow> SignedAuthHeader \<Rightarrow> 'vk SignatureVerificationKey \<Rightarrow> ('hs, 's) HandshakeContext
    \<Rightarrow> (('t \<times> 'w PacketTx \<times> 'r PacketRx) \<times> AuthDetails, ConnectionError) result \<times> ('hs, 's) HandshakeContext" where
  "connect_steps lb local_auth_header verification_key hs =
     try_then (send (lb_noise lb) (lb_writer lb) hs []) (\<lambda>_ hs.
     try_then (recv (lb_noise lb) (lb_reader lb) hs) (\<lambda>pl hs.
     try_then (check_peer lb verification_key pl hs, hs) (\<lambda>remote_auth_header hs.
     try_then (send (lb_noise lb) (lb_writer lb) hs (sah_expose local_auth_header)) (\<lambda>_ hs.
     finish lb remote_auth_header hs))))"

text \<open>\<open>timeout(HANDSHAKE_TIMEOUT, body)\<close>, for a body that takes \<open>took\<close> milliseconds.\<close>

definition with_timeout :: "nat option \<Rightarrow> ('a, ConnectionError) result \<Rightarrow> ('a, ConnectionError) result" where
  "with_timeout took body =
     (case took of
        Some d \<Rightarrow> if d \<le> HANDSHAKE_TIMEOUT then body else Err HandshakeTimeout
      | None \<Rightarrow> Err HandshakeTimeout)"

definition packets_accept where
  "packets_accept lb took stream local_private local_auth_header verification_key =
     with_timeout took
       (case new_responder (lb_noise lb) stream local_private of
          Err e \<Rightarrow> Err e
        | Ok hs \<Rightarrow> fst (accept_steps lb local_auth_header verification_key hs))"

definition packets_connect where
  "packets_connect lb took stream local_private local_auth_header verification_key =
     with_timeout took
       (case new_initiator (lb_noise lb) stream local_private of
          Err e \<Rightarrow> Err e
        | Ok hs \<Rightarrow> fst (connect_steps lb local_auth_header verification_key hs))"

text \<open>\<open>accept\<close> and \<open>connect\<close> of \<open>src/lib.rs\<close> wrap the packet halves.\<close>

definition message_halves where
  "message_halves r =
     (case r of
        Err e \<Rightarrow> Err e
      | Ok ((state, tx, rx), auth_details) \<Rightarrow>
          Ok ((state, message_tx_new tx, message_rx_new rx), auth_details))"

definition accept where
  "accept lb took stream local_private local_auth_header verification_key =
     message_halves (packets_accept lb took stream local_private local_auth_header verification_key)"

definition connect where
  "connect lb took stream local_private local_auth_header verification_key =
     message_halves (packets_connect lb took stream local_private local_auth_header verification_key)"

section \<open>What a successful handshake has checked\<close>

lemma try_then_Ok [simp]: "try_then (Ok a, c) k = k a c"
  and try_then_Err [simp]: "try_then (Err e, c) k = (Err e, c)"
  by (simp_all add: try_then_def)

lemma try_then_OkD:
  assumes "try_then r k = (Ok b, c')"
  obtains a c where "r = (Ok a, c)" "k a c = (Ok b, c')"
  using assms by (auto simp: try_then_def split: prod.splits result.splits)

lemma remote_static_Ok:
  "remote_static hl hs = Ok k \<longleftrightarrow> hl_get_remote_static hl (hc_handshake hs) = Some (tpub_as_bytes k) \<and> tpub_ok k"
  by (cases k) (auto simp: remote_static_def tpub_ok_def try_into_array32_def split: option.splits if_splits)

lemma check_peer_Ok:
  "check_peer lb key pl hs = Ok h \<longleftrightarrow> verify_raw (lb_yatlv lb) (lb_ed25519 lb) key pl = Ok h
     \<and> remote_static (lb_noise lb) hs = Ok (ah_public_key h)"
  by (auto simp: check_peer_def validate_public_key_def split: result.splits if_splits)

lemma check_peer_mismatch:
  "verify_raw (lb_yatlv lb) (lb_ed25519 lb) key pl = Ok h \<Longrightarrow> remote_static (lb_noise lb) hs = Ok k \<Longrightarrow>
   ah_public_key h \<noteq> k \<Longrightarrow> check_peer lb key pl hs = Err (BadAuthErr (PublicKeyMismatch (ah_public_key h) k))"
  by (simp add: check_peer_def auth.stolen_header_rejected)

lemma finish_Ok:
  assumes "finish lb h hs = (Ok ((state, tx, rx), details), hs')"
  shows "hs' = hs \<and> details = AuthDetails_from h \<and> hl_into_transport_mode (lb_noise lb) (hc_handshake hs) = Ok state
    \<and> tx_packet_builder tx = builder_new \<and> rx_packet_reader rx = reader_new \<and> payload rx = []"
  using assms by (auto simp: finish_def into_split_def Let_def payload_def split: result.splits prod.splits)

text \<open>\<open>peer_checked\<close>: the header \<open>h\<close> came, in a record that verifies, as the payload \<open>pl\<close> of a
  handshake message of the session that became \<open>state\<close>, and at that point the remote static key
  of the session was the one that \<open>h\<close> declares.\<close>

definition peer_checked where
  "peer_checked lb key pl h state \<longleftrightarrow>
     verify_raw (lb_yatlv lb) (lb_ed25519 lb) key pl = Ok h
     \<and> (\<exists>c0 c hs'. recv (lb_noise lb) (lb_reader lb) c0 = (Ok pl, c)
          \<and> hl_get_remote_static (lb_noise lb) (hc_handshake c) = Some (tpub_as_bytes (ah_public_key h))
          \<and> (hs' = hc_handshake c
             \<or> (\<exists>p buf r buf'. hl_write_message (lb_noise lb) (hc_handshake c) p buf = (r, buf', hs')))
          \<and> hl_into_transport_mode (lb_noise lb) hs' = Ok state)"

lemma accept_steps_checked:
  assumes "accept_steps lb cred key hs = (Ok ((state, tx, rx), details), hs')"
  obtains pl h where "peer_checked lb key pl h state" "details = AuthDetails_from h"
    "tx_packet_builder tx = builder_new" "rx_packet_reader rx = reader_new"
proof -
  from assms obtain pl h c0 c where r: "recv (lb_noise lb) (lb_reader lb) c0 = (Ok pl, c)"
    and c: "check_peer lb key pl c = Ok h"
    and f: "finish lb h c = (Ok ((state, tx, rx), details), hs')"
    unfolding accept_steps_def by (elim try_then_OkD) auto
  from finish_Ok [OF f] r c have "peer_checked lb key pl h state"
    by (auto simp: peer_checked_def check_peer_Ok remote_static_Ok)
  with finish_Ok [OF f] show thesis by (intro that) auto
qed

lemma send_handshake:
  assumes "send hl sw hs pl = (Ok (), hs')"
  obtains r buf' where "hl_write_message hl (hc_handshake hs) pl (drop FRAME_HEADER_SIZE (hc_noise_buf hs))
    = (r, buf', hc_handshake hs')"
  using assms by (auto simp: send_def Let_def split: prod.splits result.splits)

lemma connect_steps_checked:
  assumes "connect_steps lb cred key hs = (Ok ((state, tx, rx), details), hs')"
  obtains pl h where "peer_checked lb key pl h state" "details = AuthDetails_from h"
    "tx_packet_builder tx = builder_new" "rx_packet_reader rx = reader_new"
proof -
  from assms obtain pl h c0 c c' where r: "recv (lb_noise lb) (lb_reader lb) c0 = (Ok pl, c)"
    and c: "check_peer lb key pl c = Ok h"
    and w: "send (lb_noise lb) (lb_writer lb) c (sah_expose cred) = (Ok (), c')"
    and f: "finish lb h c' = (Ok ((state, tx, rx), details), hs')"
    unfolding connect_steps_def by (elim try_then_OkD) auto
  obtain n buf' where "hl_write_message (lb_noise lb) (hc_handshake c) (sah_expose cred)
      (drop FRAME_HEADER_SIZE (hc_noise_buf c)) = (n, buf', hc_handshake c')"
    by (rule send_handshake [OF w])
  with finish_Ok [OF f] r c have "peer_checked lb key pl h state"
    unfolding peer_checked_def check_peer_Ok remote_static_Ok by blast
  with finish_Ok [OF f] show thesis by (intro that) auto
qed

lemma with_timeout_Ok: "with_timeout took body = Ok v \<longleftrightarrow> body = Ok v \<and> (\<exists>d. took = Some d \<and> d \<le> HANDSHAKE_TIMEOUT)"
  by (auto simp: with_timeout_def split: option.splits if_splits)

lemma message_halves_Ok:
  "message_halves r = Ok ((state, mtx, mrx), details) \<longleftrightarrow>
   (\<exists>tx rx. r = Ok ((state, tx, rx), details) \<and> mtx = message_tx_new tx \<and> mrx = message_rx_new rx)"
  by (auto simp: message_halves_def split: result.splits prod.splits)

lemma accept_checked:
  assumes "accept lb took stream priv cred key = Ok ((state, mtx, mrx), details)"
  obtains pl h where "peer_checked lb key pl h state" "details = AuthDetails_from h"
    "tx_builder mtx = builder_new" "rx_reader mrx = reader_new"
proof -
  from assms obtain tx rx hs hs' where
    "accept_steps lb cred key hs = (Ok ((state, tx, rx), details), hs')"
    and m: "mtx = message_tx_new tx" "mrx = message_rx_new rx"
    by (auto simp: accept_def packets_accept_def message_halves_Ok with_timeout_Ok split: result.splits)
      (metis prod.collapse)
  from accept_steps_checked [OF this(1)] m show thesis
    by (metis that message_tx_new_def message_rx_new_def MessageTx.select_convs(1) MessageRx.select_convs(1))
qed

lemma connect_checked:
  assumes "connect lb took stream priv cred key = Ok ((state, mtx, mrx), details)"
  obtains pl h where "peer_checked lb key pl h state" "details = AuthDetails_from h"
    "tx_builder mtx = builder_new" "rx_reader mrx = reader_new"
proof -
  from assms obtain tx rx hs hs' where
    "connect_steps lb cred key hs = (Ok ((state, tx, rx), details), hs')"
    and m: "mtx = message_tx_new tx" "mrx = message_rx_new rx"
    by (auto simp: connect_def packets_connect_def message_halves_Ok with_timeout_Ok split: result.splits)
      (metis prod.collapse)
  from connect_steps_checked [OF this(1)] m show thesis
    by (metis that message_tx_new_def message_rx_new_def MessageTx.select_convs(1) MessageRx.select_convs(1))
qed

end
