(* ===== verification/Handshake_Run.thy ===== *)
theory Handshake_Run
  imports Handshake Sample_Libs
begin

text \<open>
  Runs of the handshake. \<open>xx_laws\<close> states what the Noise XX pattern, as \<open>snow\<close> implements it,
  promises to two parties, and \<open>duplex_laws\<close> what the code relies on in a duplex stream. From them
  the two bodies \<open>connect_steps\<close> and \<open>accept_steps\<close> are run against each other. The theory ends with
  the properties of the handshake and, for their concrete cases, an instance of the contracts.
\<close>

section \<open>Two honest peers\<close>

text \<open>The handshake state as a cipher, so that \<open>opens\<close> speaks about handshake messages too.\<close>

definition handshake_cipher :: "('hs, 't) handshake_lib \<Rightarrow> 'hs transport_lib" where
  "handshake_cipher hl = \<lparr>ts_write_message = hl_write_message hl, ts_read_message = hl_read_message hl\<rparr>"

text \<open>What the Noise XX pattern promises to two parties with private keys \<open>si\<close> and \<open>sr\<close>. \<open>pair k\<close>
  relates their states after \<open>k\<close> messages: the next writer can write any payload that leaves room
  for the keys and tags (at most 96 bytes), the other party reads it, from the second message on
  the initiator knows the responder's static key, after the third the responder knows the
  initiator's, and then both switch to transport states that are in step in both directions.\<close>

definition writes :: "('hs, 't) handshake_lib \<Rightarrow> 'hs \<Rightarrow> 'hs \<Rightarrow> ('hs \<Rightarrow> 'hs \<Rightarrow> bool) \<Rightarrow> bool" where
  "writes hl w r Q \<longleftrightarrow>
     (\<forall>pl buf. length pl + 96 \<le> 65535 \<longrightarrow> length pl + 96 \<le> length buf \<longrightarrow>
        (\<exists>n buf' w'. hl_write_message hl w pl buf = (Ok n, buf', w') \<and> length buf' = length buf
           \<and> n \<le> length pl + 96 \<and> opens (handshake_cipher hl) (Q w') r (take n buf') pl))"

definition xx_laws :: "('hs, 't) handshake_lib \<Rightarrow> (bytes \<Rightarrow> bytes) \<Rightarrow> (nat \<Rightarrow> bytes \<Rightarrow> bytes \<Rightarrow> 'hs \<Rightarrow> 'hs \<Rightarrow> bool)
    \<Rightarrow> (nat \<Rightarrow> 't \<Rightarrow> 't \<Rightarrow> bool) \<Rightarrow> bool" where
  "xx_laws hl public pair sync \<longleftrightarrow>
     (\<forall>si sr. length si = 32 \<longrightarrow> length sr = 32 \<longrightarrow>
        (\<exists>i r. hl_build_initiator hl NOISE_PARAMS si = Ok i \<and> hl_build_responder hl NOISE_PARAMS sr = Ok r
           \<and> pair 0 si sr i r))
   \<and> (\<forall>si sr i r. pair 0 si sr i r \<longrightarrow> writes hl i r (\<lambda>i' r'. pair 1 si sr i' r'))
   \<and> (\<forall>si sr i r. pair 1 si sr i r \<longrightarrow> writes hl r i (\<lambda>r' i'. pair 2 si sr i' r'))
   \<and> (\<forall>si sr i r. pair 2 si sr i r \<longrightarrow> hl_get_remote_static hl i = Some (public sr)
        \<and> writes hl i r (\<lambda>i' r'. pair 3 si sr i' r'))
   \<and> (\<forall>si sr i r. pair 3 si sr i r \<longrightarrow> hl_get_remote_static hl r = Some (public si)
        \<and> (\<exists>ti tr. hl_into_transport_mode hl i = Ok ti \<and> hl_into_transport_mode hl r = Ok tr
             \<and> (\<forall>n < 2 ^ 64. sync n ti tr \<and> sync n tr ti)))"

text \<open>A duplex stream: reading and writing do not disturb each other, and \<open>split\<close> only separates the
  two directions.\<close>

definition duplex_laws where
  "duplex_laws sr sw split pending written half_pending half_written \<longleftrightarrow>
     read_laws sr pending \<and> write_laws sw written \<and> write_live sw
   \<and> (\<forall>s. written (snd (sr_read_u16 sr s)) = written s)
   \<and> (\<forall>s buf. written (snd (snd (sr_read_exact sr s buf))) = written s)
   \<and> (\<forall>s bs. pending (snd (sw_write_all sw s bs)) = pending s)
   \<and> (\<forall>s. pending (snd (sw_flush sw s)) = pending s)
   \<and> (\<forall>s. half_pending (fst (split s)) = pending s \<and> half_written (snd (split s)) = written s)"

abbreviation fresh_buf :: bytes where
  "fresh_buf \<equiv> replicate (FRAME_HEADER_SIZE + MAX_CIPHERTEXT_SIZE) 0"

abbreviation full_buf :: "bytes \<Rightarrow> bool" where
  "full_buf nb \<equiv> length nb = FRAME_HEADER_SIZE + MAX_CIPHERTEXT_SIZE"

text \<open>One message, from the writer's call to the reader's; neither depends on the streams.\<close>

lemma send_step:
  assumes lib: "duplex_laws sr sw split pending written hp hw"
    and wr: "hl_write_message hl (hc_handshake hs) pl (drop FRAME_HEADER_SIZE (hc_noise_buf hs)) = (Ok n, c, h')"
    and n: "n \<le> 65535" "length c = 65535"
  shows "\<exists>s'. send hl sw hs pl = (Ok (), hs\<lparr>hc_handshake := h', hc_noise_buf := u16_to_be_bytes (of_nat n) @ c,
      hc_stream := s'\<rparr>) \<and> written s' = written (hc_stream hs) @ frame_of (take n c)
    \<and> pending s' = pending (hc_stream hs)"
proof -
  let ?f = "take (FRAME_HEADER_SIZE + n) (u16_to_be_bytes (of_nat n) @ c)"
  have f: "?f = frame_of (take n c)" using n by (simp add: frame_of_def FRAME_HEADER_SIZE_def)
  from lib obtain s1 where s1: "sw_write_all sw (hc_stream hs) ?f = (Ok (), s1)"
    unfolding duplex_laws_def write_live_def by blast
  from lib obtain s2 where s2: "sw_flush sw s1 = (Ok (), s2)"
    unfolding duplex_laws_def write_live_def by blast
  have "written s2 = written (hc_stream hs) @ ?f" "pending s2 = pending (hc_stream hs)"
    using lib s1 s2 unfolding duplex_laws_def write_laws_def by (metis snd_conv)+
  with wr s1 s2 f show ?thesis by (intro exI [of _ s2]) (simp add: send_def Let_def)
qed

lemma recv_step:
  assumes lib: "duplex_laws sr sw split pending written hp hw"
    and pend: "pending (hc_stream hs) = frame_of ct @ rest" "length ct \<le> 65535"
    and rd: "hl_read_message hl (hc_handshake hs) ct (hc_noise_buf hs) = (Ok n, nb', h')"
  shows "\<exists>s'. recv hl sr hs = (Ok (take n nb'), hs\<lparr>hc_handshake := h', hc_noise_buf := nb', hc_frame := ct,
      hc_stream := s'\<rparr>) \<and> written s' = written (hc_stream hs) \<and> pending s' = rest"
proof -
  from lib have laws: "read_laws sr pending" by (simp add: duplex_laws_def)
  from read_frame_frame [OF laws pend, of "hc_frame hs"] obtain s' where
    s': "read_frame sr (hc_stream hs) (hc_frame hs) = (Ok (), ct, s')" "pending s' = rest" by blast
  have "written (snd (snd (read_frame sr s fr))) = written s" for s fr
    using lib unfolding duplex_laws_def read_frame_def
    by (auto split: prod.splits result.splits) (metis snd_conv)+
  with s' have "written s' = written (hc_stream hs)" by (metis snd_conv)
  with s' rd show ?thesis by (intro exI [of _ s']) (simp add: recv_def Let_def)
qed

lemma exchange:
  assumes "writes hl w r Q" "full_buf nbw" "full_buf nbr" "length pl + 96 \<le> 65535"
  obtains n c w' nbr' r' where
    "hl_write_message hl w pl (drop FRAME_HEADER_SIZE nbw) = (Ok n, c, w')" "n \<le> 65535" "length c = 65535"
    "hl_read_message hl r (take n c) nbr = (Ok (length pl), nbr', r')" "full_buf nbr'" "take (length pl) nbr' = pl"
    "Q w' r'"
proof -
  let ?buf = "drop FRAME_HEADER_SIZE nbw"
  have buf: "length pl + 96 \<le> length ?buf" "length ?buf = 65535" using assms(2,4) by (simp_all add: size_defs)
  with assms(1,4) obtain n c w' where w: "hl_write_message hl w pl ?buf = (Ok n, c, w')" "length c = length ?buf"
    "n \<le> length pl + 96" "opens (handshake_cipher hl) (Q w') r (take n c) pl"
    unfolding writes_def by blast
  have "length (take n c) \<le> length nbr" using w assms(3) buf by (simp add: size_defs)
  with w(4) obtain nbr' r' where "hl_read_message hl r (take n c) nbr = (Ok (length pl), nbr', r')"
    "length nbr' = length nbr" "take (length pl) nbr' = pl" "Q w' r'"
    unfolding opens_def handshake_cipher_def by auto
  with w buf assms(3,4) show thesis by (intro that) simp_all
qed

lemma full_buf_new: "full_buf (hc_noise_buf (new_context h s))"
  by (simp add: new_context_def)

lemma full_buf_sent: "length c = 65535 \<Longrightarrow> full_buf (u16_to_be_bytes v @ c)"
  by (simp add: size_defs)

text \<open>The two bodies on streams that carry the three messages.\<close>

lemma connect_run:
  assumes lib: "duplex_laws (lb_reader lb) (lb_writer lb) (lb_split lb) pending written hp hw"
    and w1: "hl_write_message (lb_noise lb) i0 [] (drop FRAME_HEADER_SIZE fresh_buf) = (Ok n1, c1, i1)"
      "n1 \<le> 65535" "length c1 = 65535"
    and r2: "hl_read_message (lb_noise lb) i1 m2 (u16_to_be_bytes (of_nat n1) @ c1) = (Ok n2, nb2, i2)"
      "length m2 \<le> 65535"
    and chk: "\<And>hs. hc_handshake hs = i2 \<Longrightarrow> check_peer lb key (take n2 nb2) hs = Ok h"
    and w3: "hl_write_message (lb_noise lb) i2 (sah_expose cred) (drop FRAME_HEADER_SIZE nb2) = (Ok n3, c3, i3)"
      "n3 \<le> 65535" "length c3 = 65535"
    and tm: "hl_into_transport_mode (lb_noise lb) i3 = Ok ti"
    and pend: "pending s = frame_of m2 @ rest"
  shows "\<exists>tx rx hs. connect_steps lb cred key (new_context i0 s) = (Ok ((ti, tx, rx), AuthDetails_from h), hs)
    \<and> tx_packet_builder tx = builder_new \<and> rx_packet_reader rx = reader_new
    \<and> hw (tx_write tx) = written s @ frame_of (take n1 c1) @ frame_of (take n3 c3) \<and> hp (rx_read rx) = rest"
proof -
  let ?c0 = "new_context i0 s"
  have "hc_handshake ?c0 = i0" "hc_stream ?c0 = s" "hc_noise_buf ?c0 = fresh_buf" by (simp_all add: new_context_def)
  with send_step [OF lib, of "lb_noise lb" ?c0 "[]" n1 c1 i1] w1 obtain s1 where
    s1: "send (lb_noise lb) (lb_writer lb) ?c0 [] = (Ok (), ?c0\<lparr>hc_handshake := i1,
      hc_noise_buf := u16_to_be_bytes (of_nat n1) @ c1, hc_stream := s1\<rparr>)" (is "_ = (_, ?c1)")
    "written s1 = written s @ frame_of (take n1 c1)" "pending s1 = pending s" by auto
  from recv_step [OF lib, of ?c1 m2 rest "lb_noise lb"] r2 pend s1(3) obtain s2 where
    s2: "recv (lb_noise lb) (lb_reader lb) ?c1 = (Ok (take n2 nb2), ?c1\<lparr>hc_handshake := i2, hc_noise_buf := nb2,
      hc_frame := m2, hc_stream := s2\<rparr>)" (is "_ = (_, ?c2)")
    "written s2 = written s1" "pending s2 = rest" by auto
  from send_step [OF lib, of "lb_noise lb" ?c2 "sah_expose cred" n3 c3 i3] w3 obtain s3 where
    s3: "send (lb_noise lb) (lb_writer lb) ?c2 (sah_expose cred) = (Ok (), ?c2\<lparr>hc_handshake := i3,
      hc_noise_buf := u16_to_be_bytes (of_nat n3) @ c3, hc_stream := s3\<rparr>)"
    "written s3 = written s2 @ frame_of (take n3 c3)" "pending s3 = pending s2" by auto
  have "check_peer lb key (take n2 nb2) ?c2 = Ok h" by (rule chk) simp
  moreover have "hp (fst (lb_split lb s3)) = pending s3" "hw (snd (lb_split lb s3)) = written s3"
    using lib by (simp_all add: duplex_laws_def)
  ultimately show ?thesis using s1 s2 s3 tm
    by (cases "lb_split lb s3") (simp add: connect_steps_def finish_def into_split_def Let_def)
qed

lemma accept_run:
  assumes lib: "duplex_laws (lb_reader lb) (lb_writer lb) (lb_split lb) pending written hp hw"
    and r1: "hl_read_message (lb_noise lb) r0 m1 fresh_buf = (Ok n1, nb1, r1)"
      "length m1 \<le> 65535"
    and w2: "hl_write_message (lb_noise lb) r1 (sah_expose cred) (drop FRAME_HEADER_SIZE nb1) = (Ok n2, c2, r2)"
      "n2 \<le> 65535" "length c2 = 65535"
    and r3: "hl_read_message (lb_noise lb) r2 m3 (u16_to_be_bytes (of_nat n2) @ c2) = (Ok n3, nb3, r3)"
      "length m3 \<le> 65535"
    and chk: "\<And>hs. hc_handshake hs = r3 \<Longrightarrow> check_peer lb key (take n3 nb3) hs = Ok h"
    and tm: "hl_into_transport_mode (lb_noise lb) r3 = Ok tr"
    and pend: "pending s = frame_of m1 @ frame_of m3 @ rest"
  shows "\<exists>tx rx hs. accept_steps lb cred key (new_context r0 s) = (Ok ((tr, tx, rx), AuthDetails_from h), hs)
    \<and> tx_packet_builder tx = builder_new \<and> rx_packet_reader rx = reader_new
    \<and> hw (tx_write tx) = written s @ frame_of (take n2 c2) \<and> hp (rx_read rx) = rest"
proof -
  let ?c0 = "new_context r0 s"
  have "hc_handshake ?c0 = r0" "hc_stream ?c0 = s" "hc_noise_buf ?c0 = fresh_buf" by (simp_all add: new_context_def)
  with recv_step [OF lib, of ?c0 m1 "frame_of m3 @ rest" "lb_noise lb"] r1 pend obtain s1 where
    s1: "recv (lb_noise lb) (lb_reader lb) ?c0 = (Ok (take n1 nb1), ?c0\<lparr>hc_handshake := r1, hc_noise_buf := nb1,
      hc_frame := m1, hc_stream := s1\<rparr>)" (is "_ = (_, ?c1)")
    "written s1 = written s" "pending s1 = frame_of m3 @ rest" by auto
  from send_step [OF lib, of "lb_noise lb" ?c1 "sah_expose cred" n2 c2 r2] w2 obtain s2 where
    s2: "send (lb_noise lb) (lb_writer lb) ?c1 (sah_expose cred) = (Ok (), ?c1\<lparr>hc_handshake := r2,
      hc_noise_buf := u16_to_be_bytes (of_nat n2) @ c2, hc_stream := s2\<rparr>)" (is "_ = (_, ?c2)")
    "written s2 = written s1 @ frame_of (take n2 c2)" "pending s2 = pending s1" by auto
  from recv_step [OF lib, of ?c2 m3 rest "lb_noise lb"] r3 s1(3) s2(3) obtain s3 where
    s3: "recv (lb_noise lb) (lb_reader lb) ?c2 = (Ok (take n3 nb3), ?c2\<lparr>hc_handshake := r3, hc_noise_buf := nb3,
      hc_frame := m3, hc_stream := s3\<rparr>)" (is "_ = (_, ?c3)")
    "written s3 = written s2" "pending s3 = rest" by auto
  have "check_peer lb key (take n3 nb3) ?c3 = Ok h" by (rule chk) simp
  moreover have "hp (fst (lb_split lb s3)) = pending s3" "hw (snd (lb_split lb s3)) = written s3"
    using lib by (simp_all add: duplex_laws_def)
  ultimately show ?thesis using s1 s2 s3 tm
    by (cases "lb_split lb s3") (simp add: accept_steps_def finish_def into_split_def Let_def)
qed

text \<open>A node as the operator sets it up: a transport key and a header that declares its public key,
  signed with the cluster key, small enough for a handshake message.\<close>

definition credential where
  "credential lb sk h = auth_sign (lb_yatlv lb) (lb_ed25519 lb) h sk"

definition node_ok where
  "node_ok lb public sk priv h \<longleftrightarrow> tpriv_ok priv \<and> header_ok h
     \<and> ah_public_key h = TransportPublicKey (public (tpriv_expose priv))
     \<and> length (sah_expose (credential lb sk h)) + 96 \<le> 65535"

lemma node_checked:
  assumes "yatlv_laws (lb_yatlv lb)" "ed25519_laws (lb_ed25519 lb)" "key_pair (lb_ed25519 lb) sk vk"
    "node_ok lb public sk priv h" "hl_get_remote_static (lb_noise lb) (hc_handshake hs) = Some (public (tpriv_expose priv))"
  shows "check_peer lb vk (sah_expose (credential lb sk h)) hs = Ok h"
  using assms verify_raw_sign [OF assms(1-3), of h]
  by (auto simp: check_peer_Ok remote_static_Ok node_ok_def credential_def header_ok_def)

lemma halves_linked:
  assumes "tx_packet_builder tx = builder_new" "rx_packet_reader rx = reader_new" "sync n ts tr"
  shows "linked sync n (ts, message_tx_new tx) (tr, message_rx_new rx)"
  using assms by (simp add: linked_def message_tx_new_def message_rx_new_def in_step_new)

lemma xx_lawsD:
  assumes "xx_laws hl public pair sync"
  shows "\<And>si sr. length si = 32 \<Longrightarrow> length sr = 32 \<Longrightarrow>
      \<exists>i r. hl_build_initiator hl NOISE_PARAMS si = Ok i \<and> hl_build_responder hl NOISE_PARAMS sr = Ok r
        \<and> pair 0 si sr i r"
    and "\<And>si sr i r. pair 0 si sr i r \<Longrightarrow> writes hl i r (\<lambda>i' r'. pair 1 si sr i' r')"
    and "\<And>si sr i r. pair 1 si sr i r \<Longrightarrow> writes hl r i (\<lambda>r' i'. pair 2 si sr i' r')"
    and "\<And>si sr i r. pair 2 si sr i r \<Longrightarrow> hl_get_remote_static hl i = Some (public sr)"
    and "\<And>si sr i r. pair 2 si sr i r \<Longrightarrow> writes hl i r (\<lambda>i' r'. pair 3 si sr i' r')"
    and "\<And>si sr i r. pair 3 si sr i r \<Longrightarrow> hl_get_remote_static hl r = Some (public si)"
    and "\<And>si sr i r. pair 3 si sr i r \<Longrightarrow> \<exists>ti tr. hl_into_transport_mode hl i = Ok ti
      \<and> hl_into_transport_mode hl r = Ok tr \<and> (\<forall>n < 2 ^ 64. sync n ti tr \<and> sync n tr ti)"
  using assms unfolding xx_laws_def by simp_all

text \<open>The states and messages of an XX handshake of two nodes, independent of any stream.\<close>

lemma xx_messages:
  assumes xx: "xx_laws hl public pair sync" and si: "length si = 32" and sr: "length sr = 32"
    and fits: "length pr + 96 \<le> 65535" "length pi + 96 \<le> 65535"
  obtains i0 r0 n1 c1 i1 nr1 r1 n2 c2 r2 ni2 i2 n3 c3 i3 nr3 r3 where
    "hl_build_initiator hl NOISE_PARAMS si = Ok i0" "hl_build_responder hl NOISE_PARAMS sr = Ok r0"
    "hl_write_message hl i0 [] (drop FRAME_HEADER_SIZE fresh_buf) = (Ok n1, c1, i1)" "n1 \<le> 65535" "length c1 = 65535"
    "hl_read_message hl r0 (take n1 c1) fresh_buf = (Ok 0, nr1, r1)"
    "hl_write_message hl r1 pr (drop FRAME_HEADER_SIZE nr1) = (Ok n2, c2, r2)" "n2 \<le> 65535" "length c2 = 65535"
    "hl_read_message hl i1 (take n2 c2) (u16_to_be_bytes (of_nat n1) @ c1) = (Ok (length pr), ni2, i2)"
    "take (length pr) ni2 = pr" "hl_get_remote_static hl i2 = Some (public sr)"
    "hl_write_message hl i2 pi (drop FRAME_HEADER_SIZE ni2) = (Ok n3, c3, i3)" "n3 \<le> 65535" "length c3 = 65535"
    "hl_read_message hl r2 (take n3 c3) (u16_to_be_bytes (of_nat n2) @ c2) = (Ok (length pi), nr3, r3)"
    "take (length pi) nr3 = pi" "pair 3 si sr i3 r3"
proof -
  have nb0: "full_buf fresh_buf" by simp
  from xx_lawsD(1) [OF xx si sr] obtain i0 r0 where b: "hl_build_initiator hl NOISE_PARAMS si = Ok i0"
    "hl_build_responder hl NOISE_PARAMS sr = Ok r0" "pair 0 si sr i0 r0" by blast
  have e: "length ([] :: bytes) + 96 \<le> 65535" by simp
  from exchange [OF xx_lawsD(2) [OF xx b(3)] nb0 nb0 e] obtain n1 c1 i1 nr1 r1 where
    m1: "hl_write_message hl i0 [] (drop FRAME_HEADER_SIZE fresh_buf) = (Ok n1, c1, i1)" "n1 \<le> 65535" "length c1 = 65535"
      "hl_read_message hl r0 (take n1 c1) fresh_buf = (Ok (length ([] :: bytes)), nr1, r1)" "full_buf nr1"
      "pair 1 si sr i1 r1" .
  from exchange [OF xx_lawsD(3) [OF xx m1(6)] m1(5) full_buf_sent [OF m1(3), of "of_nat n1"] fits(1)] obtain n2 c2 r2 ni2 i2 where
    m2: "hl_write_message hl r1 pr (drop FRAME_HEADER_SIZE nr1) = (Ok n2, c2, r2)" "n2 \<le> 65535" "length c2 = 65535"
      "hl_read_message hl i1 (take n2 c2) (u16_to_be_bytes (of_nat n1) @ c1) = (Ok (length pr), ni2, i2)"
      "full_buf ni2" "take (length pr) ni2 = pr" "pair 2 si sr i2 r2" .
  from exchange [OF xx_lawsD(5) [OF xx m2(7)] m2(5) full_buf_sent [OF m2(3), of "of_nat n2"] fits(2)] obtain n3 c3 i3 nr3 r3 where
    m3: "hl_write_message hl i2 pi (drop FRAME_HEADER_SIZE ni2) = (Ok n3, c3, i3)" "n3 \<le> 65535" "length c3 = 65535"
      "hl_read_message hl r2 (take n3 c3) (u16_to_be_bytes (of_nat n2) @ c2) = (Ok (length pi), nr3, r3)"
      "take (length pi) nr3 = pi" "pair 3 si sr i3 r3" .
  from that [OF b(1,2) m1(1-3) _ m2(1-4,6) xx_lawsD(4) [OF xx m2(7)] m3] m1(4) show thesis by simp
qed

text \<open>The two bodies of such a handshake, whatever else the streams hold.\<close>

lemma xx_runs:
  assumes xx: "xx_laws (lb_noise lb) public pair sync"
    and lib: "duplex_laws (lb_reader lb) (lb_writer lb) (lb_split lb) pending written hp hw"
    and sig: "yatlv_laws (lb_yatlv lb)" "ed25519_laws (lb_ed25519 lb)" "key_pair (lb_ed25519 lb) sk vk"
    and nodes: "node_ok lb public sk privi hi" "node_ok lb public sk privr hr" and n: "n < 2 ^ 64"
  obtains m1 m2 m3 i0 r0 ti tr where "hl_build_initiator (lb_noise lb) NOISE_PARAMS (tpriv_expose privi) = Ok i0"
    "hl_build_responder (lb_noise lb) NOISE_PARAMS (tpriv_expose privr) = Ok r0" "sync n ti tr" "sync n tr ti"
    "\<And>s rest. pending s = frame_of m2 @ rest \<Longrightarrow> \<exists>tx rx hs.
      connect_steps lb (credential lb sk hi) vk (new_context i0 s) = (Ok ((ti, tx, rx), AuthDetails_from hr), hs)
      \<and> tx_packet_builder tx = builder_new \<and> rx_packet_reader rx = reader_new
      \<and> hw (tx_write tx) = written s @ frame_of m1 @ frame_of m3 \<and> hp (rx_read rx) = rest"
    "\<And>s rest. pending s = frame_of m1 @ frame_of m3 @ rest \<Longrightarrow> \<exists>tx rx hs.
      accept_steps lb (credential lb sk hr) vk (new_context r0 s) = (Ok ((tr, tx, rx), AuthDetails_from hi), hs)
      \<and> tx_packet_builder tx = builder_new \<and> rx_packet_reader rx = reader_new
      \<and> hw (tx_write tx) = written s @ frame_of m2 \<and> hp (rx_read rx) = rest"
proof -
  let ?ki = "tpriv_expose privi" and ?kr = "tpriv_expose privr"
  let ?pi = "sah_expose (credential lb sk hi)" and ?pr = "sah_expose (credential lb sk hr)"
  have k: "length ?ki = 32" "length ?kr = 32" "length ?pr + 96 \<le> 65535" "length ?pi + 96 \<le> 65535"
    using nodes by (simp_all add: node_ok_def tpriv_ok_def)
  from xx_messages [OF xx k] obtain i0 r0 n1 c1 i1 nr1 r1 n2 c2 r2 ni2 i2 n3 c3 i3 nr3 r3 where
    b: "hl_build_initiator (lb_noise lb) NOISE_PARAMS ?ki = Ok i0" "hl_build_responder (lb_noise lb) NOISE_PARAMS ?kr = Ok r0"
    and m1: "hl_write_message (lb_noise lb) i0 [] (drop FRAME_HEADER_SIZE fresh_buf) = (Ok n1, c1, i1)" "n1 \<le> 65535"
      "length c1 = 65535" "hl_read_message (lb_noise lb) r0 (take n1 c1) fresh_buf = (Ok 0, nr1, r1)"
    and m2: "hl_write_message (lb_noise lb) r1 ?pr (drop FRAME_HEADER_SIZE nr1) = (Ok n2, c2, r2)" "n2 \<le> 65535" "length c2 = 65535"
      "hl_read_message (lb_noise lb) i1 (take n2 c2) (u16_to_be_bytes (of_nat n1) @ c1) = (Ok (length ?pr), ni2, i2)"
      "take (length ?pr) ni2 = ?pr" "hl_get_remote_static (lb_noise lb) i2 = Some (public ?kr)"
    and m3: "hl_write_message (lb_noise lb) i2 ?pi (drop FRAME_HEADER_SIZE ni2) = (Ok n3, c3, i3)" "n3 \<le> 65535" "length c3 = 65535"
      "hl_read_message (lb_noise lb) r2 (take n3 c3) (u16_to_be_bytes (of_nat n2) @ c2) = (Ok (length ?pi), nr3, r3)"
      "take (length ?pi) nr3 = ?pi" "pair 3 ?ki ?kr i3 r3" .
  from xx_lawsD(7) [OF xx m3(6)] obtain ti tr where
    t: "hl_into_transport_mode (lb_noise lb) i3 = Ok ti" "hl_into_transport_mode (lb_noise lb) r3 = Ok tr"
    and sy: "sync n ti tr" "sync n tr ti" using n by blast
  have chki: "check_peer lb vk (take (length ?pr) ni2) hs = Ok hr" if "hc_handshake hs = i2" for hs
    using node_checked [OF sig nodes(2)] m2(5,6) that by simp
  have chkr: "check_peer lb vk (take (length ?pi) nr3) hs = Ok hi" if "hc_handshake hs = r3" for hs
    using node_checked [OF sig nodes(1)] m3(5) xx_lawsD(6) [OF xx m3(6)] that by simp
  have len: "length (take n1 c1) \<le> 65535" "length (take n2 c2) \<le> 65535" "length (take n3 c3) \<le> 65535"
    using m1(2) m2(2) m3(2) by simp_all
  show thesis
    by (rule that [OF b sy connect_run [OF lib m1(1-3) m2(4) len(2) chki m3(1-3) t(1)]
          accept_run [OF lib m1(4) len(1) m2(1-3) m3(4) len(3) chkr t(2)]])
qed

text \<open>The entry points, from the runs of their bodies.\<close>

lemma connect_of_steps:
  assumes "hl_build_initiator (lb_noise lb) NOISE_PARAMS (tpriv_expose priv) = Ok i0"
    "connect_steps lb cred vk (new_context i0 s) = (Ok ((ts, tx, rx), details), hs)" "d \<le> HANDSHAKE_TIMEOUT"
  shows "connect lb (Some d) s priv cred vk = Ok ((ts, message_tx_new tx, message_rx_new rx), details)"
  using assms by (simp add: connect_def packets_connect_def with_timeout_def new_initiator_def message_halves_def)

lemma accept_of_steps:
  assumes "hl_build_responder (lb_noise lb) NOISE_PARAMS (tpriv_expose priv) = Ok r0"
    "accept_steps lb cred vk (new_context r0 s) = (Ok ((ts, tx, rx), details), hs)" "d \<le> HANDSHAKE_TIMEOUT"
  shows "accept lb (Some d) s priv cred vk = Ok ((ts, message_tx_new tx, message_rx_new rx), details)"
  using assms by (simp add: accept_def packets_accept_def with_timeout_def new_responder_def message_halves_def)

section \<open>An instance of the contracts\<close>

text \<open>A handshake that sends the static keys in the clear; the state is the role, the number of
  messages so far, the own key and the remote key. A public key is the private key itself.\<close>

type_synonym plain_state = "bool \<times> nat \<times> bytes \<times> bytes option"

definition plain_xx :: "(plain_state, tag_state) handshake_lib" where
  "plain_xx =
     \<lparr>hl_build_initiator = (\<lambda>_ key. Ok (True, 0, key, None)),
      hl_build_responder = (\<lambda>_ key. Ok (False, 0, key, None)),
      hl_write_message = (\<lambda>(ini, k, own, remote) pl buf.
        let ct = (if k = 0 then [] else own) @ pl in
        if k < 3 \<and> ini = even k \<and> length ct \<le> length buf
        then (Ok (length ct), ct @ drop (length ct) buf, (ini, Suc k, own, remote))
        else (Err ''write'', buf, (ini, k, own, remote))),
      hl_read_message = (\<lambda>(ini, k, own, remote) ct buf.
        if k < 3 \<and> ini \<noteq> even k \<and> (k = 0 \<or> 32 \<le> length ct) \<and> length ct \<le> length buf
        then if k = 0 then (Ok (length ct), ct @ drop (length ct) buf, (ini, Suc k, own, remote))
             else (Ok (length ct - 32), drop 32 ct @ drop (length ct - 32) buf, (ini, Suc k, own, Some (take 32 ct)))
        else (Err ''read'', buf, (ini, k, own, remote))),
      hl_get_remote_static = (\<lambda>(_, _, _, remote). remote),
      hl_into_transport_mode = (\<lambda>(_, k, _, _). if k = 3 then Ok (0, 0) else Err ''state'')\<rparr>"

definition plain_pair :: "nat \<Rightarrow> bytes \<Rightarrow> bytes \<Rightarrow> plain_state \<Rightarrow> plain_state \<Rightarrow> bool" where
  "plain_pair k si sr i r \<longleftrightarrow> length si = 32 \<and> length sr = 32
     \<and> i = (True, k, si, if 2 \<le> k then Some sr else None) \<and> r = (False, k, sr, if 3 \<le> k then Some si else None)"

lemma plain_xx_laws: "xx_laws plain_xx id plain_pair tag_sync"
  unfolding xx_laws_def writes_def opens_def
  by (auto simp: plain_xx_def plain_pair_def tag_sync_def handshake_cipher_def Let_def)

text \<open>A duplex stream is what is left to read and what has been written.\<close>

definition pair_reader :: "(bytes \<times> bytes) stream_reader" where
  "pair_reader =
     \<lparr>sr_read_u16 = (\<lambda>(rd, wr). case sr_read_u16 list_reader rd of (r, rd) \<Rightarrow> (r, rd, wr)),
      sr_read_exact = (\<lambda>(rd, wr) buf. case sr_read_exact list_reader rd buf of (r, buf, rd) \<Rightarrow> (r, buf, rd, wr))\<rparr>"

definition pair_writer :: "(bytes \<times> bytes) stream_writer" where
  "pair_writer = \<lparr>sw_write_all = (\<lambda>(rd, wr) bs. (Ok (), rd, wr @ bs)), sw_flush = (\<lambda>s. (Ok (), s))\<rparr>"

lemma pair_duplex: "duplex_laws pair_reader pair_writer id fst snd id id"
  by (auto simp: duplex_laws_def read_laws_def write_laws_def write_live_def pair_reader_def pair_writer_def
      list_reader_def split: list.splits)

definition sample_libs where
  "sample_libs = \<lparr>lb_noise = plain_xx, lb_reader = pair_reader, lb_writer = pair_writer, lb_split = id,
     lb_yatlv = sample_yatlv, lb_ed25519 = sample_ed\<rparr>"

lemma sample_libs_simps [simp]:
  "lb_noise sample_libs = plain_xx" "lb_reader sample_libs = pair_reader" "lb_writer sample_libs = pair_writer"
  "lb_split sample_libs = id" "lb_yatlv sample_libs = sample_yatlv" "lb_ed25519 sample_libs = sample_ed"
  by (simp_all add: sample_libs_def)

definition sample_priv :: "u8 \<Rightarrow> TransportPrivateKey" where
  "sample_priv b = TransportPrivateKey (replicate 32 b)"

definition sample_header :: "u8 \<Rightarrow> AuthHeader" where
  "sample_header b = \<lparr>ah_node_id = NodeId [b], ah_role = None, ah_public_key = TransportPublicKey (replicate 32 b)\<rparr>"

lemma sample_node: "node_ok sample_libs id sample_sk (sample_priv b) (sample_header b)"
  by (simp add: node_ok_def tpriv_ok_def header_ok_def tpub_ok_def node_id_ok_def MAX_NODE_ID_LEN_def sample_priv_def
      sample_header_def credential_def auth_sign_def signer.sign_length [OF sample_ed_laws] SIGNATURE_LEN_def
      to_yatlv_def sample_yatlv_def tlv_print_def Let_def)

lemmas sample_laws = sample_yatlv_laws sample_ed_laws sample_key_pair

lemma sample_libs_laws: "xx_laws (lb_noise sample_libs) id plain_pair tag_sync"
  "duplex_laws (lb_reader sample_libs) (lb_writer sample_libs) (lb_split sample_libs) fst snd id id"
  "yatlv_laws (lb_yatlv sample_libs)" "ed25519_laws (lb_ed25519 sample_libs)"
  "key_pair (lb_ed25519 sample_libs) sample_sk sample_vk"
  by (simp_all add: plain_xx_laws pair_duplex sample_laws)

text \<open>A responder with static key \<open>9 ... 9\<close> whose second message carries \<open>pl\<close>, as the initiator sees
  it.\<close>

definition sample_start :: "bytes \<Rightarrow> (plain_state, bytes \<times> bytes) HandshakeContext" where
  "sample_start pl = new_context (True, 0, replicate 32 1, None) (frame_of (replicate 32 9 @ pl), [])"

lemma sample_second_message:
  assumes "length pl + 32 \<le> 65535"
  obtains c1 c where "send plain_xx pair_writer (sample_start pl) [] = (Ok (), c1)"
    "recv plain_xx pair_reader c1 = (Ok pl, c)" "remote_static plain_xx c = Ok (TransportPublicKey (replicate 32 9))"
proof -
  let ?c0 = "sample_start pl" and ?ct = "replicate 32 9 @ pl"
  let ?nb = "u16_to_be_bytes (of_nat 0) @ drop FRAME_HEADER_SIZE fresh_buf"
  let ?i1 = "(True, 1, replicate 32 1, None) :: plain_state"
  let ?i2 = "(True, 2, replicate 32 1, Some (replicate 32 9)) :: plain_state"
  have c0: "hc_handshake ?c0 = (True, 0, replicate 32 1, None)" "hc_noise_buf ?c0 = fresh_buf"
    "hc_stream ?c0 = (frame_of ?ct, [])" by (simp_all add: sample_start_def new_context_def)
  have "hl_write_message plain_xx (hc_handshake ?c0) [] (drop FRAME_HEADER_SIZE (hc_noise_buf ?c0))
      = (Ok 0, drop FRAME_HEADER_SIZE fresh_buf, ?i1)" unfolding c0 by (simp add: plain_xx_def)
  from send_step [OF pair_duplex this] obtain s1 where
    s1: "send plain_xx pair_writer ?c0 [] = (Ok (), ?c0\<lparr>hc_handshake := ?i1, hc_noise_buf := ?nb, hc_stream := s1\<rparr>)"
    (is "_ = (_, ?c1)") and pend: "fst s1 = frame_of ?ct" unfolding c0 by (auto simp: size_defs)
  have "hl_read_message plain_xx (hc_handshake ?c1) ?ct (hc_noise_buf ?c1) = (Ok (length pl), pl @ drop (length pl) ?nb, ?i2)"
    using assms by (simp add: plain_xx_def size_defs)
  from recv_step [OF pair_duplex _ _ this, of "[]"] pend assms obtain s2 where
    "recv plain_xx pair_reader ?c1 = (Ok pl, ?c1\<lparr>hc_handshake := ?i2, hc_noise_buf := pl @ drop (length pl) ?nb,
      hc_frame := ?ct, hc_stream := s2\<rparr>)" (is "_ = (_, ?c)") by auto
  moreover have "remote_static plain_xx ?c = Ok (TransportPublicKey (replicate 32 9))"
    by (simp add: remote_static_def plain_xx_def try_into_array32_def)
  ultimately show thesis by (rule that [OF s1])
qed

section \<open>Properties\<close>

text \<open>C1: A handshake that succeeds, on either side, has authenticated the peer: the details it returns
  are those of a header that arrived in a record signed with the cluster key, as a payload of this
  very session, and the remote static key of the session is the key the header declares; if the
  record is not a forgery, the header is one the operator issued. Both halves start in their
  initial states.\<close>

theorem handshake_authenticates:
  assumes "accept lb took stream priv cred key = Ok ((state, mtx, mrx), details)
    \<or> connect lb took stream priv cred key = Ok ((state, mtx, mrx), details)"
  shows "\<exists>pl h. peer_checked lb key pl h state \<and> details = AuthDetails_from h
    \<and> (\<forall>issued. yatlv_laws (lb_yatlv lb) \<longrightarrow> not_forged (lb_yatlv lb) (lb_ed25519 lb) key issued pl \<longrightarrow> h \<in> issued)
    \<and> tx_builder mtx = builder_new \<and> rx_reader mrx = reader_new"
proof -
  obtain pl h where chk: "peer_checked lb key pl h state" "details = AuthDetails_from h"
    "tx_builder mtx = builder_new" "rx_reader mrx = reader_new"
    using assms by (elim disjE accept_checked connect_checked)
  have "verify_raw (lb_yatlv lb) (lb_ed25519 lb) key pl = Ok h" using chk(1) by (simp add: peer_checked_def)
  with chk auth.credential_issued show ?thesis by blast
qed

theorem handshake_authenticates_witness:
  "\<exists>stream state mtx mrx pl h.
      accept sample_libs (Some 7) stream (sample_priv 2) (credential sample_libs sample_sk (sample_header 2)) sample_vk
        = Ok ((state, mtx, mrx), AuthDetails_from h)
    \<and> peer_checked sample_libs sample_vk pl h state \<and> tx_builder mtx = builder_new"
proof -
  obtain m1 m2 m3 r0 tr where b: "hl_build_responder (lb_noise sample_libs) NOISE_PARAMS (tpriv_expose (sample_priv 2)) = Ok r0"
    and acc: "\<forall>s rest. fst s = frame_of m1 @ frame_of m3 @ rest \<longrightarrow> (\<exists>tx rx hs.
      accept_steps sample_libs (credential sample_libs sample_sk (sample_header 2)) sample_vk (new_context r0 s)
        = (Ok ((tr, tx, rx), AuthDetails_from (sample_header 1)), hs)
      \<and> tx_packet_builder tx = builder_new \<and> rx_packet_reader rx = reader_new
      \<and> id (tx_write tx) = snd s @ frame_of m2 \<and> id (rx_read rx) = rest)"
    by (rule xx_runs [OF sample_libs_laws sample_node [of 1] sample_node [of 2] zero_less_power [OF zero_less_numeral]])
      blast
  let ?s = "(frame_of m1 @ frame_of m3, [])"
  from acc obtain tx rx hs where
    "accept_steps sample_libs (credential sample_libs sample_sk (sample_header 2)) sample_vk (new_context r0 ?s)
      = (Ok ((tr, tx, rx), AuthDetails_from (sample_header 1)), hs)" by (metis append_Nil2 fst_conv)
  from accept_of_steps [OF b this, of 7] have ok: "accept sample_libs (Some 7) ?s (sample_priv 2)
      (credential sample_libs sample_sk (sample_header 2)) sample_vk
      = Ok ((tr, message_tx_new tx, message_rx_new rx), AuthDetails_from (sample_header 1))"
    by (simp add: HANDSHAKE_TIMEOUT_def)
  from handshake_authenticates [OF disjI1, OF ok] ok show ?thesis by metis
qed

text \<open>C11: The initiator does not show its credential to a peer it has not authenticated: when
  \<open>connect\<close> ends with an authentication error, its result and everything it did to the stream are
  the same whatever its own signed header is.\<close>

theorem connect_withholds_credential:
  assumes "connect_steps lb cred key hs = (Err (BadAuthErr e), hs')"
  shows "connect_steps lb cred' key hs = (Err (BadAuthErr e), hs')"
proof -
  have not_auth: "fst (send hl sw c pl) \<noteq> Err (BadAuthErr e)" "fst (recv hl sr c) \<noteq> Err (BadAuthErr e)"
    "fst (finish lb h c) \<noteq> Err (BadAuthErr e)" for hl sw sr c pl h
    by (auto simp: send_def recv_def read_frame_def finish_def into_split_def Let_def
        split: prod.splits result.splits dest!: map_err_eq_Err [THEN iffD1])
  obtain r1 c1 where s1: "send (lb_noise lb) (lb_writer lb) hs [] = (r1, c1)" by (cases "send (lb_noise lb) (lb_writer lb) hs []")
  show ?thesis
  proof (cases r1)
    case (Err x)
    with assms s1 show ?thesis by (simp add: connect_steps_def)
  next
    case (Ok u)
    obtain r2 c2 where s2: "recv (lb_noise lb) (lb_reader lb) c1 = (r2, c2)" by (cases "recv (lb_noise lb) (lb_reader lb) c1")
    show ?thesis
    proof (cases r2)
      case (Err x)
      with assms s1 s2 \<open>r1 = Ok u\<close> show ?thesis by (simp add: connect_steps_def)
    next
      case (Ok pl)
      have "\<exists>x. check_peer lb key pl c2 = Err x"
      proof (rule ccontr)
        assume "\<nexists>x. check_peer lb key pl c2 = Err x"
        then obtain h where h: "check_peer lb key pl c2 = Ok h" by (metis result.exhaust)
        obtain r3 c3 where s3: "send (lb_noise lb) (lb_writer lb) c2 (sah_expose cred) = (r3, c3)"
          by (cases "send (lb_noise lb) (lb_writer lb) c2 (sah_expose cred)")
        from assms s1 s2 s3 h \<open>r1 = Ok u\<close> Ok not_auth(1) [of "lb_noise lb" "lb_writer lb" c2 "sah_expose cred"]
          not_auth(3) [of h c3] show False
          by (cases r3) (auto simp: connect_steps_def)
      qed
      with assms s1 s2 \<open>r1 = Ok u\<close> Ok show ?thesis by (auto simp: connect_steps_def)
    qed
  qed
qed

theorem connect_withholds_credential_witness:
  "\<exists>c. connect_steps sample_libs (SignedAuthHeader [1]) sample_vk (sample_start [5])
        = (Err (BadAuthErr (Signature MalformedRecord)), c)
    \<and> connect_steps sample_libs (SignedAuthHeader [2]) sample_vk (sample_start [5])
        = (Err (BadAuthErr (Signature MalformedRecord)), c)"
proof -
  obtain c1 c where "send plain_xx pair_writer (sample_start [5]) [] = (Ok (), c1)"
    "recv plain_xx pair_reader c1 = (Ok [5], c)"
    by (rule sample_second_message [of "[5]"]) simp_all
  moreover have "check_peer sample_libs sample_vk [5] c = Err (BadAuthErr (Signature MalformedRecord))"
    by (simp add: check_peer_def verify_raw_def sample_vk_def SIGNATURE_LEN_def)
  ultimately have "connect_steps sample_libs (SignedAuthHeader [1]) sample_vk (sample_start [5])
      = (Err (BadAuthErr (Signature MalformedRecord)), c)" by (simp add: connect_steps_def)
  from connect_withholds_credential [OF this] this show ?thesis by blast
qed

text \<open>C14: A genuine credential in the wrong hands is refused: when the header that arrived verifies
  but the static key of the session is not the one it declares, both \<open>accept\<close> and \<open>connect\<close> fail
  with \<open>PublicKeyMismatch\<close>, naming both keys, and hand out no transport.\<close>

theorem stolen_credential_refused:
  assumes "verify_raw (lb_yatlv lb) (lb_ed25519 lb) key pl = Ok h" "remote_static (lb_noise lb) c = Ok k"
    "ah_public_key h \<noteq> k"
  shows "(recv (lb_noise lb) (lb_reader lb) hs = (Ok pl0, c1)
      \<longrightarrow> send (lb_noise lb) (lb_writer lb) c1 (sah_expose cred) = (Ok (), c2)
      \<longrightarrow> recv (lb_noise lb) (lb_reader lb) c2 = (Ok pl, c)
      \<longrightarrow> accept_steps lb cred key hs = (Err (BadAuthErr (PublicKeyMismatch (ah_public_key h) k)), c))
    \<and> (send (lb_noise lb) (lb_writer lb) hs [] = (Ok (), c1)
      \<longrightarrow> recv (lb_noise lb) (lb_reader lb) c1 = (Ok pl, c)
      \<longrightarrow> connect_steps lb cred key hs = (Err (BadAuthErr (PublicKeyMismatch (ah_public_key h) k)), c))"
  using check_peer_mismatch [OF assms] by (simp add: accept_steps_def connect_steps_def)

theorem stolen_credential_refused_witness:
  "\<exists>c. connect_steps sample_libs (SignedAuthHeader [1]) sample_vk
      (sample_start (sah_expose (credential sample_libs sample_sk (sample_header 1))))
    = (Err (BadAuthErr (PublicKeyMismatch (TransportPublicKey (replicate 32 1)) (TransportPublicKey (replicate 32 9)))), c)"
proof -
  let ?pl = "sah_expose (credential sample_libs sample_sk (sample_header 1))"
  have "length ?pl + 32 \<le> 65535" using sample_node [of 1] by (simp add: node_ok_def)
  then obtain c1 c where run: "send plain_xx pair_writer (sample_start ?pl) [] = (Ok (), c1)"
    "recv plain_xx pair_reader c1 = (Ok ?pl, c)" "remote_static plain_xx c = Ok (TransportPublicKey (replicate 32 9))"
    by (rule sample_second_message)
  have "verify_raw sample_yatlv sample_ed sample_vk ?pl = Ok (sample_header 1)"
    using verify_raw_sign [OF sample_laws, of "sample_header 1"] sample_node [of 1]
    by (simp add: credential_def node_ok_def)
  with run stolen_credential_refused [of sample_libs sample_vk ?pl "sample_header 1" c
      "TransportPublicKey (replicate 32 9)" "sample_start ?pl" _ c1]
  show ?thesis by (simp add: sample_header_def replicate_eq_replicate)
qed

text \<open>C10: Two nodes set up by the same operator complete the handshake. There are three messages, the
  same for all streams, such that when each side is brought what the other side sends, both
  \<open>connect\<close> and \<open>accept\<close> succeed, each with the other's node id and role; they have written exactly
  these messages and read nothing beyond them; and the two pairs of halves form an idle link in
  each direction.\<close>

theorem handshake_completes:
  assumes "xx_laws (lb_noise lb) public pair sync"
    and lib: "duplex_laws (lb_reader lb) (lb_writer lb) (lb_split lb) pending written hp hw"
    and sig: "yatlv_laws (lb_yatlv lb)" "ed25519_laws (lb_ed25519 lb)" "key_pair (lb_ed25519 lb) sk vk"
    and nodes: "node_ok lb public sk privi hi" "node_ok lb public sk privr hr"
    and "d \<le> HANDSHAKE_TIMEOUT" "d' \<le> HANDSHAKE_TIMEOUT" "n < 2 ^ 64"
  shows "\<exists>m1 m2 m3. \<forall>si sr resti restr.
    pending si = frame_of m2 @ resti \<longrightarrow> pending sr = frame_of m1 @ frame_of m3 @ restr \<longrightarrow>
    (\<exists>ti txi rxi tr txr rxr.
       connect lb (Some d) si privi (credential lb sk hi) vk = Ok ((ti, txi, rxi), AuthDetails_from hr)
     \<and> accept lb (Some d') sr privr (credential lb sk hr) vk = Ok ((tr, txr, rxr), AuthDetails_from hi)
     \<and> hw (tx_write (mt_packets txi)) = written si @ frame_of m1 @ frame_of m3
     \<and> hw (tx_write (mt_packets txr)) = written sr @ frame_of m2
     \<and> hp (rx_read (mr_packets rxi)) = resti \<and> hp (rx_read (mr_packets rxr)) = restr
     \<and> linked sync n (ti, txi) (tr, rxr) \<and> linked sync n (tr, txr) (ti, rxi))"
proof -
  obtain m1 m2 m3 i0 r0 ti tr where
    b: "hl_build_initiator (lb_noise lb) NOISE_PARAMS (tpriv_expose privi) = Ok i0"
      "hl_build_responder (lb_noise lb) NOISE_PARAMS (tpriv_expose privr) = Ok r0"
    and sy: "sync n ti tr" "sync n tr ti"
    and con: "\<forall>s rest. pending s = frame_of m2 @ rest \<longrightarrow> (\<exists>tx rx hs.
      connect_steps lb (credential lb sk hi) vk (new_context i0 s) = (Ok ((ti, tx, rx), AuthDetails_from hr), hs)
      \<and> tx_packet_builder tx = builder_new \<and> rx_packet_reader rx = reader_new
      \<and> hw (tx_write tx) = written s @ frame_of m1 @ frame_of m3 \<and> hp (rx_read rx) = rest)"
    and acc: "\<forall>s rest. pending s = frame_of m1 @ frame_of m3 @ rest \<longrightarrow> (\<exists>tx rx hs.
      accept_steps lb (credential lb sk hr) vk (new_context r0 s) = (Ok ((tr, tx, rx), AuthDetails_from hi), hs)
      \<and> tx_packet_builder tx = builder_new \<and> rx_packet_reader rx = reader_new
      \<and> hw (tx_write tx) = written s @ frame_of m2 \<and> hp (rx_read rx) = rest)"
    by (rule xx_runs [OF assms(1-7,10)]) blast
  show ?thesis
  proof (rule exI [of _ m1], rule exI [of _ m2], rule exI [of _ m3], intro allI impI)
    fix si sr resti restr
    assume "pending si = frame_of m2 @ resti" and "pending sr = frame_of m1 @ frame_of m3 @ restr"
    with con acc obtain txi rxi hsi txr rxr hsr where
      c: "connect_steps lb (credential lb sk hi) vk (new_context i0 si) = (Ok ((ti, txi, rxi), AuthDetails_from hr), hsi)"
        "tx_packet_builder txi = builder_new" "rx_packet_reader rxi = reader_new"
        "hw (tx_write txi) = written si @ frame_of m1 @ frame_of m3" "hp (rx_read rxi) = resti"
      and a: "accept_steps lb (credential lb sk hr) vk (new_context r0 sr) = (Ok ((tr, txr, rxr), AuthDetails_from hi), hsr)"
        "tx_packet_builder txr = builder_new" "rx_packet_reader rxr = reader_new"
        "hw (tx_write txr) = written sr @ frame_of m2" "hp (rx_read rxr) = restr"
      by meson
    note cn = connect_of_steps [OF b(1) c(1) assms(8)] and ac = accept_of_steps [OF b(2) a(1) assms(9)]
    note lk = halves_linked [where sync = sync and n = n, OF c(2) a(3) sy(1)]
      halves_linked [where sync = sync and n = n, OF a(2) c(3) sy(2)]
    show "\<exists>ti txi rxi tr txr rxr.
       connect lb (Some d) si privi (credential lb sk hi) vk = Ok ((ti, txi, rxi), AuthDetails_from hr)
     \<and> accept lb (Some d') sr privr (credential lb sk hr) vk = Ok ((tr, txr, rxr), AuthDetails_from hi)
     \<and> hw (tx_write (mt_packets txi)) = written si @ frame_of m1 @ frame_of m3
     \<and> hw (tx_write (mt_packets txr)) = written sr @ frame_of m2
     \<and> hp (rx_read (mr_packets rxi)) = resti \<and> hp (rx_read (mr_packets rxr)) = restr
     \<and> linked sync n (ti, txi) (tr, rxr) \<and> linked sync n (tr, txr) (ti, rxi)"
      using cn ac lk c(4,5) a(4,5)
      by (rule_tac x = ti in exI, rule_tac x = "message_tx_new txi" in exI, rule_tac x = "message_rx_new rxi" in exI,
          rule_tac x = tr in exI, rule_tac x = "message_tx_new txr" in exI, rule_tac x = "message_rx_new rxr" in exI)
        (simp add: message_tx_new_def message_rx_new_def)
  qed
qed

theorem handshake_completes_witness:
  "\<exists>m1 m2 m3 ti txi rxi tr txr rxr.
      connect sample_libs (Some 3) (frame_of m2, []) (sample_priv 1) (credential sample_libs sample_sk (sample_header 1)) sample_vk
        = Ok ((ti, txi, rxi), AuthDetails_from (sample_header 2))
    \<and> accept sample_libs (Some 4) (frame_of m1 @ frame_of m3, []) (sample_priv 2)
        (credential sample_libs sample_sk (sample_header 2)) sample_vk
        = Ok ((tr, txr, rxr), AuthDetails_from (sample_header 1))
    \<and> linked tag_sync 1000 (ti, txi) (tr, rxr) \<and> linked tag_sync 1000 (tr, txr) (ti, rxi)"
proof -
  have "\<exists>m1 m2 m3. \<forall>si sr resti restr. fst si = frame_of m2 @ resti \<longrightarrow> fst sr = frame_of m1 @ frame_of m3 @ restr \<longrightarrow>
    (\<exists>ti txi rxi tr txr rxr.
      connect sample_libs (Some 3) si (sample_priv 1) (credential sample_libs sample_sk (sample_header 1)) sample_vk
        = Ok ((ti, txi, rxi), AuthDetails_from (sample_header 2))
    \<and> accept sample_libs (Some 4) sr (sample_priv 2) (credential sample_libs sample_sk (sample_header 2)) sample_vk
        = Ok ((tr, txr, rxr), AuthDetails_from (sample_header 1))
    \<and> id (tx_write (mt_packets txi)) = snd si @ frame_of m1 @ frame_of m3
    \<and> id (tx_write (mt_packets txr)) = snd sr @ frame_of m2
    \<and> id (rx_read (mr_packets rxi)) = resti \<and> id (rx_read (mr_packets rxr)) = restr
    \<and> linked tag_sync 1000 (ti, txi) (tr, rxr) \<and> linked tag_sync 1000 (tr, txr) (ti, rxi))"
    by (rule handshake_completes [OF sample_libs_laws sample_node sample_node]) (simp_all add: HANDSHAKE_TIMEOUT_def)
  then show ?thesis by (metis append_Nil2 fst_conv)
qed

end
