(* ===== verification/Pool.thy ===== *)
theory Pool
  imports Handshake_Run
begin

text \<open>
  Model of \<open>src/pool.rs\<close>, first part: credentials, connectors, \<open>try_connect\<close>, the loop of
  \<open>reconnect_task\<close> with its backoff, and the table of peers of \<open>ConnectionPool\<close>. How the reconnect
  task, the guards and the waiters of one link interleave is in theory \<open>Pool_Link\<close>.

  Metrics and log lines have no effect on the state and are left out.
\<close>

section \<open>Data\<close>

record 'vk Credentials =
  cr_private_key :: TransportPrivateKey
  cr_auth_header :: SignedAuthHeader
  cr_verification_key :: "'vk SignatureVerificationKey"

text \<open>A \<open>Connector\<close> is what \<open>connect()\<close> answers; \<open>TcpConnector\<close> is the one of the crate, over what
  \<open>tokio::net\<close> provides.\<close>

type_synonym 's connector = "('s, ConnectionError) result"

record TcpConnector =
  tc_hostname :: string
  tc_port :: u16

record 's tcp_lib =
  tcp_stream_connect :: "string \<times> u16 \<Rightarrow> ('s, io_error) result"
  tcp_set_nodelay :: "'s \<Rightarrow> bool \<Rightarrow> (unit, io_error) result"

definition tcp_connect :: "'s tcp_lib \<Rightarrow> TcpConnector \<Rightarrow> 's connector" where
  "tcp_connect net c =
     (let addr = (tc_hostname c, tc_port c) in
      case tcp_stream_connect net addr of
        Err e \<Rightarrow> Err (Io e)
      | Ok stream \<Rightarrow>
          (case tcp_set_nodelay net stream True of
             Err e \<Rightarrow> Err (Io e)
           | Ok _ \<Rightarrow> Ok stream))"

section \<open>Connecting to a peer\<close>

definition try_connect where
  "try_connect lb took (connector :: 's connector) target creds =
     (case connector of
        Err e \<Rightarrow> Err e
      | Ok stream \<Rightarrow>
          (case connect lb took stream (cr_private_key creds) (cr_auth_header creds) (cr_verification_key creds) of
             Err e \<Rightarrow> Err e
           | Ok ((state, tx, rx), auth_details) \<Rightarrow>
               (case check_node_id auth_details target of
                  Err e \<Rightarrow> Err (BadAuthErr e)
                | Ok _ \<Rightarrow> Ok (state, tx, rx))))"

text \<open>Milliseconds.\<close>

definition FIRST_BACKOFF :: nat where "FIRST_BACKOFF = 50"
definition MAX_BACKOFF :: nat where "MAX_BACKOFF = 30000"

definition next_backoff :: "nat \<Rightarrow> nat" where
  "next_backoff backoff = min (backoff * 2) MAX_BACKOFF"

text \<open>The \<open>loop\<close> of \<open>reconnect_task\<close> on the results of its attempts: how long it slept after each
  failure, and the connection it stopped with, if one of the attempts succeeded.\<close>

fun reconnect_loop :: "nat \<Rightarrow> ('c, ConnectionError) result list \<Rightarrow> nat list \<times> 'c option" where
  "reconnect_loop backoff [] = ([], None)"
| "reconnect_loop backoff (Ok c # rs) = ([], Some c)"
| "reconnect_loop backoff (Err e # rs) =
     (case reconnect_loop (next_backoff backoff) rs of (ds, r) \<Rightarrow> (backoff # ds, r))"

section \<open>The table of peers\<close>

text \<open>A link is known by its number, its target and its connector; \<open>pool_spawned\<close> are the links whose
  reconnect task was started when they were made. The map is the \<open>HashMap\<close> behind the mutex.\<close>

record 'cn PeerLink =
  pl_connector :: 'cn
  pl_target :: NodeId

record ('cn, 'vk) ConnectionPool =
  pool_creds :: "'vk Credentials"
  pool_peers :: "NodeId \<rightharpoonup> nat"
  pool_links :: "'cn PeerLink list"
  pool_spawned :: "nat list"

definition pool_new :: "'vk Credentials \<Rightarrow> ('cn, 'vk) ConnectionPool" where
  "pool_new creds = \<lparr>pool_creds = creds, pool_peers = Map.empty, pool_links = [], pool_spawned = []\<rparr>"

definition peer_link_new :: "'cn \<Rightarrow> NodeId \<Rightarrow> ('cn, 'vk) ConnectionPool \<Rightarrow> nat \<times> ('cn, 'vk) ConnectionPool" where
  "peer_link_new connector target pool =
     (let link = length (pool_links pool) in
      (link, pool\<lparr>pool_links := pool_links pool @ [\<lparr>pl_connector = connector, pl_target = target\<rparr>],
                  pool_spawned := pool_spawned pool @ [link]\<rparr>))"

text \<open>\<open>peer\<close> returns the \<open>Connection\<close>, which is its link, and whether \<open>make_connector\<close> was called.\<close>

definition peer :: "NodeId \<Rightarrow> (unit \<Rightarrow> 'cn) \<Rightarrow> ('cn, 'vk) ConnectionPool
    \<Rightarrow> (nat \<times> bool) \<times> ('cn, 'vk) ConnectionPool" where
  "peer target make_connector pool =
     (case pool_peers pool target of
        Some link \<Rightarrow> ((link, False), pool)
      | None \<Rightarrow>
          (case peer_link_new (make_connector ()) target pool of
             (link, pool) \<Rightarrow> ((link, True), pool\<lparr>pool_peers := (pool_peers pool)(target \<mapsto> link)\<rparr>)))"

definition pool_ok :: "('cn, 'vk) ConnectionPool \<Rightarrow> bool" where
  "pool_ok pool \<longleftrightarrow>
     (\<forall>target link. pool_peers pool target = Some link \<longrightarrow>
        link < length (pool_links pool) \<and> pl_target (pool_links pool ! link) = target)
   \<and> (\<forall>link < length (pool_links pool). pool_peers pool (pl_target (pool_links pool ! link)) = Some link)
   \<and> pool_spawned pool = [0..<length (pool_links pool)]"

lemma pool_ok_new: "pool_ok (pool_new creds)"
  by (simp add: pool_ok_def pool_new_def)

lemma pool_ok_peer:
  assumes "pool_ok pool"
  shows "pool_ok (snd (peer target mk pool))"
proof (cases "pool_peers pool target")
  case None
  let ?n = "length (pool_links pool)"
  have other: "pl_target (pool_links pool ! l) \<noteq> target" if "l < ?n" for l
    using assms that None unfolding pool_ok_def by (metis option.distinct(1))
  from assms None other show ?thesis
    by (auto simp: peer_def peer_link_new_def pool_ok_def Let_def nth_append less_Suc_eq)
qed (use assms in \<open>simp add: peer_def\<close>)

fun peers :: "(NodeId \<times> (unit \<Rightarrow> 'cn)) list \<Rightarrow> ('cn, 'vk) ConnectionPool
    \<Rightarrow> (nat \<times> bool) list \<times> ('cn, 'vk) ConnectionPool" where
  "peers [] pool = ([], pool)"
| "peers ((target, mk) # cs) pool =
     (case peer target mk pool of (r, pool) \<Rightarrow> (case peers cs pool of (rs, pool) \<Rightarrow> (r # rs, pool)))"

lemma pool_ok_peers: "pool_ok pool \<Longrightarrow> pool_ok (snd (peers cs pool))"
proof (induction cs pool rule: peers.induct)
  case (2 target mk cs pool)
  obtain r pool1 where p: "peer target mk pool = (r, pool1)" by (cases "peer target mk pool")
  with pool_ok_peer [OF 2(2), of target mk] have "pool_ok (snd (peers cs pool1))" by (intro 2(1)) simp_all
  with p show ?case by (cases "peers cs pool1") simp
qed simp

text \<open>What a sequence of calls has returned, and what the table says of it.\<close>

definition history :: "(NodeId \<times> (unit \<Rightarrow> 'cn)) list \<Rightarrow> (nat \<times> bool) list \<Rightarrow> ('cn, 'vk) ConnectionPool \<Rightarrow> bool" where
  "history calls rs pool \<longleftrightarrow> pool_ok pool \<and> length rs = length calls
     \<and> (\<forall>t. pool_peers pool t = None \<longleftrightarrow> t \<notin> fst ` set calls)
     \<and> (\<forall>i < length calls. pool_peers pool (fst (calls ! i)) = Some (fst (rs ! i)))
     \<and> (\<forall>i < length calls. snd (rs ! i) \<longleftrightarrow> fst (calls ! i) \<notin> fst ` set (take i calls))
     \<and> (\<forall>i < length calls. snd (rs ! i) \<longrightarrow>
          pool_links pool ! fst (rs ! i) = \<lparr>pl_connector = snd (calls ! i) (), pl_target = fst (calls ! i)\<rparr>)"

lemma pool_ok_inj:
  assumes "pool_ok pool" "pool_peers pool t = Some l" "pool_peers pool t' = Some l"
  shows "t = t'"
  using assms unfolding pool_ok_def by metis

lemma pool_ok_card:
  assumes "pool_ok pool"
  shows "length (pool_links pool) = card (dom (pool_peers pool))"
proof -
  have "bij_betw (\<lambda>l. pl_target (pool_links pool ! l)) {..<length (pool_links pool)} (dom (pool_peers pool))"
    using assms unfolding pool_ok_def
    by (intro bij_betw_byWitness [where f' = "\<lambda>t. the (pool_peers pool t)"]) (auto simp: dom_def)
  from bij_betw_same_card [OF this] show ?thesis by simp
qed

lemma peers_snoc:
  "peers (cs @ [(target, mk)]) pool =
     (case peers cs pool of (rs, pool) \<Rightarrow> case peer target mk pool of (r, pool) \<Rightarrow> (rs @ [r], pool))"
  by (induction cs pool rule: peers.induct) (auto split: prod.splits)

lemma historyD:
  assumes "history calls rs pool"
  shows "i < length calls \<Longrightarrow> pool_peers pool (fst (calls ! i)) = Some (fst (rs ! i))"
    and "pool_peers pool t = None \<longleftrightarrow> t \<notin> fst ` set calls"
    and "i < length calls \<Longrightarrow> snd (rs ! i) \<longleftrightarrow> fst (calls ! i) \<notin> fst ` set (take i calls)"
    and "i < length calls \<Longrightarrow> snd (rs ! i) \<Longrightarrow>
      pool_links pool ! fst (rs ! i) = \<lparr>pl_connector = snd (calls ! i) (), pl_target = fst (calls ! i)\<rparr>"
  using assms unfolding history_def by blast+

lemma history_step:
  assumes h: "history calls rs pool" and p: "peer target mk pool = (r, pool')"
  shows "history (calls @ [(target, mk)]) (rs @ [r]) pool'"
proof -
  have ok: "pool_ok pool'" using pool_ok_peer [of pool target mk] h by (simp add: history_def p)
  show ?thesis
  proof (cases "pool_peers pool target")
    case None
    have new: "target \<notin> fst ` set calls" using historyD(2) [OF h] None by blast
    have old: "fst (rs ! i) < length (pool_links pool)" "fst (calls ! i) \<noteq> target" if "i < length calls" for i
      using historyD(1) [OF h that] h new that by (auto simp: history_def pool_ok_def)
    have "pool_peers pool' = (pool_peers pool)(target \<mapsto> length (pool_links pool))" "r = (length (pool_links pool), True)"
      "pool_links pool' = pool_links pool @ [\<lparr>pl_connector = mk (), pl_target = target\<rparr>]"
      using p None by (auto simp: peer_def peer_link_new_def Let_def)
    with historyD [OF h] h ok old new show ?thesis
      by (simp add: history_def nth_append less_Suc_eq)
  next
    case (Some l)
    with historyD(2) [OF h, of target] have "target \<in> fst ` set calls" by simp
    with h p Some show ?thesis
      by (auto simp: history_def peer_def nth_append less_Suc_eq)
  qed
qed

lemma history_peers: "case peers calls (pool_new creds) of (rs, pool) \<Rightarrow> history calls rs pool"
proof (induction calls rule: rev_induct)
  case Nil
  then show ?case by (simp add: history_def pool_ok_new) (simp add: pool_new_def)
next
  case (snoc c calls)
  obtain target mk where c: "c = (target, mk)" by force
  obtain rs pool where p: "peers calls (pool_new creds) = (rs, pool)" by (cases "peers calls (pool_new creds)")
  obtain r pool' where q: "peer target mk pool = (r, pool')" by (cases "peer target mk pool")
  from snoc history_step [OF _ q] show ?case by (simp add: c peers_snoc p q)
qed

section \<open>The delays of the reconnect task\<close>

text \<open>The backoff after a number of failures.\<close>

definition backoff_after :: "nat \<Rightarrow> nat" where
  "backoff_after k = min (50 * 2 ^ k) 30000"

lemma backoff_after_0: "FIRST_BACKOFF = backoff_after 0"
  and next_backoff_after: "next_backoff (backoff_after k) = backoff_after (Suc k)"
  by (simp_all add: backoff_after_def FIRST_BACKOFF_def next_backoff_def MAX_BACKOFF_def)

lemma reconnect_loop_fails:
  "reconnect_loop (backoff_after j) (map Err es @ rs) =
     (case reconnect_loop (backoff_after (j + length es)) rs of
        (ds, c) \<Rightarrow> (map (\<lambda>k. backoff_after (j + k)) [0..<length es] @ ds, c))"
proof (induction es arbitrary: j)
  case (Cons e es)
  from Cons.IH [of "Suc j"] show ?case
    by (simp add: next_backoff_after map_upt_Suc split: prod.split del: upt_Suc)
qed (simp split: prod.split)

section \<open>A connection to a sample node\<close>

definition sample_creds where
  "sample_creds = \<lparr>cr_private_key = sample_priv 1, cr_auth_header = credential sample_libs sample_sk (sample_header 1),
     cr_verification_key = sample_vk\<rparr>"

lemma sample_try_connect:
  obtains s state mtx mrx where
    "try_connect sample_libs (Some 3) (Ok s) (NodeId [2]) sample_creds = Ok (state, mtx, mrx)"
proof -
  obtain m1 m2 m3 i0 ti where b: "hl_build_initiator (lb_noise sample_libs) NOISE_PARAMS (tpriv_expose (sample_priv 1)) = Ok i0"
    and con: "\<forall>s rest. fst s = frame_of m2 @ rest \<longrightarrow> (\<exists>tx rx hs.
      connect_steps sample_libs (credential sample_libs sample_sk (sample_header 1)) sample_vk (new_context i0 s)
        = (Ok ((ti, tx, rx), AuthDetails_from (sample_header 2)), hs)
      \<and> tx_packet_builder tx = builder_new \<and> rx_packet_reader rx = reader_new
      \<and> id (tx_write tx) = snd s @ frame_of m1 @ frame_of m3 \<and> id (rx_read rx) = rest)"
    by (rule xx_runs [OF sample_libs_laws sample_node [of 1] sample_node [of 2] zero_less_power [OF zero_less_numeral]])
      blast
  let ?s = "(frame_of m2, [])"
  from con obtain tx rx hs where
    "connect_steps sample_libs (credential sample_libs sample_sk (sample_header 1)) sample_vk (new_context i0 ?s)
      = (Ok ((ti, tx, rx), AuthDetails_from (sample_header 2)), hs)" by (metis append_Nil2 fst_conv)
  from connect_of_steps [OF b this, of 3] have "try_connect sample_libs (Some 3) (Ok ?s) (NodeId [2]) sample_creds
      = Ok (ti, message_tx_new tx, message_rx_new rx)"
    by (simp add: try_connect_def HANDSHAKE_TIMEOUT_def check_node_id_def AuthDetails_from_def sample_header_def
        sample_creds_def)
  then show thesis by (rule that)
qed

section \<open>Properties\<close>

lemma try_connect_checked:
  assumes "try_connect lb took connector target creds = Ok (state, mtx, mrx)"
  obtains pl h where "peer_checked lb (cr_verification_key creds) pl h state" "ah_node_id h = target"
    "tx_builder mtx = builder_new" "rx_reader mrx = reader_new"
proof -
  from assms obtain stream details where
    "connect lb took stream (cr_private_key creds) (cr_auth_header creds) (cr_verification_key creds)
      = Ok ((state, mtx, mrx), details)" and id: "ad_node_id details = target"
    by (auto simp: try_connect_def check_node_id_def split: result.splits prod.splits if_splits)
  from this(1) obtain pl h where "peer_checked lb (cr_verification_key creds) pl h state"
    "details = AuthDetails_from h" "tx_builder mtx = builder_new" "rx_reader mrx = reader_new"
    by (rule connect_checked)
  with id that show thesis by (auto simp: AuthDetails_from_def)
qed

text \<open>C6: The pool never hands out a connection to the wrong node: when \<open>try_connect\<close> succeeds, the
  handshake has authenticated a header of the target itself, presented in the session that became
  the connection by the holder of the key the header declares.\<close>

theorem try_connect_reaches_target:
  assumes "try_connect lb took connector target creds = Ok (state, mtx, mrx)"
  shows "\<exists>pl h. peer_checked lb (cr_verification_key creds) pl h state \<and> ah_node_id h = target
    \<and> tx_builder mtx = builder_new \<and> rx_reader mrx = reader_new"
  by (rule try_connect_checked [OF assms]) blast

theorem try_connect_reaches_target_witness:
  "\<exists>s state mtx mrx pl h.
      try_connect sample_libs (Some 3) (Ok s) (NodeId [2]) sample_creds = Ok (state, mtx, mrx)
    \<and> peer_checked sample_libs (cr_verification_key sample_creds) pl h state \<and> ah_node_id h = NodeId [2]"
proof -
  obtain s state mtx mrx where
    "try_connect sample_libs (Some 3) (Ok s) (NodeId [2]) sample_creds = Ok (state, mtx, mrx)"
    by (rule sample_try_connect)
  with try_connect_reaches_target [OF this] show ?thesis by blast
qed

text \<open>C37: The delays of the reconnect task, for every number of failed attempts: the \<open>k\<close>-th failure,
  counted from zero, is followed by a sleep of \<open>50 * 2 ^ k\<close> milliseconds, at most 30 seconds; the first
  attempt that succeeds ends the loop, with the connection of that attempt, no further sleep and no
  further attempt; and as long as all attempts fail there is no connection.\<close>

theorem reconnect_backoff:
  "reconnect_loop FIRST_BACKOFF (map Err es @ Ok c # rs) =
     (map (\<lambda>k. min (50 * 2 ^ k) 30000) [0..<length es], Some c)
   \<and> reconnect_loop FIRST_BACKOFF (map Err es :: ('c, ConnectionError) result list) =
     (map (\<lambda>k. min (50 * 2 ^ k) 30000) [0..<length es], None)"
  using reconnect_loop_fails [of 0 es "Ok c # rs"] reconnect_loop_fails [of 0 es "[]"]
  by (simp add: backoff_after_def FIRST_BACKOFF_def)

text \<open>C36: One link per peer, over any sequence of \<open>peer\<close> calls on a new pool: two calls return the same
  link exactly when they ask for the same node; a call makes a connector exactly when no earlier call
  asked for the node; the link a call returns has the node asked for as its target and the connector
  of the first call for that node; there are as many links as there are different nodes, and each had
  its reconnect task started once.\<close>

theorem one_link_per_peer:
  fixes creds :: "'vk Credentials" and calls :: "(NodeId \<times> (unit \<Rightarrow> 'cn)) list"
  assumes "peers calls (pool_new creds) = (rs, pool)"
  shows "length rs = length calls
    \<and> (i < length calls \<longrightarrow> j < length calls \<longrightarrow> (fst (rs ! i) = fst (rs ! j) \<longleftrightarrow> fst (calls ! i) = fst (calls ! j)))
    \<and> (j < length calls \<longrightarrow> (snd (rs ! j) \<longleftrightarrow> fst (calls ! j) \<notin> fst ` set (take j calls)))
    \<and> (i < length calls \<longrightarrow> j < length calls \<longrightarrow> snd (rs ! i) \<longrightarrow> fst (calls ! i) = fst (calls ! j) \<longrightarrow>
         pool_links pool ! fst (rs ! j) = \<lparr>pl_connector = snd (calls ! i) (), pl_target = fst (calls ! j)\<rparr>)
    \<and> length (pool_links pool) = card (fst ` set calls)
    \<and> pool_spawned pool = [0..<length (pool_links pool)]"
proof -
  have h: "history calls rs pool" using history_peers [of calls creds] by (simp add: assms)
  then have ok: "pool_ok pool" by (simp add: history_def)
  note returned = historyD(1) [OF h]
  have "dom (pool_peers pool) = fst ` set calls" using historyD(2) [OF h] by (auto simp: dom_def)
  then have links: "length (pool_links pool) = card (fst ` set calls)" "pool_spawned pool = [0..<length (pool_links pool)]"
    using pool_ok_card [OF ok] ok by (simp_all add: pool_ok_def)
  have same: "fst (rs ! i) = fst (rs ! j) \<longleftrightarrow> fst (calls ! i) = fst (calls ! j)"
    if "i < length calls" "j < length calls"
    using pool_ok_inj [OF ok returned [OF that(1)], of "fst (calls ! j)"] returned [OF that(1)] returned [OF that(2)] by auto
  have kept: "pool_links pool ! fst (rs ! j) = \<lparr>pl_connector = snd (calls ! i) (), pl_target = fst (calls ! j)\<rparr>"
    if "i < length calls" "j < length calls" "snd (rs ! i)" "fst (calls ! i) = fst (calls ! j)"
    using historyD(4) [OF h that(1,3)] returned [OF that(1)] returned [OF that(2)] that(4) by simp
  have "length rs = length calls" using h by (simp add: history_def)
  then show ?thesis by (intro conjI impI same kept links historyD(3) [OF h])
qed

theorem one_link_per_peer_witness:
  "fst (fst (peers [(NodeId [1], \<lambda>_. ''a''), (NodeId [2], \<lambda>_. ''b''), (NodeId [1], \<lambda>_. ''c'')] (pool_new sample_creds)) ! 0)
     = fst (fst (peers [(NodeId [1], \<lambda>_. ''a''), (NodeId [2], \<lambda>_. ''b''), (NodeId [1], \<lambda>_. ''c'')] (pool_new sample_creds)) ! 2)"
  using one_link_per_peer [OF prod.collapse [symmetric],
      of "[(NodeId [1], \<lambda>_. ''a''), (NodeId [2], \<lambda>_. ''b''), (NodeId [1], \<lambda>_. ''c'')]" sample_creds 0 2]
  by simp

end
