(* ===== verification/Pool_Link.thy ===== *)
theory Pool_Link
  imports Pool
begin

text \<open>
  Model of \<open>src/pool.rs\<close>, second part: one \<open>PeerLink\<close> and everything that runs on it. The reconnect
  tasks, the \<open>acquire\<close> and \<open>wait_connected\<close> calls and the guards are processes that interleave at
  their await points and at every access to shared data. One relation per function has a rule for each
  of its steps; \<open>link_step\<close> is a step of any of them.
  The shared data are the \<open>LinkState\<close> behind the asynchronous mutex, the holder of the mutex, and
  the number of \<open>notify_waiters\<close> calls so far: a \<open>Notified\<close> future created when that number was \<open>g\<close>
  is woken by every later call, polled or not.

  A connection is abstract here; \<open>peer_of\<close> is the node at its other end. \<open>try_connect\<close> answers with a
  connection to the target (theory \<open>Pool\<close>), and using a connection does not change its peer.
\<close>

section \<open>State\<close>

datatype 'c LinkState = Connected 'c | Reconnecting

text \<open>Where a reconnect task is: attempting with the given backoff for the next failure, asleep,
  waiting for the mutex with a connection, or holding it before and after the store and after
  \<open>notify_waiters\<close>.\<close>

datatype 'c task_pc =
    Attempting nat
  | Asleep nat
  | WantsLock 'c
  | Locked 'c
  | Stored
  | Notified

text \<open>Where a client is: in \<open>acquire\<close> (waiting for the mutex, holding it), with a guard and its
  \<open>committed\<close> flag, at the end of the guard's \<open>drop\<close> with the mutex still held, or in
  \<open>wait_connected\<close> with a \<open>Notified\<close> of the given generation (waiting for the mutex, holding it,
  waiting for the notification).\<close>

datatype client_pc =
    Idle
  | AcquireWaits
  | AcquireHolds
  | InGuard bool
  | Releasing
  | WaitWaits nat
  | WaitHolds nat
  | WaitSleeps nat

datatype holder = Task nat | Client nat

record 'c link =
  lk_state :: "'c LinkState"
  lk_holder :: "holder option"
  lk_notified :: nat
  lk_tasks :: "nat \<rightharpoonup> 'c task_pc"
  lk_next_task :: nat
  lk_clients :: "nat \<Rightarrow> client_pc"

text \<open>\<open>PeerLink::new\<close>: not connected, one reconnect task started.\<close>

definition link_new :: "'c link" where
  "link_new = \<lparr>lk_state = Reconnecting, lk_holder = None, lk_notified = 0,
     lk_tasks = [0 \<mapsto> Attempting FIRST_BACKOFF], lk_next_task = 1, lk_clients = (\<lambda>_. Idle)\<rparr>"

section \<open>Steps\<close>

abbreviation set_task :: "nat \<Rightarrow> 'c task_pc option \<Rightarrow> 'c link \<Rightarrow> 'c link" where
  "set_task t pc s \<equiv> s\<lparr>lk_tasks := (lk_tasks s)(t := pc)\<rparr>"

abbreviation set_client :: "nat \<Rightarrow> client_pc \<Rightarrow> 'c link \<Rightarrow> 'c link" where
  "set_client i pc s \<equiv> s\<lparr>lk_clients := (lk_clients s)(i := pc)\<rparr>"

text \<open>\<open>reconnect_task\<close>: the attempt succeeds or fails, the task sleeps, doubles the backoff and tries
  again; with a connection it takes the mutex, stores, notifies and returns, which releases the mutex.\<close>

inductive reconnect_step :: "('c \<Rightarrow> NodeId) \<Rightarrow> NodeId \<Rightarrow> 'c link \<Rightarrow> 'c link \<Rightarrow> bool"
  for peer_of :: "'c \<Rightarrow> NodeId" and target :: NodeId where
  connect_ok: "lk_tasks s t = Some (Attempting b) \<Longrightarrow> peer_of c = target \<Longrightarrow>
    reconnect_step peer_of target s (set_task t (Some (WantsLock c)) s)"
| connect_failed: "lk_tasks s t = Some (Attempting b) \<Longrightarrow>
    reconnect_step peer_of target s (set_task t (Some (Asleep b)) s)"
| slept: "lk_tasks s t = Some (Asleep b) \<Longrightarrow>
    reconnect_step peer_of target s (set_task t (Some (Attempting (next_backoff b))) s)"
| task_locks: "lk_tasks s t = Some (WantsLock c) \<Longrightarrow> lk_holder s = None \<Longrightarrow>
    reconnect_step peer_of target s (set_task t (Some (Locked c)) s\<lparr>lk_holder := Some (Task t)\<rparr>)"
| task_stores: "lk_tasks s t = Some (Locked c) \<Longrightarrow>
    reconnect_step peer_of target s (set_task t (Some Stored) s\<lparr>lk_state := Connected c\<rparr>)"
| task_notifies: "lk_tasks s t = Some Stored \<Longrightarrow>
    reconnect_step peer_of target s (set_task t (Some Notified) s\<lparr>lk_notified := Suc (lk_notified s)\<rparr>)"
| task_returns: "lk_tasks s t = Some Notified \<Longrightarrow>
    reconnect_step peer_of target s (set_task t None s\<lparr>lk_holder := None\<rparr>)"

text \<open>\<open>acquire\<close>: wait for the mutex, then a guard that keeps it, or \<open>NotReady\<close>. The future can be
  dropped while it waits.\<close>

inductive acquire_step :: "'c link \<Rightarrow> 'c link \<Rightarrow> bool" where
  acquire_starts: "lk_clients s i = Idle \<Longrightarrow> acquire_step s (set_client i AcquireWaits s)"
| acquire_cancelled: "lk_clients s i = AcquireWaits \<Longrightarrow> acquire_step s (set_client i Idle s)"
| acquire_locks: "lk_clients s i = AcquireWaits \<Longrightarrow> lk_holder s = None \<Longrightarrow>
    acquire_step s (set_client i AcquireHolds s\<lparr>lk_holder := Some (Client i)\<rparr>)"
| acquire_ready: "lk_clients s i = AcquireHolds \<Longrightarrow> lk_state s = Connected c \<Longrightarrow>
    acquire_step s (set_client i (InGuard False) s)"
| acquire_not_ready: "lk_clients s i = AcquireHolds \<Longrightarrow> lk_state s = Reconnecting \<Longrightarrow>
    acquire_step s (set_client i Idle s\<lparr>lk_holder := None\<rparr>)"

text \<open>\<open>Guard::transport\<close>: the caller uses the two halves. There is no step in state \<open>Reconnecting\<close>, where
  the code is \<open>unreachable!\<close>.\<close>

inductive transport_step :: "('c \<Rightarrow> NodeId) \<Rightarrow> 'c link \<Rightarrow> 'c link \<Rightarrow> bool"
  for peer_of :: "'c \<Rightarrow> NodeId" where
  guard_uses: "lk_clients s i = InGuard False \<Longrightarrow> lk_state s = Connected c \<Longrightarrow> peer_of c' = peer_of c \<Longrightarrow>
    transport_step peer_of s (s\<lparr>lk_state := Connected c'\<rparr>)"

inductive commit_step :: "'c link \<Rightarrow> 'c link \<Rightarrow> bool" where
  guard_commits: "lk_clients s i = InGuard False \<Longrightarrow> commit_step s (set_client i (InGuard True) s)"

text \<open>\<open>Guard::drop\<close>: without a commit the link is reset and a reconnect task started; either way the
  mutex is released when \<open>drop\<close> returns. A guard can be dropped at any time.\<close>

inductive drop_step :: "'c link \<Rightarrow> 'c link \<Rightarrow> bool" where
  drop_committed: "lk_clients s i = InGuard True \<Longrightarrow> drop_step s (set_client i Releasing s)"
| drop_resets: "lk_clients s i = InGuard False \<Longrightarrow>
    drop_step s (set_client i Releasing
      (set_task (lk_next_task s) (Some (Attempting FIRST_BACKOFF)) s)
        \<lparr>lk_state := Reconnecting, lk_next_task := Suc (lk_next_task s)\<rparr>)"
| drop_releases: "lk_clients s i = Releasing \<Longrightarrow>
    drop_step s (set_client i Idle s\<lparr>lk_holder := None\<rparr>)"

text \<open>\<open>wait_connected\<close>: register for the notification, look at the state under the mutex, return or wait
  for the notification. \<open>tokio::time::timeout\<close> polls the future first, so the wait times out only when
  the notification has not come. The future can be dropped while it waits.\<close>

inductive wait_step :: "'c link \<Rightarrow> 'c link \<Rightarrow> bool" where
  wait_registers: "lk_clients s i = Idle \<Longrightarrow>
    wait_step s (set_client i (WaitWaits (lk_notified s)) s)"
| wait_cancelled: "lk_clients s i = WaitWaits g \<or> lk_clients s i = WaitSleeps g \<Longrightarrow>
    wait_step s (set_client i Idle s)"
| wait_locks: "lk_clients s i = WaitWaits g \<Longrightarrow> lk_holder s = None \<Longrightarrow>
    wait_step s (set_client i (WaitHolds g) s\<lparr>lk_holder := Some (Client i)\<rparr>)"
| wait_returns: "lk_clients s i = WaitHolds g \<Longrightarrow> lk_state s = Connected c \<Longrightarrow>
    wait_step s (set_client i Idle s\<lparr>lk_holder := None\<rparr>)"
| wait_sleeps: "lk_clients s i = WaitHolds g \<Longrightarrow> lk_state s = Reconnecting \<Longrightarrow>
    wait_step s (set_client i (WaitSleeps g) s\<lparr>lk_holder := None\<rparr>)"
| wait_woken: "lk_clients s i = WaitSleeps g \<Longrightarrow> g < lk_notified s \<Longrightarrow>
    wait_step s (set_client i (WaitWaits (lk_notified s)) s)"
| wait_times_out: "lk_clients s i = WaitSleeps g \<Longrightarrow> lk_notified s \<le> g \<Longrightarrow>
    wait_step s (set_client i Idle s)"

inductive link_step :: "('c \<Rightarrow> NodeId) \<Rightarrow> NodeId \<Rightarrow> 'c link \<Rightarrow> 'c link \<Rightarrow> bool"
  for peer_of :: "'c \<Rightarrow> NodeId" and target :: NodeId where
  by_task: "reconnect_step peer_of target s s' \<Longrightarrow> link_step peer_of target s s'"
| by_acquire: "acquire_step s s' \<Longrightarrow> link_step peer_of target s s'"
| by_transport: "transport_step peer_of s s' \<Longrightarrow> link_step peer_of target s s'"
| by_commit: "commit_step s s' \<Longrightarrow> link_step peer_of target s s'"
| by_drop: "drop_step s s' \<Longrightarrow> link_step peer_of target s s'"
| by_wait: "wait_step s s' \<Longrightarrow> link_step peer_of target s s'"

inductive_cases any_stepE: "link_step peer_of target s s'"
inductive_cases reconnect_stepE: "reconnect_step peer_of target s s'"
inductive_cases acquire_stepE: "acquire_step s s'"
inductive_cases transport_stepE: "transport_step peer_of s s'"
inductive_cases commit_stepE: "commit_step s s'"
inductive_cases drop_stepE: "drop_step s s'"
inductive_cases wait_stepE: "wait_step s s'"

lemmas link_stepEs =
  any_stepE reconnect_stepE acquire_stepE transport_stepE commit_stepE drop_stepE wait_stepE

section \<open>Invariants\<close>

fun task_holds :: "'c task_pc option \<Rightarrow> bool" where
  "task_holds (Some (Locked c)) = True"
| "task_holds (Some Stored) = True"
| "task_holds (Some Notified) = True"
| "task_holds _ = False"

text \<open>A task that has yet to store its connection.\<close>

fun task_pending :: "'c task_pc option \<Rightarrow> bool" where
  "task_pending (Some Stored) = False"
| "task_pending (Some Notified) = False"
| "task_pending (Some _) = True"
| "task_pending None = False"

fun client_holds :: "client_pc \<Rightarrow> bool" where
  "client_holds AcquireHolds = True"
| "client_holds (InGuard b) = True"
| "client_holds Releasing = True"
| "client_holds (WaitHolds g) = True"
| "client_holds _ = False"

definition lock_inv :: "'c link \<Rightarrow> bool" where
  "lock_inv s \<longleftrightarrow> (\<forall>t. task_holds (lk_tasks s t) \<longleftrightarrow> lk_holder s = Some (Task t))
     \<and> (\<forall>i. client_holds (lk_clients s i) \<longleftrightarrow> lk_holder s = Some (Client i))"

definition task_inv :: "'c link \<Rightarrow> bool" where
  "task_inv s \<longleftrightarrow> (\<forall>t. lk_next_task s \<le> t \<longrightarrow> lk_tasks s t = None)
     \<and> (\<forall>t t'. task_pending (lk_tasks s t) \<longrightarrow> task_pending (lk_tasks s t') \<longrightarrow> t = t')
     \<and> (lk_state s = Reconnecting \<longleftrightarrow> (\<exists>t. task_pending (lk_tasks s t)))"

definition guard_inv :: "'c link \<Rightarrow> bool" where
  "guard_inv s \<longleftrightarrow> (\<forall>i b. lk_clients s i = InGuard b \<longrightarrow> lk_state s \<noteq> Reconnecting)"

definition backoff_inv :: "'c link \<Rightarrow> bool" where
  "backoff_inv s \<longleftrightarrow> (\<forall>t b. lk_tasks s t = Some (Attempting b) \<or> lk_tasks s t = Some (Asleep b) \<longrightarrow>
     FIRST_BACKOFF \<le> b \<and> b \<le> MAX_BACKOFF)"

definition peer_inv :: "('c \<Rightarrow> NodeId) \<Rightarrow> NodeId \<Rightarrow> 'c link \<Rightarrow> bool" where
  "peer_inv peer_of target s \<longleftrightarrow> (\<forall>c. lk_state s = Connected c \<longrightarrow> peer_of c = target)
     \<and> (\<forall>t c. lk_tasks s t = Some (WantsLock c) \<or> lk_tasks s t = Some (Locked c) \<longrightarrow> peer_of c = target)"

text \<open>A client asleep in \<open>wait_connected\<close> while the link is connected has been notified, or is about
  to be.\<close>

definition wakeup_inv :: "'c link \<Rightarrow> bool" where
  "wakeup_inv s \<longleftrightarrow> (\<forall>i g. lk_clients s i = WaitWaits g \<or> lk_clients s i = WaitHolds g \<or> lk_clients s i = WaitSleeps g
        \<longrightarrow> g \<le> lk_notified s)
     \<and> (\<forall>i g. lk_clients s i = WaitSleeps g \<longrightarrow> lk_state s \<noteq> Reconnecting \<longrightarrow>
          g < lk_notified s \<or> (\<exists>t. lk_tasks s t = Some Stored))"

lemma lock_inv_step: "lock_inv s \<Longrightarrow> link_step peer_of target s s' \<Longrightarrow> lock_inv s'"
  by (elim link_stepEs; auto simp: lock_inv_def split: if_splits; metis task_holds.simps client_holds.simps)

lemma task_inv_step: "task_inv s \<Longrightarrow> guard_inv s \<Longrightarrow> lock_inv s \<Longrightarrow> link_step peer_of target s s' \<Longrightarrow> task_inv s'"
  by (elim link_stepEs; auto simp: task_inv_def guard_inv_def split: if_splits; metis task_pending.simps)

lemma next_backoff_bounds:
  "FIRST_BACKOFF \<le> b \<Longrightarrow> b \<le> MAX_BACKOFF \<Longrightarrow> FIRST_BACKOFF \<le> next_backoff b \<and> next_backoff b \<le> MAX_BACKOFF"
  by (simp add: FIRST_BACKOFF_def MAX_BACKOFF_def next_backoff_def)

lemma first_backoff_bounds: "FIRST_BACKOFF \<le> FIRST_BACKOFF \<and> FIRST_BACKOFF \<le> MAX_BACKOFF"
  by (simp add: FIRST_BACKOFF_def MAX_BACKOFF_def)

lemma backoff_inv_step: "backoff_inv s \<Longrightarrow> link_step peer_of target s s' \<Longrightarrow> backoff_inv s'"
  by (elim link_stepEs)
    (auto simp: backoff_inv_def next_backoff_bounds first_backoff_bounds split: if_splits)

lemma guard_inv_step: "guard_inv s \<Longrightarrow> lock_inv s \<Longrightarrow> link_step peer_of target s s' \<Longrightarrow> guard_inv s'"
  by (elim link_stepEs; auto simp: guard_inv_def lock_inv_def split: if_splits;
      metis client_holds.simps(2) holder.inject(2) option.inject)

lemma wakeup_inv_step: "wakeup_inv s \<Longrightarrow> link_step peer_of target s s' \<Longrightarrow> wakeup_inv s'"
  by (elim link_stepEs; auto simp: wakeup_inv_def le_SucI less_Suc_eq_le split: if_splits;
      metis option.inject task_pc.distinct)

lemma peer_inv_step: "peer_inv peer_of target s \<Longrightarrow> link_step peer_of target s s' \<Longrightarrow> peer_inv peer_of target s'"
  by (elim link_stepEs) (auto simp: peer_inv_def split: if_splits)

definition link_inv :: "('c \<Rightarrow> NodeId) \<Rightarrow> NodeId \<Rightarrow> 'c link \<Rightarrow> bool" where
  "link_inv peer_of target s \<longleftrightarrow> lock_inv s \<and> task_inv s \<and> guard_inv s \<and> backoff_inv s \<and> wakeup_inv s
     \<and> peer_inv peer_of target s"

lemmas link_inv_step_lemmas =
  lock_inv_step task_inv_step guard_inv_step backoff_inv_step wakeup_inv_step peer_inv_step

text \<open>Invariants of a step relation, for every state that can be reached.\<close>

locale invariant_of =
  fixes start :: "'s \<Rightarrow> bool" and step :: "'s \<Rightarrow> 's \<Rightarrow> bool" and inv :: "'s \<Rightarrow> bool"
  assumes starts: "start s \<Longrightarrow> inv s"
    and keeps: "inv s \<Longrightarrow> step s s' \<Longrightarrow> inv s'"
begin

lemma along: "step\<^sup>*\<^sup>* s s' \<Longrightarrow> inv s \<Longrightarrow> inv s'"
  by (induction rule: rtranclp_induct) (auto intro: keeps)

lemma reached: "start s \<Longrightarrow> step\<^sup>*\<^sup>* s s' \<Longrightarrow> inv s'"
  by (auto intro: along starts)

end

lemma link_inv_new: "link_inv peer_of target link_new"
  unfolding link_inv_def lock_inv_def task_inv_def guard_inv_def backoff_inv_def wakeup_inv_def peer_inv_def
  by (auto simp: link_new_def FIRST_BACKOFF_def MAX_BACKOFF_def split: if_splits)

lemma link_inv_step: "link_inv peer_of target s \<Longrightarrow> link_step peer_of target s s' \<Longrightarrow> link_inv peer_of target s'"
  unfolding link_inv_def by (blast intro: link_inv_step_lemmas)

interpretation pool_link: invariant_of "\<lambda>s. s = link_new" "link_step peer_of target" "link_inv peer_of target"
  for peer_of target
  by unfold_locales (auto intro: link_inv_new link_inv_step)

section \<open>The loop of the reconnect task\<close>

text \<open>A run of one task, with the durations it slept. The steps of a task follow \<open>reconnect_loop\<close>: on the
  same results, the task sleeps as long after each failure, and has the connection that ends the loop.\<close>

inductive task_run :: "('c \<Rightarrow> NodeId) \<Rightarrow> NodeId \<Rightarrow> nat \<Rightarrow> 'c link \<Rightarrow> nat list \<Rightarrow> 'c link \<Rightarrow> bool"
  for peer_of :: "'c \<Rightarrow> NodeId" and target :: NodeId and t :: nat where
  task_starts: "task_run peer_of target t s [] s"
| task_steps: "task_run peer_of target t s ds s1 \<Longrightarrow> reconnect_step peer_of target s1 s2 \<Longrightarrow>
    lk_tasks s2 t \<noteq> lk_tasks s1 t \<Longrightarrow>
    task_run peer_of target t s (ds @ (case lk_tasks s1 t of Some (Asleep d) \<Rightarrow> [d] | _ \<Rightarrow> [])) s2"

lemma task_run_trans:
  assumes "task_run peer_of target t s1 ds' s2" "task_run peer_of target t s ds s1"
  shows "task_run peer_of target t s (ds @ ds') s2"
  using assms
proof (induction rule: task_run.induct)
  case (task_steps s1 ds' s2 s3)
  from task_run.task_steps [OF task_steps.IH [OF task_steps.prems] task_steps.hyps(2,3)] show ?case by simp
qed simp

lemma failed_attempt:
  assumes "lk_tasks s t = Some (Attempting b)"
  shows "task_run peer_of target t s [b] (set_task t (Some (Attempting (next_backoff b))) s)"
proof -
  let ?s1 = "set_task t (Some (Asleep b)) s"
  have "task_run peer_of target t s [] ?s1"
    using task_steps [OF task_starts connect_failed [OF assms], of t peer_of target] assms by simp
  from task_steps [OF this slept [of ?s1 t b]] show ?thesis by simp
qed

lemma task_follows_loop:
  "reconnect_loop b rs = (ds, Some c) \<Longrightarrow> lk_tasks s t = Some (Attempting b) \<Longrightarrow> peer_of c = target \<Longrightarrow>
   task_run peer_of target t s ds (set_task t (Some (WantsLock c)) s)"
proof (induction b rs arbitrary: ds s rule: reconnect_loop.induct)
  case (2 b c' rs)
  then have ds: "ds = []" and run: "task_run peer_of target t s [] (set_task t (Some (WantsLock c)) s)"
    using task_steps [OF task_starts connect_ok [of s t b peer_of c target], of t] by simp_all
  from run show ?case unfolding ds .
next
  case (3 b e rs)
  then obtain ds' where ds: "ds = b # ds'" "reconnect_loop (next_backoff b) rs = (ds', Some c)"
    by (auto split: prod.splits)
  let ?s1 = "set_task t (Some (Attempting (next_backoff b))) s"
  have "task_run peer_of target t ?s1 ds' (set_task t (Some (WantsLock c)) ?s1)"
    by (rule 3(1) [OF ds(2)]) (simp_all add: 3(4))
  from task_run_trans [OF this failed_attempt [OF 3(3)]]
  have "task_run peer_of target t s (b # ds') (set_task t (Some (WantsLock c)) s)" by simp
  then show ?case unfolding ds .
qed simp

section \<open>What a link can still reach\<close>

definition can_reach :: "('c \<Rightarrow> NodeId) \<Rightarrow> NodeId \<Rightarrow> ('c link \<Rightarrow> bool) \<Rightarrow> 'c link \<Rightarrow> bool" where
  "can_reach peer_of target P s \<longleftrightarrow> (\<exists>s'. (link_step peer_of target)\<^sup>*\<^sup>* s s' \<and> P s')"

lemma can_reach_now: "P s \<Longrightarrow> can_reach peer_of target P s"
  by (auto simp: can_reach_def)

lemma can_reach_step:
  "link_step peer_of target s s' \<Longrightarrow> can_reach peer_of target P s' \<Longrightarrow> can_reach peer_of target P s"
  unfolding can_reach_def by (meson converse_rtranclp_into_rtranclp)

lemma can_reach_via:
  assumes "can_reach peer_of target P s" "link_inv peer_of target s"
    "\<And>s'. P s' \<Longrightarrow> link_inv peer_of target s' \<Longrightarrow> can_reach peer_of target Q s'"
  shows "can_reach peer_of target Q s"
  using assms unfolding can_reach_def by (meson pool_link.along rtranclp_trans)

lemmas task_moves = reconnect_step.intros [THEN by_task, THEN can_reach_step]
lemmas client_moves =
  acquire_step.intros [THEN by_acquire, THEN can_reach_step] commit_step.intros [THEN by_commit, THEN can_reach_step]
  drop_step.intros [THEN by_drop, THEN can_reach_step] wait_step.intros [THEN by_wait, THEN can_reach_step]

abbreviation free :: "'c link \<Rightarrow> bool" where
  "free s \<equiv> lk_holder s = None"

lemma task_frees: "task_holds (lk_tasks s t) \<Longrightarrow> can_reach peer_of target free s"
proof -
  have notified: "can_reach peer_of target free s" if "lk_tasks s t = Some Notified" for s
    by (rule task_moves(7) [OF that], rule can_reach_now) simp
  have stored: "can_reach peer_of target free s" if "lk_tasks s t = Some Stored" for s
    by (rule task_moves(6) [OF that], rule notified) simp
  have "can_reach peer_of target free s" if "lk_tasks s t = Some (Locked c)" for s c
    by (rule task_moves(5) [OF that], rule stored) simp
  with notified stored show "task_holds (lk_tasks s t) \<Longrightarrow> ?thesis"
    by (auto elim: task_holds.elims)
qed

lemma client_frees: "client_holds (lk_clients s i) \<Longrightarrow> can_reach peer_of target free s"
proof -
  have releasing: "can_reach peer_of target free s" if "lk_clients s i = Releasing" for s
    by (rule client_moves(9) [OF that], rule can_reach_now) simp
  have committed: "can_reach peer_of target free s" if "lk_clients s i = InGuard True" for s
    by (rule client_moves(7) [OF that], rule releasing) simp
  have uncommitted: "can_reach peer_of target free s" if "lk_clients s i = InGuard False" for s
    by (rule client_moves(6) [OF that], rule committed) simp
  have guard: "can_reach peer_of target free s" if "lk_clients s i = InGuard b" for s b
    using that committed uncommitted by (cases b) auto
  have acquire: "can_reach peer_of target free s" if "lk_clients s i = AcquireHolds" for s
  proof (cases "lk_state s")
    case (Connected c)
    show ?thesis by (rule client_moves(4) [OF that Connected], rule uncommitted) simp
  next
    case Reconnecting
    show ?thesis by (rule client_moves(5) [OF that Reconnecting], rule can_reach_now) simp
  qed
  have "can_reach peer_of target free s" if "lk_clients s i = WaitHolds g" for s g
  proof (cases "lk_state s")
    case (Connected c)
    show ?thesis by (rule client_moves(13) [OF that Connected], rule can_reach_now) simp
  next
    case Reconnecting
    show ?thesis by (rule client_moves(14) [OF that Reconnecting], rule can_reach_now) simp
  qed
  with releasing guard acquire show "client_holds (lk_clients s i) \<Longrightarrow> ?thesis"
    by (auto elim: client_holds.elims)
qed

lemma can_be_free: "lock_inv s \<Longrightarrow> can_reach peer_of target free s"
  unfolding lock_inv_def
  by (cases "lk_holder s") (auto intro: can_reach_now, metis client_frees holder.exhaust task_frees)

abbreviation ready :: "('c \<Rightarrow> NodeId) \<Rightarrow> NodeId \<Rightarrow> 'c link \<Rightarrow> bool" where
  "ready peer_of target s \<equiv> free s \<and> (\<exists>c. lk_state s = Connected c \<and> peer_of c = target)"

lemma free_can_be_ready:
  assumes "free s" and inv: "link_inv peer_of target s" and "peer_of c = target"
  shows "can_reach peer_of target (ready peer_of target) s"
proof (cases "lk_state s")
  case (Connected c')
  with assms show ?thesis by (auto intro!: can_reach_now simp: link_inv_def peer_inv_def)
next
  case Reconnecting
  with inv obtain t where pending: "task_pending (lk_tasks s t)" by (auto simp: link_inv_def task_inv_def)
  have wants: "can_reach peer_of target (ready peer_of target) s"
    if "lk_tasks s t = Some (WantsLock c)" "free s" "peer_of c = target" for s c
    by (rule task_moves(4) [OF that(1,2)], rule task_moves(5) [where t = t and c = c], simp,
        rule task_moves(6) [where t = t], simp, rule task_moves(7) [where t = t], simp, rule can_reach_now)
      (simp add: that(3))
  have attempting: "can_reach peer_of target (ready peer_of target) s"
    if "lk_tasks s t = Some (Attempting b)" "free s" for s b
    by (rule task_moves(1) [where c = c, OF that(1)], rule assms(3), rule wants [of _ c]) (use that assms(3) in simp_all)
  have asleep: "can_reach peer_of target (ready peer_of target) s"
    if "lk_tasks s t = Some (Asleep b)" "free s" for s b
    by (rule task_moves(3) [OF that(1)], rule attempting) (use that in simp_all)
  have "\<not> task_holds (lk_tasks s t)" using inv assms(1) by (simp add: link_inv_def lock_inv_def)
  with pending inv wants attempting asleep assms(1) show ?thesis
    by (cases "lk_tasks s t" rule: task_pending.cases) (auto simp: link_inv_def peer_inv_def)
qed

end
