(* ===== verification/Link_Spec.thy ===== *)
theory Link_Spec
  imports Pool_Link
begin

text \<open>
  What one link of the pool promises to its users: an abstract machine (down, up, in use and
  committed or not) that every step of the detailed model refines, and the properties of \<open>acquire\<close>,
  \<open>wait_connected\<close>, the guard and the reconnect task in every state the link can reach.
\<close>

section \<open>What a link promises\<close>

text \<open>The link as its users see it: down, up and free to use, or in use by the holder of a guard, who
  has committed the exchange or not.\<close>

datatype link_view = Down | Up | InUse nat bool

inductive view_step :: "link_view \<Rightarrow> link_view \<Rightarrow> bool" where
  established: "view_step Down Up"
| acquired: "view_step Up (InUse i False)"
| committed: "view_step (InUse i False) (InUse i True)"
| returned: "view_step (InUse i True) Up"
| broken: "view_step (InUse i False) Down"

fun state_view :: "'c LinkState \<Rightarrow> link_view" where
  "state_view Reconnecting = Down"
| "state_view (Connected c) = Up"

definition view :: "'c link \<Rightarrow> link_view" where
  "view s = (case lk_holder s of
       Some (Client i) \<Rightarrow> (case lk_clients s i of InGuard committed \<Rightarrow> InUse i committed | _ \<Rightarrow> state_view (lk_state s))
     | _ \<Rightarrow> state_view (lk_state s))"

lemma view_free: "(\<forall>i b. lk_clients s i \<noteq> InGuard b) \<Longrightarrow> view s = state_view (lk_state s)"
  by (simp add: view_def split: option.split holder.split client_pc.split)

lemma view_guard: "lk_clients s i = InGuard b \<Longrightarrow> lock_inv s \<Longrightarrow> view s = InUse i b"
proof -
  assume "lk_clients s i = InGuard b" "lock_inv s"
  moreover from this have "lk_holder s = Some (Client i)" unfolding lock_inv_def by (metis client_holds.simps(2))
  ultimately show ?thesis by (simp add: view_def)
qed

text \<open>Two runs to apply the properties to: a link that client 1 has acquired, and one that came up while
  client 1 was asleep in \<open>wait_connected\<close>. The connections are node ids.\<close>

abbreviation (input) two :: NodeId where "two \<equiv> NodeId [2]"

definition acquired_link :: "NodeId link" where
  "acquired_link = \<lparr>lk_state = Connected two, lk_holder = Some (Client 1), lk_notified = 1,
     lk_tasks = Map.empty, lk_next_task = 1, lk_clients = (\<lambda>_. Idle)(1 := InGuard False)\<rparr>"

definition awaited_link :: "NodeId link" where
  "awaited_link = \<lparr>lk_state = Connected two, lk_holder = None, lk_notified = 1,
     lk_tasks = Map.empty, lk_next_task = 1, lk_clients = (\<lambda>_. Idle)(1 := WaitSleeps 0)\<rparr>"

lemmas run_step = converse_rtranclp_into_rtranclp

lemma task_connects:
  assumes "lk_tasks s t = Some (Attempting b)" "lk_holder s = None" "peer_of c = target"
  shows "(link_step peer_of target)\<^sup>*\<^sup>* s
    (s\<lparr>lk_state := Connected c, lk_notified := Suc (lk_notified s), lk_tasks := (lk_tasks s)(t := None), lk_holder := None\<rparr>)"
  (is "rtranclp _ _ ?s'")
proof -
  have "(link_step peer_of target)\<^sup>*\<^sup>* s (set_task t (Some (Locked c)) s\<lparr>lk_holder := Some (Task t)\<rparr>)"
    by (rule run_step, rule by_task, rule connect_ok [where c = c, OF assms(1)], rule assms(3), rule run_step, rule by_task,
        rule task_locks [where t = t and c = c]) (simp_all add: assms(2))
  also have "(link_step peer_of target)\<^sup>*\<^sup>* \<dots> ?s'"
    by (rule run_step, rule by_task, rule task_stores [where t = t and c = c], simp,
        rule run_step, rule by_task, rule task_notifies [where t = t], simp,
        rule run_step, rule by_task, rule task_returns [where t = t], simp) (simp add: assms(2))
  finally show ?thesis .
qed

lemma acquired_link_run: "(link_step id two)\<^sup>*\<^sup>* link_new acquired_link"
proof -
  have "(link_step id two)\<^sup>*\<^sup>* link_new
    (link_new\<lparr>lk_state := Connected two, lk_notified := 1, lk_tasks := Map.empty\<rparr>)" (is "rtranclp _ _ ?up")
    using task_connects [of link_new 0 FIRST_BACKOFF id two two] by (simp add: link_new_def)
  also have "(link_step id two)\<^sup>*\<^sup>* ?up acquired_link"
    by (rule run_step, rule by_acquire, rule acquire_starts [where i = 1], simp add: link_new_def,
        rule run_step, rule by_acquire, rule acquire_locks [where i = 1], simp, simp add: link_new_def,
        rule run_step, rule by_acquire, rule acquire_ready [where i = 1 and c = two], simp, simp)
      (simp add: link_new_def acquired_link_def)
  finally show ?thesis .
qed

lemma awaited_link_run: "(link_step id two)\<^sup>*\<^sup>* link_new awaited_link"
proof -
  have "(link_step id two)\<^sup>*\<^sup>* link_new (set_client 1 (WaitSleeps 0) link_new)" (is "rtranclp _ _ ?asleep")
    by (rule run_step, rule by_wait, rule wait_registers [where i = 1], simp add: link_new_def,
        rule run_step, rule by_wait, rule wait_locks [where i = 1], simp, simp add: link_new_def,
        rule run_step, rule by_wait, rule wait_sleeps [where i = 1], simp, simp add: link_new_def)
      (simp add: link_new_def)
  also have "(link_step id two)\<^sup>*\<^sup>* ?asleep awaited_link"
    using task_connects [of ?asleep 0 FIRST_BACKOFF id two two]
    by (simp add: link_new_def awaited_link_def)
  finally show ?thesis .
qed

lemma task_gone: "\<not> task_pending p \<Longrightarrow> \<not> task_holds p \<Longrightarrow> p = None"
  by (cases p rule: task_holds.cases) simp_all

section \<open>Properties\<close>

lemma view_keeps:
  assumes inv: "lock_inv s" "guard_inv s" "task_inv s" and step: "link_step peer_of target s s'"
  shows "view s' = view s \<or> view_step (view s) (view s')"
proof -
  have holder: "client_holds (lk_clients s i) = (lk_holder s = Some (Client i))"
    "task_holds (lk_tasks s t) = (lk_holder s = Some (Task t))" for i t
    using inv(1) by (simp_all add: lock_inv_def)
  have locked: "lk_tasks s t = Some (Locked c) \<Longrightarrow> lk_state s = Reconnecting" for t c
    using inv(3) unfolding task_inv_def by (metis task_pending.simps(6))
  have guard: "lk_clients s i = InGuard b \<Longrightarrow> state_view (lk_state s) = Up" for i b
    using inv(2) by (cases "lk_state s") (auto simp: guard_inv_def)
  have held: "lk_clients s i = pc \<Longrightarrow> client_holds pc = (lk_holder s = Some (Client i))"
    "lk_tasks s t = tpc \<Longrightarrow> task_holds tpc = (lk_holder s = Some (Task t))" for i pc t tpc
    using holder by auto
  show ?thesis
    using step
    by (elim link_stepEs disjE)
      ((frule held(1) | frule held(2)), force simp: view_def locked guard view_step.simps
        split: option.splits holder.splits client_pc.splits)+
qed

text \<open>C12: Every step of the tasks, \<open>acquire\<close> and \<open>wait_connected\<close> calls and guards of a link is, for the
  users of the link, no change or one of five: a link that is down comes up; a link that is up is
  acquired by one client, with nothing committed; the client that has it commits; a link that is in
  use goes back up only from a committed exchange; and it goes down only from one that was not
  committed. The abstract machine starts down.\<close>

theorem link_refines_view:
  "view link_new = Down
   \<and> ((link_step peer_of target)\<^sup>*\<^sup>* link_new s \<longrightarrow> link_step peer_of target s s' \<longrightarrow>
        view s' = view s \<or> view_step (view s) (view s'))"
proof (intro conjI impI)
  show "view link_new = Down" by (simp add: view_def link_new_def)
  assume "(link_step peer_of target)\<^sup>*\<^sup>* link_new s" and step: "link_step peer_of target s s'"
  then have "link_inv peer_of target s" by (intro pool_link.reached) simp_all
  then have inv: "lock_inv s" "guard_inv s" "task_inv s" by (simp_all add: link_inv_def)
  from inv step show "view s' = view s \<or> view_step (view s) (view s')" by (rule view_keeps)
qed

theorem link_refines_view_witness:
  "view link_new = Down \<and> view acquired_link = InUse 1 False
   \<and> (\<exists>s'. drop_step acquired_link s' \<and> view_step (InUse 1 False) (view s'))"
proof -
  let ?s' = "set_client 1 Releasing (set_task 1 (Some (Attempting FIRST_BACKOFF)) acquired_link)
    \<lparr>lk_state := Reconnecting, lk_next_task := Suc 1\<rparr>"
  have drop: "drop_step acquired_link ?s'"
    using drop_resets [of acquired_link 1] by (simp add: acquired_link_def)
  have v: "view acquired_link = InUse 1 False" by (simp add: view_def acquired_link_def)
  moreover have "view ?s' \<noteq> InUse 1 False" by (simp add: view_def acquired_link_def)
  ultimately have "view_step (InUse 1 False) (view ?s')"
    using link_refines_view [of id two acquired_link ?s'] acquired_link_run by_drop [OF drop] by metis
  with drop v show ?thesis using link_refines_view [of id two acquired_link ?s'] by blast
qed

text \<open>C8: Whoever holds a guard has the link to itself, connected to the target: in every state the link
  can reach, if a client has a guard then the state is \<open>Connected\<close> with a connection to the target (so
  \<open>transport\<close> never gets to its \<open>unreachable!\<close>), the mutex is the client's, no other client has a
  guard, and no reconnect task is running.\<close>

theorem guard_exclusive:
  assumes "(link_step peer_of target)\<^sup>*\<^sup>* link_new s" and "lk_clients s i = InGuard b"
  shows "(\<exists>c. lk_state s = Connected c \<and> peer_of c = target) \<and> lk_holder s = Some (Client i)
    \<and> (\<forall>j b'. lk_clients s j = InGuard b' \<longrightarrow> j = i) \<and> (\<forall>t. lk_tasks s t = None)"
proof -
  from assms(1) have "link_inv peer_of target s" by (intro pool_link.reached) simp_all
  then have inv: "lock_inv s" "guard_inv s" "task_inv s" "peer_inv peer_of target s" by (simp_all add: link_inv_def)
  from inv(1) assms(2) have holder: "lk_holder s = Some (Client i)"
    unfolding lock_inv_def by (metis client_holds.simps(2))
  from inv(2) assms(2) obtain c where c: "lk_state s = Connected c"
    by (cases "lk_state s") (auto simp: guard_inv_def)
  with inv(3) have "\<not> task_pending (lk_tasks s t)" for t by (auto simp: task_inv_def)
  moreover from inv(1) holder have "\<not> task_holds (lk_tasks s t)" for t by (simp add: lock_inv_def)
  ultimately have "lk_tasks s t = None" for t by (intro task_gone) simp_all
  moreover have "lk_clients s j = InGuard b' \<longrightarrow> j = i" for j b'
    using inv(1) holder unfolding lock_inv_def by (metis client_holds.simps(2) holder.inject(2) option.inject)
  ultimately show ?thesis using holder c inv(4) by (simp add: peer_inv_def)
qed

theorem guard_exclusive_witness:
  "(\<exists>c. lk_state acquired_link = Connected c \<and> id c = two) \<and> lk_holder acquired_link = Some (Client 1)"
  using guard_exclusive [OF acquired_link_run, of 1 False] by (simp add: acquired_link_def)

text \<open>C18: A reconnect task is at work exactly while the link is down, and never more than one: in every
  state the link can reach, if the state is \<open>Reconnecting\<close> there is exactly one task that has yet to
  store its connection, and if it is \<open>Connected\<close> there is none; a sleeping task sleeps between 50
  milliseconds and 30 seconds.\<close>

theorem one_reconnect_task:
  assumes "(link_step peer_of target)\<^sup>*\<^sup>* link_new s"
  shows "(lk_state s = Reconnecting \<longleftrightarrow> (\<exists>t. task_pending (lk_tasks s t)))
    \<and> (task_pending (lk_tasks s t) \<longrightarrow> task_pending (lk_tasks s t') \<longrightarrow> t = t')
    \<and> (lk_tasks s t = Some (Asleep d) \<longrightarrow> 50 \<le> d \<and> d \<le> 30000)"
proof -
  from assms have "link_inv peer_of target s" by (intro pool_link.reached) simp_all
  then have "task_inv s" "backoff_inv s" by (simp_all add: link_inv_def)
  then show ?thesis
    unfolding task_inv_def backoff_inv_def FIRST_BACKOFF_def MAX_BACKOFF_def by blast
qed

theorem one_reconnect_task_witness:
  "\<not> (\<exists>t. task_pending (lk_tasks acquired_link t)) \<and> (\<exists>t. task_pending (lk_tasks (link_new :: NodeId link) t))"
  using one_reconnect_task [OF acquired_link_run, of 0 0 0]
    one_reconnect_task [where peer_of = id and target = two and s = link_new and t = 0 and t' = 0 and d = 0]
  by (simp add: acquired_link_def link_new_def)

text \<open>C19: \<open>wait_connected\<close> never misses the connection: if the link is connected while a client is
  asleep in \<open>wait_connected\<close>, then the notification the client registered for has come and the client
  can wake up and look again, or the task that connected the link has stored the connection, still
  holds the mutex, and notifies next.\<close>

theorem wait_connected_not_missed:
  assumes "(link_step peer_of target)\<^sup>*\<^sup>* link_new s" and "lk_clients s i = WaitSleeps g"
    and "lk_state s = Connected c"
  shows "g < lk_notified s \<and> link_step peer_of target s (set_client i (WaitWaits (lk_notified s)) s)
    \<or> (\<exists>t. lk_tasks s t = Some Stored \<and> lk_holder s = Some (Task t))"
proof -
  from assms(1) have "link_inv peer_of target s" by (intro pool_link.reached) simp_all
  then have inv: "wakeup_inv s" "lock_inv s" by (simp_all add: link_inv_def)
  from inv(1) assms(2,3) consider "g < lk_notified s" | t where "lk_tasks s t = Some Stored"
    unfolding wakeup_inv_def by (metis LinkState.distinct(1))
  then show ?thesis
  proof cases
    case 1
    with assms(2) show ?thesis by (blast intro: by_wait wait_woken)
  next
    case 2
    with inv(2) show ?thesis unfolding lock_inv_def by (metis task_holds.simps(2))
  qed
qed

theorem wait_connected_not_missed_witness:
  "0 < lk_notified awaited_link \<and> link_step id two awaited_link (set_client 1 (WaitWaits 1) awaited_link)"
  using wait_connected_not_missed [OF awaited_link_run, of 1 0 two] by (simp add: awaited_link_def)

text \<open>C20: A link always can recover: from every state it can reach, if the target can be connected to
  at all, there are steps to a state in which the mutex is free and the link is connected to the
  target; no interleaving of failed attempts, dropped guards, cancelled calls and waiting clients
  leaves it stuck.\<close>

theorem link_recovers:
  assumes "(link_step peer_of target)\<^sup>*\<^sup>* link_new s" and "peer_of c = target"
  shows "\<exists>s' c'. (link_step peer_of target)\<^sup>*\<^sup>* s s' \<and> lk_holder s' = None
    \<and> lk_state s' = Connected c' \<and> peer_of c' = target"
proof -
  from assms(1) have inv: "link_inv peer_of target s" by (intro pool_link.reached) simp_all
  then have "can_reach peer_of target free s" by (intro can_be_free) (simp add: link_inv_def)
  then have "can_reach peer_of target (ready peer_of target) s"
    using inv by (rule can_reach_via) (rule free_can_be_ready [where c = c and peer_of = peer_of, OF _ _ assms(2)])
  then show ?thesis by (auto simp: can_reach_def)
qed

theorem link_recovers_witness:
  "\<exists>s' c'. (link_step id two)\<^sup>*\<^sup>* acquired_link s' \<and> lk_holder s' = None
    \<and> lk_state s' = Connected c' \<and> id c' = two"
  using link_recovers [OF acquired_link_run, of two] by simp

end
