(* ===== verification/Pool_Exchange.thy ===== *)
theory Pool_Exchange
  imports Link_Spec
begin

text \<open>
  The link of a pool together with the messages that go over its connection. A connection is the
  session that the handshake established, the current cipher state and the two message halves. The
  reconnect task stores what \<open>try_connect\<close> returned; the holder of a guard may do anything to the
  connection, be cancelled at any point, and drop the guard, but commits only when its calls succeeded,
  the last message it sent was ended and the last one it opened was read to the end. Then every
  connection that \<open>acquire\<close> hands out is between messages in both directions, whatever happened under
  earlier guards: an exchange never starts in the middle of somebody else's message.
\<close>

section \<open>Connections\<close>

type_synonym ('t, 'w, 'r) conn = "'t \<times> 't \<times> 'w MessageTx \<times> 'r MessageRx"

fun conn_idle :: "('t, 'w, 'r) conn \<Rightarrow> bool" where
  "conn_idle (_, _, tx, rx) \<longleftrightarrow> builder_opened (tx_builder tx) = None \<and> receiver_idle rx"

text \<open>The session was established with the target: the handshake accepted a header of the target, in the
  session itself.\<close>

definition conn_to where
  "conn_to lb creds target c \<longleftrightarrow>
     (\<exists>pl h. peer_checked lb (cr_verification_key creds) pl h (fst c) \<and> ah_node_id h = target)"

text \<open>A message is read to its end when \<open>read_bytes\<close>, or the packet iterator called until it yields
  \<open>None\<close>, has returned the payload or has reported that the sender abandoned the message.\<close>

definition completed :: "('a, ConnectionError) result outcome \<Rightarrow> bool" where
  "completed r \<longleftrightarrow> (\<exists>v. r = Return (Ok v)) \<or> r = Return (Err MessageAborted)"

definition read_to_end :: "'r stream_reader \<Rightarrow> 't transport_lib \<Rightarrow> 't \<times> 'r MessageRx \<Rightarrow> 't \<times> 'r MessageRx \<Rightarrow> bool" where
  "read_to_end sr tp s s' \<longleftrightarrow> (\<exists>m s1. read_message sr tp s = (Ok m, s1)
     \<and> ((\<exists>r. read_bytes sr tp m s1 = Some (r, s') \<and> completed r)
      \<or> (\<exists>r. collect_packets sr tp (into_packets m) s1 [] = Some (r, s') \<and> completed r)))"

text \<open>\<open>exchanged sw sr tp rr c c' ended drained\<close>: calls that all returned successfully have led from \<open>c\<close> to
  \<open>c'\<close>. \<open>ended\<close> says of the last call on the sending half that it ended its message, which \<open>send_reader\<close>
  does not do for a source whose length is a positive multiple of \<open>MAX_PACKET_SIZE\<close>; \<open>drained\<close> says of the
  last message that was opened that it was read to its end, and not dropped before.\<close>

inductive exchanged :: "'w stream_writer \<Rightarrow> 'r stream_reader \<Rightarrow> 't transport_lib \<Rightarrow> 'rd source_reader
    \<Rightarrow> ('t, 'w, 'r) conn \<Rightarrow> ('t, 'w, 'r) conn \<Rightarrow> bool \<Rightarrow> bool \<Rightarrow> bool"
  for sw :: "'w stream_writer" and sr :: "'r stream_reader" and tp :: "'t transport_lib"
    and rr :: "'rd source_reader" where
  starts: "exchanged sw sr tp rr c c True True"
| sends: "exchanged sw sr tp rr c (t0, t, tx, rx) ended drained \<Longrightarrow>
    send_message sw tp (t, tx) mtype data = (Ok (), t', tx') \<Longrightarrow>
    exchanged sw sr tp rr c (t0, t', tx', rx) True drained"
| streams: "exchanged sw sr tp rr c (t0, t, tx, rx) ended drained \<Longrightarrow> delivers rr reader data \<Longrightarrow>
    message_send_reader sw tp rr (t, tx) mtype reader = Some ((Ok (), t', tx'), reader') \<Longrightarrow>
    exchanged sw sr tp rr c (t0, t', tx', rx) (data = [] \<or> \<not> MAX_PACKET_SIZE dvd length data) drained"
| aborts: "exchanged sw sr tp rr c (t0, t, tx, rx) ended drained \<Longrightarrow> message_abort sw tp (t, tx) = (Ok (), t', tx') \<Longrightarrow>
    exchanged sw sr tp rr c (t0, t', tx', rx) True drained"
| reads: "exchanged sw sr tp rr c (t0, t, tx, rx) ended drained \<Longrightarrow> read_to_end sr tp (t, rx) (t', rx') \<Longrightarrow>
    exchanged sw sr tp rr c (t0, t', tx, rx') ended True"
| leaves_message: "exchanged sw sr tp rr c (t0, t, tx, rx) ended drained \<Longrightarrow> read_message sr tp (t, rx) = (Ok m, t', rx') \<Longrightarrow>
    exchanged sw sr tp rr c (t0, t', tx, rx') ended False"
| takes_packet: "exchanged sw sr tp rr c (t0, t, tx, rx) ended drained \<Longrightarrow>
    packets_next sr tp mp (t, rx) = (Return (Ok p), mp', t', rx') \<Longrightarrow>
    exchanged sw sr tp rr c (t0, t', tx, rx') ended False"

lemma encrypt_and_write_builder:
  "tx_packet_builder (snd (snd (encrypt_and_write sw tp (t, tx) raw))) = tx_packet_builder tx"
  by (auto simp: encrypt_and_write_def write_frame_def Let_def split: prod.splits result.splits)

lemma encrypt_and_write_error:
  "fst (encrypt_and_write sw tp s raw) \<noteq> Err (PacketBuilderErr e)"
  by (auto simp: encrypt_and_write_def write_frame_def Let_def split: prod.splits result.splits)

lemma send_packet_builder:
  assumes "send_packet sw tp s p l = (Ok (), s')"
  shows "pb_in_progress (tx_packet_builder (snd s')) \<longleftrightarrow> \<not> l"
proof -
  obtain t tx where s: "s = (t, tx)" by force
  with assms obtain raw b where pk: "pack (tx_packet_builder tx) p l = (Ok raw, b)"
    and w: "encrypt_and_write sw tp (t, tx\<lparr>tx_packet_builder := b\<rparr>) raw = (Ok (), s')"
    by (auto simp: send_packet_def split: prod.splits result.splits)
  from encrypt_and_write_builder [of sw tp t "tx\<lparr>tx_packet_builder := b\<rparr>" raw] w
  have "tx_packet_builder (snd s') = b" by simp
  moreover from pk have "pb_in_progress b \<longleftrightarrow> \<not> l" by (auto simp: pack_def Let_def split: if_splits)
  ultimately show ?thesis by simp
qed

lemma send_plan_ends:
  "send_plan sw tp s plan = (Ok (), s') \<Longrightarrow> plan \<noteq> [] \<Longrightarrow>
   builder_opened (tx_packet_builder (snd s')) = None \<longleftrightarrow> snd (last plan)"
proof (induction sw tp s plan rule: send_plan.induct)
  case (2 sw tp s p l ps)
  then obtain s1 where s1: "send_packet sw tp s p l = (Ok (), s1)" "send_plan sw tp s1 ps = (Ok (), s')"
    by (auto simp: send_plan_Cons split: prod.splits result.splits)
  with 2 show ?case
    using send_packet_builder [OF s1(1)] by (cases "ps = []") (auto simp: builder_opened_def)
qed simp

lemma send_message_closes:
  assumes "send_message sw tp s mtype data = (Ok (), s')"
  shows "builder_opened (tx_builder (snd s')) = None"
proof -
  from assms obtain s1 packets t where
    "send_plan sw tp s1 (slice_plan data True) = (Ok (), t, packets)" "tx_builder (snd s') = tx_packet_builder packets"
    by (auto simp: send_message_def send_slice_plan split: prod.splits result.splits)
  with send_plan_ends [OF this(1)] slice_plan_last show ?thesis by simp
qed

lemma reader_plan_ends:
  "reader_plan data \<noteq> [] \<and> (snd (last (reader_plan data)) \<longleftrightarrow> data = [] \<or> \<not> MAX_PACKET_SIZE dvd length data)"
proof (cases "data = [] \<or> \<not> MAX_PACKET_SIZE dvd length data")
  case True
  with slice_plan_last show ?thesis by (simp add: reader_plan_slice_plan)
next
  case False
  then have "reader_plan data = map (\<lambda>c. (c, False)) (chunks MAX_PACKET_SIZE data)" "chunks MAX_PACKET_SIZE data \<noteq> []"
    using chunks_eq_Nil [OF MAX_PACKET_SIZE_pos] by (auto simp: reader_plan_def drain_plan_multiple)
  with False show ?thesis by (simp add: last_map)
qed

lemma message_send_reader_ends:
  assumes "delivers rr reader data" "message_send_reader sw tp rr s mtype reader = Some ((Ok (), s'), reader')"
  shows "builder_opened (tx_builder (snd s')) = None \<longleftrightarrow> data = [] \<or> \<not> MAX_PACKET_SIZE dvd length data"
proof -
  from assms(2) obtain s1 t packets where
    "send_reader sw tp rr s1 reader = Some ((Ok (), t, packets), reader')" "tx_builder (snd s') = tx_packet_builder packets"
    by (auto simp: message_send_reader_def split: prod.splits result.splits option.splits)
  moreover from this(1) send_reader_plan [OF assms(1), of sw tp s1] have
    "send_plan sw tp s1 (reader_plan data) = (Ok (), t, packets)" by auto
  ultimately show ?thesis using send_plan_ends reader_plan_ends [of data] by fastforce
qed

text \<open>Reading a message to its end leaves the receiver between messages, in whatever state it began.\<close>

lemma read_packet_closes:
  assumes "read_packet sr tp s = (Ok h, s')"
  shows "pr_in_progress (rx_packet_reader (snd s')) \<longleftrightarrow> ph_kind h \<in> {First, Mid}"
proof -
  obtain raw where "read (rx_packet_reader (snd s)) raw = (Ok h, rx_packet_reader (snd s'))"
    using read_packet_reader [OF assms] by blast
  then show ?thesis
    by (cases "pr_in_progress (rx_packet_reader (snd s))") (auto dest: read_continues read_opens)
qed

lemma read_bytes_loop_completes:
  assumes "read_bytes_loop (read_packet sr tp) pl s buf = Some y"
  shows "completed (fst y) \<Longrightarrow> \<not> pr_in_progress (rx_packet_reader (snd (fst (snd y))))"
  using assms
proof (induction rule: read_bytes_loop_induct)
  case (failed s e s1 buf)
  with read_packet_not_aborted [of sr tp s] show ?case by (simp add: completed_def)
qed (auto simp: completed_def dest: read_packet_closes)

lemma read_bytes_completes:
  assumes "read_message sr tp s = (Ok m, s1)" "read_bytes sr tp m s1 = Some (r, s')" "completed r"
  shows "receiver_idle (snd s')"
proof -
  obtain t1 rx1 where s1: "s1 = (t1, rx1)" by force
  from assms(1) have "read_packet sr tp (rx_half s) = (Ok (first_header m), t1, mr_packets rx1)"
    by (cases s) (auto simp: read_message_def s1 split: prod.splits result.splits)
  from read_packet_closes [OF this] show ?thesis
    using assms(2,3) read_bytes_loop_completes
    by (fastforce simp: read_bytes_def s1 Let_def split: if_splits option.splits prod.splits)
qed

lemma read_to_end_idle:
  assumes "read_to_end sr tp s s'"
  shows "receiver_idle (snd s')"
proof -
  from assms obtain m s1 where m: "read_message sr tp s = (Ok m, s1)"
    and "(\<exists>r. read_bytes sr tp m s1 = Some (r, s') \<and> completed r)
      \<or> (\<exists>r. collect_packets sr tp (into_packets m) s1 [] = Some (r, s') \<and> completed r)"
    unfolding read_to_end_def by blast
  then show ?thesis
  proof (elim disjE exE conjE)
    fix r assume c: "collect_packets sr tp (into_packets m) s1 [] = Some (r, s')" "completed r"
    with read_bytes_collects [of sr tp m s1] obtain t rx where
      "read_bytes sr tp m s1 = Some (joined r, t, rx)" "mr_packets rx = mr_packets (snd s')"
      by (auto simp: rel_option_iff split: option.splits)
    moreover have "completed (joined r)" using c(2) by (auto simp: completed_def)
    ultimately show ?thesis using read_bytes_completes [OF m] by fastforce
  qed (rule read_bytes_completes [OF m])
qed

lemma message_abort_closes:
  assumes "message_abort sw tp s = (Ok (), s')"
  shows "builder_opened (tx_builder (snd s')) = None"
proof -
  obtain t tx where s: "s = (t, tx)" by force
  show ?thesis
  proof (cases "pb_in_progress (tx_builder tx)")
    case False
    with assms show ?thesis
      by (auto simp: s message_abort_def abort_message_def abort_def builder_opened_def)
  next
    case True
    then obtain raw b where b: "abort (tx_builder tx) = (Some raw, b)" "\<not> pb_in_progress b"
      by (auto simp: abort_def Let_def)
    with assms encrypt_and_write_builder [of sw tp t "(mt_packets tx)\<lparr>tx_packet_builder := b\<rparr>" raw] show ?thesis
      by (auto simp: s message_abort_def abort_message_def builder_opened_def split: prod.splits)
  qed
qed

text \<open>After successful calls the sending half is between messages exactly when the last message was ended,
  and the receiving half is if the last message was read to its end.\<close>

lemma exchanged_state:
  "exchanged sw sr tp rr c c' ended drained \<Longrightarrow> conn_idle c \<Longrightarrow>
   fst c' = fst c \<and> (builder_opened (tx_builder (fst (snd (snd c')))) = None \<longleftrightarrow> ended)
   \<and> (drained \<longrightarrow> receiver_idle (snd (snd (snd c'))))"
proof (induction rule: exchanged.induct)
  case (starts c)
  then show ?case by (cases c) simp
next
  case (sends c t0 t tx rx ended drained mtype data t' tx')
  with send_message_closes [OF sends.hyps(2)] show ?case by simp
next
  case (streams c t0 t tx rx ended drained reader data mtype t' tx' reader')
  with message_send_reader_ends [OF streams.hyps(2,3)] show ?case by simp
next
  case (aborts c t0 t tx rx ended drained t' tx')
  with message_abort_closes [OF aborts.hyps(2)] show ?case by simp
next
  case (reads c t0 t tx rx ended drained t' rx')
  with read_to_end_idle [OF reads.hyps(2)] show ?case by simp
qed simp_all

lemma exchanged_good:
  assumes "exchanged sw sr tp rr c c' True True" "conn_idle c \<and> conn_to lb creds target c"
  shows "conn_idle c' \<and> conn_to lb creds target c'"
  using exchanged_state [OF assms(1)] assms(2) by (cases c') (simp add: conn_to_def)

lemma unended_not_idle: "exchanged sw sr tp rr c c' False drained \<Longrightarrow> conn_idle c \<Longrightarrow> \<not> conn_idle c'"
  using exchanged_state by (cases c') fastforce

text \<open>On an idle connection a message with a 12-bit type is not refused by the packet builder, at its
  start or at any of its packets.\<close>

lemma send_plan_not_refused:
  "pb_in_progress (tx_packet_builder (snd s)) \<Longrightarrow> flags_ok (map snd plan) \<Longrightarrow>
   fst (send_plan sw tp s plan) \<noteq> Err (PacketBuilderErr e)"
proof (induction sw tp s plan rule: send_plan.induct)
  case (2 sw tp s p l ps)
  obtain t tx where s: "s = (t, tx)" by force
  from 2(2) obtain raw b where pk: "pack (tx_packet_builder tx) p l = (Ok raw, b)" "pb_in_progress b \<longleftrightarrow> \<not> l"
    by (auto simp: s pack_def Let_def)
  obtain r s1 where r: "send_packet sw tp s p l = (r, s1)" by (metis prod.collapse)
  then have w: "encrypt_and_write sw tp (t, tx\<lparr>tx_packet_builder := b\<rparr>) raw = (r, s1)"
    by (simp add: s send_packet_def pk)
  show ?case
  proof (cases r)
    case (Err e')
    with encrypt_and_write_error [of sw tp "(t, tx\<lparr>tx_packet_builder := b\<rparr>)" raw e] w r show ?thesis
      by (auto simp: send_plan_Cons)
  next
    case (Ok u)
    show ?thesis
    proof (cases ps)
      case (Cons q qs)
      with 2(3) have "\<not> l" "flags_ok (map snd ps)" by (auto split: if_splits)
      with 2(1) [of r s1 u] r Ok send_packet_builder [of sw tp s p l s1] show ?thesis
        by (simp add: send_plan_Cons)
    qed (use r Ok in \<open>simp add: send_plan_Cons\<close>)
  qed
qed simp

lemma send_message_not_refused:
  assumes "builder_opened (tx_builder (snd s)) = None" "mtype \<le> TYPE_MASK"
  shows "fst (send_message sw tp s mtype data) \<noteq> Err (PacketBuilderErr e)"
proof -
  obtain t tx where s: "s = (t, tx)" by force
  have "\<not> TYPE_MASK < mtype" "\<not> pb_in_progress (tx_builder tx)"
    using assms by (auto simp: s builder_opened_def split: if_splits)
  then obtain b where b: "prepare (tx_builder tx) mtype = (Ok (), b)" "pb_in_progress b"
    by (simp add: prepare_def)
  have "fst (send_plan sw tp (t, (mt_packets tx)\<lparr>tx_packet_builder := b\<rparr>) (slice_plan data True)) \<noteq> Err (PacketBuilderErr e)"
    by (rule send_plan_not_refused) (simp_all add: b slice_plan_flags)
  then show ?thesis
    by (auto simp: s send_message_def prepare_message_def b send_slice_plan split: prod.splits)
qed

section \<open>What is handed over\<close>

text \<open>For connections of any type and any notion of a good one: connections on their way into the link
  are good, the one in the link is good unless an uncommitted guard is at work on it, and whoever holds
  such a guard was handed a good one.\<close>

definition guards :: "'c link \<Rightarrow> nat set" where
  "guards s = {i. lk_clients s i = InGuard False}"

definition arriving :: "'c link \<Rightarrow> 'c set" where
  "arriving s = {c. \<exists>t. lk_tasks s t = Some (WantsLock c) \<or> lk_tasks s t = Some (Locked c)}"

definition handed_inv :: "('c \<Rightarrow> bool) \<Rightarrow> 'c link \<Rightarrow> 'c option \<Rightarrow> bool" where
  "handed_inv good s h \<longleftrightarrow> (\<forall>c \<in> arriving s. good c)
     \<and> (\<forall>c. lk_state s = Connected c \<longrightarrow> good c \<or> guards s \<noteq> {})
     \<and> (guards s \<noteq> {} \<longrightarrow> (\<exists>c. h = Some c \<and> good c))"

lemma handed_inv_keep:
  assumes "handed_inv good s h" "\<And>c. c \<in> arriving s' \<Longrightarrow> c \<in> arriving s \<or> good c" "guards s' = guards s"
    "\<And>c. lk_state s' = Connected c \<Longrightarrow> lk_state s = Connected c \<or> good c \<or> guards s \<noteq> {}"
  shows "handed_inv good s' h"
  using assms unfolding handed_inv_def by blast

lemma guards_other: "lk_clients s i \<noteq> InGuard False \<Longrightarrow> pc \<noteq> InGuard False \<Longrightarrow> guards (set_client i pc s) = guards s"
  and guards_left: "pc \<noteq> InGuard False \<Longrightarrow> guards (set_client i pc s) = guards s - {i}"
  and guards_entered: "guards (set_client i (InGuard False) s) = insert i (guards s)"
  by (auto simp: guards_def)

lemma link_parts [simp]:
  "guards (s\<lparr>lk_state := st\<rparr>) = guards s" "guards (s\<lparr>lk_holder := ho\<rparr>) = guards s"
  "guards (s\<lparr>lk_notified := n\<rparr>) = guards s" "guards (s\<lparr>lk_tasks := ts\<rparr>) = guards s" "guards (s\<lparr>lk_next_task := n\<rparr>) = guards s"
  "arriving (s\<lparr>lk_state := st\<rparr>) = arriving s" "arriving (s\<lparr>lk_holder := ho\<rparr>) = arriving s"
  "arriving (s\<lparr>lk_notified := n\<rparr>) = arriving s" "arriving (s\<lparr>lk_clients := cs\<rparr>) = arriving s"
  "arriving (s\<lparr>lk_next_task := n\<rparr>) = arriving s"
  by (simp_all add: guards_def arriving_def)

lemma arriving_task:
  "c \<in> arriving (set_task t pc s) \<Longrightarrow> c \<in> arriving s \<or> pc = Some (WantsLock c) \<or> pc = Some (Locked c)"
  by (auto simp: arriving_def split: if_splits)

lemma arrivingI: "lk_tasks s t = Some (WantsLock c) \<Longrightarrow> c \<in> arriving s" "lk_tasks s t = Some (Locked c) \<Longrightarrow> c \<in> arriving s"
  by (auto simp: arriving_def)

lemma handed_inv_reconnect:
  assumes inv: "handed_inv good s h" and step: "reconnect_step peer_of target s s'"
    and new: "\<And>t c. lk_tasks s' t = Some (WantsLock c) \<Longrightarrow> lk_tasks s t = Some (WantsLock c) \<or> good c"
  shows "handed_inv good s' h"
  using step
proof cases
  case (connect_ok t b c)
  with new [of t c] inv show ?thesis
    by (intro handed_inv_keep [OF inv]) (auto dest: arriving_task)
next
  case (task_stores t c)
  with inv have "good c" by (auto simp: handed_inv_def dest: arrivingI)
  with task_stores show ?thesis by (intro handed_inv_keep [OF inv]) (auto dest: arriving_task)
qed (intro handed_inv_keep [OF inv]; auto dest: arriving_task arrivingI)+

lemma handed_inv_steps:
  assumes inv: "handed_inv good s h"
  shows handed_inv_acquire: "acquire_step s s' \<Longrightarrow> guards s' \<subseteq> guards s \<Longrightarrow> handed_inv good s' h"
    and handed_inv_transport: "transport_step peer_of s s' \<Longrightarrow> handed_inv good s' h"
    and handed_inv_wait: "wait_step s s' \<Longrightarrow> handed_inv good s' h"
proof -
  show "handed_inv good s' h" if "acquire_step s s'" "guards s' \<subseteq> guards s"
    using that
  proof cases
    case (acquire_ready i c)
    with that(2) show ?thesis by (auto simp: guards_def)
  qed (intro handed_inv_keep [OF inv]; simp add: guards_other)+
  show "handed_inv good s' h" if "transport_step peer_of s s'"
    using that by cases (intro handed_inv_keep [OF inv]; auto simp: guards_def)
  show "handed_inv good s' h" if "wait_step s s'"
    using that by cases (intro handed_inv_keep [OF inv]; auto simp: guards_other)+
qed

lemma handed_inv_commit:
  assumes inv: "handed_inv good s h" and "commit_step s s'" "lk_state s = Connected c" "good c"
  shows "handed_inv good s' h"
  using assms(2) by cases (use inv assms(3,4) in \<open>auto simp: handed_inv_def guards_left\<close>)

lemma handed_inv_drop:
  assumes inv: "handed_inv good s h" and "drop_step s s'"
  shows "handed_inv good s' h"
  using assms(2)
proof cases
  case (drop_resets i)
  with inv show ?thesis by (auto simp: handed_inv_def guards_def dest: arriving_task)
qed (intro handed_inv_keep [OF inv]; simp add: guards_other)+

lemma guard_excludes:
  assumes "lock_inv s" "client_holds (lk_clients s i)" "lk_clients s j = InGuard b"
  shows "j = i"
proof -
  from assms have "lk_holder s = Some (Client i)" "lk_holder s = Some (Client j)"
    unfolding lock_inv_def by (blast, metis client_holds.simps(2))
  then show ?thesis by simp
qed

lemma handed_inv_acquired:
  assumes "handed_inv good s h" "lock_inv s" "lk_clients s i = AcquireHolds" "lk_state s = Connected c"
  shows "good c"
proof -
  have "lk_clients s j \<noteq> InGuard False" for j
    using guard_excludes [OF assms(2), of i j False] assms(3) by auto
  with assms(1,4) show ?thesis by (auto simp: handed_inv_def guards_def)
qed

lemma handed_inv_hands_out:
  assumes "handed_inv good s h" "lock_inv s" "lk_clients s i = AcquireHolds" "lk_state s = Connected c"
  shows "handed_inv good (set_client i (InGuard False) s) (Some c)"
  using assms(1) handed_inv_acquired [OF assms] by (simp add: handed_inv_def guards_entered)

section \<open>Exchanges over the link of a pool\<close>

text \<open>A state is the link and, for the proofs only, the connection that the last guard was handed.
  \<open>guard_works\<close> stands for anything the holder of a guard does to the connection, also a part of a call
  that was cancelled.\<close>

inductive pooled_step for lb and creds and sw :: "'w stream_writer" and sr :: "'r stream_reader" and tp :: "'t transport_lib"
    and rr :: "'rd source_reader" and target :: NodeId where
  task_connects: "lk_tasks s t = Some (Attempting b) \<Longrightarrow>
    try_connect lb took connector target creds = Ok (state, tx, rx) \<Longrightarrow>
    pooled_step lb creds sw sr tp rr target (s, h) (set_task t (Some (WantsLock (state, state, tx, rx))) s, h)"
| task_moves_on: "reconnect_step (\<lambda>_. target) target s s' \<Longrightarrow>
    (\<forall>t c. lk_tasks s' t = Some (WantsLock c) \<longrightarrow> lk_tasks s t = Some (WantsLock c)) \<Longrightarrow>
    pooled_step lb creds sw sr tp rr target (s, h) (s', h)"
| hands_out: "lk_clients s i = AcquireHolds \<Longrightarrow> lk_state s = Connected c \<Longrightarrow>
    pooled_step lb creds sw sr tp rr target (s, h) (set_client i (InGuard False) s, Some c)"
| acquire_moves_on: "acquire_step s s' \<Longrightarrow>
    guards s' \<subseteq> guards s \<Longrightarrow> pooled_step lb creds sw sr tp rr target (s, h) (s', h)"
| guard_works: "transport_step (\<lambda>_. target) s s' \<Longrightarrow> pooled_step lb creds sw sr tp rr target (s, h) (s', h)"
| commits: "commit_step s s' \<Longrightarrow> lk_state s = Connected c \<Longrightarrow> h = Some c0 \<Longrightarrow>
    exchanged sw sr tp rr c0 c True True \<Longrightarrow>
    pooled_step lb creds sw sr tp rr target (s, h) (s', h)"
| drops: "drop_step s s' \<Longrightarrow> pooled_step lb creds sw sr tp rr target (s, h) (s', h)"
| waits: "wait_step s s' \<Longrightarrow> pooled_step lb creds sw sr tp rr target (s, h) (s', h)"

text \<open>Every step of the composed machine is a step of the link.\<close>

lemma pooled_link_step:
  "pooled_step lb creds sw sr tp rr target sh sh' \<Longrightarrow> link_step (\<lambda>_. target) target (fst sh) (fst sh')"
proof (induction rule: pooled_step.induct)
  case (task_connects s t b took connector state tx rx h)
  then show ?case by (auto intro!: by_task connect_ok)
qed (auto intro: link_step.intros acquire_ready)

abbreviation conn_good where
  "conn_good lb creds target c \<equiv> conn_idle c \<and> conn_to lb creds target c"

lemma try_connect_good:
  assumes "try_connect lb took connector target creds = Ok (state, tx, rx)"
  shows "conn_good lb creds target (state, state, tx, rx)"
proof -
  obtain pl h where "peer_checked lb (cr_verification_key creds) pl h state" "ah_node_id h = target"
    "tx_builder tx = builder_new" "rx_reader rx = reader_new"
    by (rule try_connect_checked [OF assms])
  then show ?thesis by (auto simp: conn_to_def reader_new_def)
qed

lemma pooled_inv_step:
  assumes "pooled_step lb creds sw sr tp rr target sh sh'" "handed_inv (conn_good lb creds target) (fst sh) (snd sh)"
    "lock_inv (fst sh)"
  shows "handed_inv (conn_good lb creds target) (fst sh') (snd sh')"
  using assms
proof (induction rule: pooled_step.induct)
  case (task_connects s t b took connector state tx rx h)
  note good = try_connect_good [OF task_connects.hyps(2)]
  have "reconnect_step (\<lambda>_. target) target s (set_task t (Some (WantsLock (state, state, tx, rx))) s)"
    using task_connects.hyps(1) by (rule connect_ok) simp
  with task_connects.prems(1) show ?case unfolding fst_conv snd_conv
    by (rule handed_inv_reconnect) (use good in \<open>auto split: if_splits\<close>)
next
  case (task_moves_on s s' h)
  then show ?case unfolding fst_conv snd_conv by (blast intro: handed_inv_reconnect)
next
  case (hands_out s i c h)
  then show ?case unfolding fst_conv snd_conv by (blast intro: handed_inv_hands_out)
next
  case (commits s s' c h c0)
  from commits.hyps(1) have "guards s \<noteq> {}" by cases (auto simp: guards_def)
  with commits.prems(1) commits.hyps(3) have "conn_good lb creds target c0" unfolding handed_inv_def fst_conv snd_conv by auto
  from exchanged_good [OF commits.hyps(4) this] commits show ?case
    unfolding fst_conv snd_conv by (blast intro: handed_inv_commit)
qed (unfold fst_conv snd_conv, (blast intro: handed_inv_acquire handed_inv_transport handed_inv_drop handed_inv_wait)+)

lemma handed_inv_new: "handed_inv good link_new h"
  by (auto simp: handed_inv_def link_new_def arriving_def guards_def split: if_splits)

interpretation pooled: invariant_of "\<lambda>sh. sh = (link_new, None)" "pooled_step lb creds sw sr tp rr target"
    "\<lambda>sh. link_inv (\<lambda>_. target) target (fst sh) \<and> handed_inv (conn_good lb creds target) (fst sh) (snd sh)" for lb creds sw sr tp rr target
proof
  fix sh sh' assume inv: "link_inv (\<lambda>_. target) target (fst sh) \<and> handed_inv (conn_good lb creds target) (fst sh) (snd sh)"
    and step: "pooled_step lb creds sw sr tp rr target sh sh'"
  from inv have "lock_inv (fst sh)" by (simp add: link_inv_def)
  with inv step show "link_inv (\<lambda>_. target) target (fst sh') \<and> handed_inv (conn_good lb creds target) (fst sh') (snd sh')"
    by (blast intro: link_inv_step pooled_link_step pooled_inv_step)
qed (simp add: link_inv_new handed_inv_new)

text \<open>The first connection of a link, up to the moment at which \<open>acquire\<close> hands it out.\<close>

lemma first_acquire:
  assumes "try_connect lb took connector target creds = Ok (state, tx, rx)"
  shows "\<exists>s. (pooled_step lb creds sw sr tp rr target)\<^sup>*\<^sup>* (link_new, None) (s, None)
    \<and> lk_clients s 1 = AcquireHolds \<and> lk_state s = Connected (state, state, tx, rx)"
proof -
  let ?step = "pooled_step lb creds sw sr tp rr target" and ?c = "(state, state, tx, rx)"
  let ?s1 = "set_task 0 (Some (WantsLock ?c)) link_new"
  let ?s2 = "set_task 0 (Some (Locked ?c)) ?s1\<lparr>lk_holder := Some (Task 0)\<rparr>"
  let ?s3 = "set_task 0 (Some Stored) ?s2\<lparr>lk_state := Connected ?c\<rparr>"
  let ?s4 = "set_task 0 (Some Notified) ?s3\<lparr>lk_notified := Suc (lk_notified ?s3)\<rparr>"
  let ?s5 = "set_task 0 None ?s4\<lparr>lk_holder := None\<rparr>"
  let ?s6 = "set_client 1 AcquireWaits ?s5"
  let ?s7 = "set_client 1 AcquireHolds ?s6\<lparr>lk_holder := Some (Client 1)\<rparr>"
  have "?step (link_new, None) (?s1, None)"
    using assms by (intro task_connects [where b = FIRST_BACKOFF]) (simp_all add: link_new_def)
  moreover have "?step (?s1, None) (?s2, None)"
    by (intro task_moves_on task_locks) (simp_all add: link_new_def)
  moreover have "?step (?s2, None) (?s3, None)"
    by (intro task_moves_on task_stores) simp_all
  moreover have "?step (?s3, None) (?s4, None)"
    by (intro task_moves_on task_notifies) simp_all
  moreover have "?step (?s4, None) (?s5, None)"
    by (intro task_moves_on task_returns) simp_all
  moreover have "?step (?s5, None) (?s6, None)"
    by (intro acquire_moves_on acquire_starts) (simp_all add: link_new_def guards_def)
  moreover have "?step (?s6, None) (?s7, None)"
    by (intro acquire_moves_on acquire_locks) (simp_all add: link_new_def guards_def)
  ultimately have "?step\<^sup>*\<^sup>* (link_new, None) (?s7, None)"
    by (meson converse_rtranclp_into_rtranclp rtranclp.rtrancl_refl)
  then show ?thesis by (intro exI [of _ ?s7]) simp
qed

section \<open>Property\<close>

text \<open>C9: An exchange over a pooled connection never starts in the middle of a message. Reconnect tasks
  store connections that \<open>try_connect\<close> returned. The holders of guards use the connection in any way and
  may be cancelled anywhere. They commit only when all their calls returned successfully, the last
  message they sent was ended (\<open>send_message\<close>, \<open>abort_message\<close>, or \<open>send_reader\<close> of a source whose length
  is not a positive multiple of \<open>MAX_PACKET_SIZE\<close>), and the last message they opened was read to its
  end or found to be abandoned, with \<open>read_bytes\<close> or the packet iterator. In every state that can be
  reached, when \<open>acquire\<close> is about to hand out the connection of the link, the session of this
  connection was established with the target, no message is being sent or received on it, a message of
  a 12-bit type is not refused by the packet builder, and receiving a message does not panic.\<close>

theorem acquired_connection_idle:
  assumes "(pooled_step lb creds sw sr tp rr target)\<^sup>*\<^sup>* (link_new, None) (s, h)"
    and "lk_clients s i = AcquireHolds" and "lk_state s = Connected (t0, t, tx, rx)"
  shows "(\<exists>pl hd. peer_checked lb (cr_verification_key creds) pl hd t0 \<and> ah_node_id hd = target)
    \<and> conn_idle (t0, t, tx, rx)
    \<and> (mtype \<le> TYPE_MASK \<longrightarrow> fst (send_message sw tp (t, tx) mtype data) \<noteq> Err (PacketBuilderErr e))
    \<and> (receive sr tp (t, rx) = Some (r, s') \<longrightarrow> r \<noteq> Panic)"
proof -
  from pooled.reached [OF refl assms(1)]
  have inv: "lock_inv s" "handed_inv (conn_good lb creds target) s h" by (simp_all add: link_inv_def)
  have good: "conn_good lb creds target (t0, t, tx, rx)"
    using handed_inv_acquired [OF inv(2,1) assms(2,3)] .
  then show ?thesis
    using send_message_not_refused [of "(t, tx)" mtype sw tp data e] receive_safe [of "(t, rx)" sr tp r s']
    by (auto simp: ends_well_def conn_to_def)
qed

theorem acquired_connection_idle_witness:
  "\<exists>s state tx rx. (pooled_step sample_libs sample_creds list_writer list_reader tag_cipher (list_source 3 (Ok 0)) two)\<^sup>*\<^sup>*
      (link_new, None) (s, None)
    \<and> lk_clients s 1 = AcquireHolds \<and> lk_state s = Connected (state, state, tx, rx) \<and> conn_idle (state, state, tx, rx)
    \<and> fst (send_message list_writer tag_cipher (state, tx) 7 [1, 2]) \<noteq> Err (PacketBuilderErr MessageAlreadyInProgress)"
proof -
  obtain s0 state tx rx where "try_connect sample_libs (Some 3) (Ok s0) two sample_creds = Ok (state, tx, rx)"
    by (rule sample_try_connect)
  from first_acquire [OF this] obtain s where
    s: "(pooled_step sample_libs sample_creds list_writer list_reader tag_cipher (list_source 3 (Ok 0)) two)\<^sup>*\<^sup>*
      (link_new, None) (s, None)" "lk_clients s 1 = AcquireHolds" "lk_state s = Connected (state, state, tx, rx)" by blast
  have "(7 :: u16) \<le> TYPE_MASK" by (simp add: TYPE_MASK_def)
  with acquired_connection_idle [OF s, of 7 "[1, 2]" MessageAlreadyInProgress] s show ?thesis by blast
qed

end
