(* ===== verification/Conversation.thy ===== *)
theory Conversation
  imports Handshake_Run "HOL-Library.Sublist"
begin

text \<open>
  Both directions of a connection at once. The two ends of a connection each have one cipher state for
  sending and receiving, so what one side does in one direction must not disturb the other direction.
  A network brings the bytes one side has written to the other side; \<open>interact\<close> runs any sequence of
  sends and receives of the two applications. Its specification is \<open>mailboxes\<close>, two queues of messages;
  \<open>interact_mailboxes\<close> is the refinement, by the invariant \<open>connected\<close>: the messages of each queue are on
  their way, as packets a receiver in step can open.
\<close>

section \<open>The network\<close>

text \<open>What lies between the streams: \<open>nt_carry\<close> takes the state of a write half and of the read half at
  the other end, and brings what has been written. Tokio's \<open>duplex\<close> and TCP deliver the bytes in order
  and unchanged: \<open>written\<close> is all that was written at one end, \<open>arrived\<close> all that came to the other end,
  and \<open>pending\<close> the part of it that has not been read.\<close>

record ('t, 'w, 'r) network =
  nt_cipher :: "'t transport_lib"
  nt_writer :: "'w stream_writer"
  nt_reader :: "'r stream_reader"
  nt_carry :: "'w \<Rightarrow> 'r \<Rightarrow> 'r"

definition arrival_laws :: "'r stream_reader \<Rightarrow> ('r \<Rightarrow> bytes) \<Rightarrow> bool" where
  "arrival_laws sr arrived \<longleftrightarrow>
     (\<forall>r. arrived (snd (sr_read_u16 sr r)) = arrived r)
   \<and> (\<forall>r buf. arrived (snd (snd (sr_read_exact sr r buf))) = arrived r)"

definition network_laws :: "('t, 'w, 'r) network \<Rightarrow> (nat \<Rightarrow> 't \<Rightarrow> 't \<Rightarrow> bool) \<Rightarrow> ('w \<Rightarrow> bytes) \<Rightarrow> ('r \<Rightarrow> bytes)
    \<Rightarrow> ('r \<Rightarrow> bytes) \<Rightarrow> bool" where
  "network_laws nt sync written pending arrived \<longleftrightarrow>
     cipher_laws (nt_cipher nt) sync \<and> write_laws (nt_writer nt) written \<and> write_live (nt_writer nt)
   \<and> read_laws (nt_reader nt) pending \<and> arrival_laws (nt_reader nt) arrived
   \<and> (\<forall>w r. prefix (arrived r) (written w) \<longrightarrow> arrived (nt_carry nt w r) = written w
        \<and> pending (nt_carry nt w r) = pending r @ drop (length (arrived r)) (written w))"

text \<open>One end of a connection, as \<open>connect\<close> and \<open>accept\<close> return it.\<close>

type_synonym ('t, 'w, 'r) endpoint = "'t \<times> 'w MessageTx \<times> 'r MessageRx"

fun convey :: "('t, 'w, 'r) network \<Rightarrow> ('t, 'w, 'r) endpoint \<Rightarrow> ('t, 'w, 'r) endpoint \<Rightarrow> ('t, 'w, 'r) endpoint" where
  "convey nt (ta, txa, rxa) (tb, txb, rxb) =
     (tb, txb, rxb\<lparr>mr_packets := (mr_packets rxb)\<lparr>
        rx_read := nt_carry nt (tx_write (mt_packets txa)) (rx_read (mr_packets rxb))\<rparr>\<rparr>)"

text \<open>A call on a half of an end.\<close>

fun on_tx :: "('t \<times> 'w MessageTx \<Rightarrow> 'a \<times> 't \<times> 'w MessageTx) \<Rightarrow> ('t, 'w, 'r) endpoint \<Rightarrow> 'a \<times> ('t, 'w, 'r) endpoint" where
  "on_tx f (t, tx, rx) = (case f (t, tx) of (res, t, tx) \<Rightarrow> (res, (t, tx, rx)))"

fun on_rx :: "('t \<times> 'r MessageRx \<Rightarrow> 'a \<times> 't \<times> 'r MessageRx) \<Rightarrow> ('t, 'w, 'r) endpoint \<Rightarrow> 'a \<times> ('t, 'w, 'r) endpoint" where
  "on_rx f (t, tx, rx) = (case f (t, rx) of (res, t, rx) \<Rightarrow> (res, (t, tx, rx)))"

text \<open>What an application does with its end: send a message from a slice; stream one from a source, and
  abandon it when the source fails; or receive one. A read waits until the network has brought what
  was written at the other end.\<close>

datatype 'rd sending = Slice u16 bytes | Stream u16 'rd
datatype 'rd operation = Send "'rd sending" | Receive

datatype reply = Replied "(unit, ConnectionError) result" | Received "(u16 \<times> bytes, ConnectionError) result outcome"

fun send_call :: "('t, 'w, 'r) network \<Rightarrow> 'rd source_reader \<Rightarrow> 'rd sending \<Rightarrow> 't \<times> 'w MessageTx
    \<Rightarrow> (reply list \<times> 't \<times> 'w MessageTx) option" where
  "send_call nt rr (Slice mtype data) s =
     (case send_message (nt_writer nt) (nt_cipher nt) s mtype data of
        (res, s) \<Rightarrow> Some ([Replied res], s))"
| "send_call nt rr (Stream mtype reader) s =
     (case message_send_reader (nt_writer nt) (nt_cipher nt) rr s mtype reader of
        None \<Rightarrow> None
      | Some ((Ok _, s), _) \<Rightarrow> Some ([Replied (Ok ())], s)
      | Some ((Err e, s), _) \<Rightarrow>
          (case message_abort (nt_writer nt) (nt_cipher nt) s of
             (res, s) \<Rightarrow> Some ([Replied (Err e), Replied res], s)))"

fun perform :: "('t, 'w, 'r) network \<Rightarrow> 'rd source_reader \<Rightarrow> 'rd operation \<Rightarrow> ('t, 'w, 'r) endpoint \<Rightarrow> ('t, 'w, 'r) endpoint
    \<Rightarrow> (reply list \<times> ('t, 'w, 'r) endpoint) option" where
  "perform nt rr (Send sending) (t, tx, rx) other =
     (case send_call nt rr sending (t, tx) of
        None \<Rightarrow> None
      | Some (rs, t, tx) \<Rightarrow> Some (rs, (t, tx, rx)))"
| "perform nt rr Receive own other =
     (case convey nt other own of
        (t, tx, rx) \<Rightarrow>
          (case receive (nt_reader nt) (nt_cipher nt) (t, rx) of
             None \<Rightarrow> None
           | Some (res, t, rx) \<Rightarrow> Some ([Received res], (t, tx, rx))))"

text \<open>What the two ends do, in any order.\<close>

datatype party = Near | Far

fun interact :: "('t, 'w, 'r) network \<Rightarrow> 'rd source_reader \<Rightarrow> ('t, 'w, 'r) endpoint \<Rightarrow> ('t, 'w, 'r) endpoint
    \<Rightarrow> (party \<times> 'rd operation) list \<Rightarrow> ((party \<times> reply) list \<times> ('t, 'w, 'r) endpoint \<times> ('t, 'w, 'r) endpoint) option" where
  "interact nt rr a b [] = Some ([], a, b)"
| "interact nt rr a b ((Near, oper) # acts) =
     (case perform nt rr oper a b of
        None \<Rightarrow> None
      | Some (rs, a) \<Rightarrow>
          (case interact nt rr a b acts of
             None \<Rightarrow> None
           | Some (es, a, b) \<Rightarrow> Some (map (Pair Near) rs @ es, a, b)))"
| "interact nt rr a b ((Far, oper) # acts) =
     (case perform nt rr oper b a of
        None \<Rightarrow> None
      | Some (rs, b) \<Rightarrow>
          (case interact nt rr a b acts of
             None \<Rightarrow> None
           | Some (es, a, b) \<Rightarrow> Some (map (Pair Far) rs @ es, a, b)))"

section \<open>What a connection promises\<close>

text \<open>Two queues of messages. A message that was abandoned takes its place in the queue: its receiver
  gets \<open>MessageAborted\<close>. What a source of a streamed message yields is a parameter: its bytes, and
  the error it ends with, if any.\<close>

datatype letter = Whole u16 bytes | Abandoned u16 bytes

fun letter_result :: "letter \<Rightarrow> (u16 \<times> bytes, ConnectionError) result" where
  "letter_result (Whole mtype data) = Ok (mtype, data)"
| "letter_result (Abandoned mtype data) = Err MessageAborted"

fun letter_of :: "('rd \<Rightarrow> bytes \<times> io_error option) \<Rightarrow> 'rd sending \<Rightarrow> letter" where
  "letter_of source (Slice mtype data) = Whole mtype data"
| "letter_of source (Stream mtype reader) =
     (case source reader of (data, None) \<Rightarrow> Whole mtype data | (data, Some e) \<Rightarrow> Abandoned mtype data)"

fun replies :: "('rd \<Rightarrow> bytes \<times> io_error option) \<Rightarrow> 'rd sending \<Rightarrow> reply list" where
  "replies source (Slice mtype data) = [Replied (Ok ())]"
| "replies source (Stream mtype reader) =
     (case source reader of (data, None) \<Rightarrow> [Replied (Ok ())] | (data, Some e) \<Rightarrow> [Replied (Err (Io e)), Replied (Ok ())])"

text \<open>A receive waits while its queue is empty; a sequence of operations in which that happens does not
  run to its end.\<close>

fun queue_step :: "('rd \<Rightarrow> bytes \<times> io_error option) \<Rightarrow> 'rd operation \<Rightarrow> letter list \<Rightarrow> letter list
    \<Rightarrow> (reply list \<times> letter list \<times> letter list) option" where
  "queue_step source (Send sending) out inc = Some (replies source sending, out @ [letter_of source sending], inc)"
| "queue_step source Receive out inc =
     (case inc of
        [] \<Rightarrow> None
      | m # inc \<Rightarrow> Some ([Received (Return (letter_result m))], out, inc))"

fun mailboxes :: "('rd \<Rightarrow> bytes \<times> io_error option) \<Rightarrow> letter list \<Rightarrow> letter list \<Rightarrow> (party \<times> 'rd operation) list
    \<Rightarrow> ((party \<times> reply) list \<times> letter list \<times> letter list) option" where
  "mailboxes source f g [] = Some ([], f, g)"
| "mailboxes source f g ((Near, oper) # acts) =
     (case queue_step source oper f g of
        None \<Rightarrow> None
      | Some (rs, f, g) \<Rightarrow>
          (case mailboxes source f g acts of
             None \<Rightarrow> None
           | Some (es, f, g) \<Rightarrow> Some (map (Pair Near) rs @ es, f, g)))"
| "mailboxes source f g ((Far, oper) # acts) =
     (case queue_step source oper g f of
        None \<Rightarrow> None
      | Some (rs, g, f) \<Rightarrow>
          (case mailboxes source f g acts of
             None \<Rightarrow> None
           | Some (es, f, g) \<Rightarrow> Some (map (Pair Far) rs @ es, f, g)))"

text \<open>The operations covered: 12-bit types; a source that yields what \<open>source\<close> says, in pieces of any
  size. A streamed message that ends well must not have a positive multiple of \<open>MAX_PACKET_SIZE\<close> bytes,
  and one that fails must have filled a packet before.\<close>

fun sending_ok :: "'rd source_reader \<Rightarrow> ('rd \<Rightarrow> bytes \<times> io_error option) \<Rightarrow> 'rd sending \<Rightarrow> bool" where
  "sending_ok rr source (Slice mtype data) \<longleftrightarrow> mtype \<le> TYPE_MASK"
| "sending_ok rr source (Stream mtype reader) \<longleftrightarrow> mtype \<le> TYPE_MASK \<and>
     (case source reader of
        (data, None) \<Rightarrow> delivers rr reader data \<and> (data = [] \<or> \<not> MAX_PACKET_SIZE dvd length data)
      | (data, Some e) \<Rightarrow> fails_after rr e reader data \<and> MAX_PACKET_SIZE \<le> length data)"

text \<open>The packets of the messages, and how many packets a party sends.\<close>

fun letter_packets :: "letter \<Rightarrow> (PacketHeader \<times> bytes) list" where
  "letter_packets (Whole mtype data) = packets_of mtype data"
| "letter_packets (Abandoned mtype data) = plan_packets mtype (full_plan data) @ [(hdr mtype Abort, [])]"

text \<open>A message can only be abandoned after a packet of it has left.\<close>

fun letter_ok :: "letter \<Rightarrow> bool" where
  "letter_ok (Whole mtype data) \<longleftrightarrow> True"
| "letter_ok (Abandoned mtype data) \<longleftrightarrow> MAX_PACKET_SIZE \<le> length data"

lemma sending_letter_ok: "sending_ok rr source sending \<Longrightarrow> letter_ok (letter_of source sending)"
  by (cases sending) (auto split: prod.splits option.splits)

abbreviation mail :: "letter list \<Rightarrow> (PacketHeader \<times> bytes) list" where
  "mail q \<equiv> concat (map letter_packets q)"

fun sendings :: "party \<Rightarrow> (party \<times> 'rd operation) list \<Rightarrow> 'rd sending list" where
  "sendings p [] = []"
| "sendings p ((q, Send sending) # acts) = (if q = p then [sending] else []) @ sendings p acts"
| "sendings p ((q, Receive) # acts) = sendings p acts"

abbreviation budget :: "('rd \<Rightarrow> bytes \<times> io_error option) \<Rightarrow> party \<Rightarrow> (party \<times> 'rd operation) list \<Rightarrow> nat" where
  "budget source p acts \<equiv> length (mail (map (letter_of source) (sendings p acts)))"

section \<open>One direction leaves the other alone\<close>

lemma cipher_lawsD:
  assumes "cipher_laws tp sync" "sync n ts tr"
  shows sync_read: "ts_read_message tp ts ct buf = (res, buf', ts') \<Longrightarrow> sync n ts' tr"
    and sync_write: "ts_write_message tp tr plain buf = (res, buf', tr') \<Longrightarrow> sync n ts tr'"
  using assms unfolding cipher_laws_def by (metis snd_conv)+

lemma encrypt_and_write_keeps:
  assumes "cipher_laws tp sync" "sync n u t" "encrypt_and_write sw tp (t, tx) raw = (res, t', tx')"
  shows "sync n u t'"
  using assms(3) sync_write [OF assms(1,2)]
  by (auto simp: encrypt_and_write_def write_frame_def Let_def split: prod.splits result.splits)

lemma send_packet_keeps:
  assumes "cipher_laws tp sync" "sync n u (fst s)" "send_packet sw tp s p l = (res, s')"
  shows "sync n u (fst s')"
proof -
  obtain t tx where s: "s = (t, tx)" by force
  show ?thesis
    using assms(2,3) encrypt_and_write_keeps [OF assms(1), of n u t sw]
    by (cases s') (auto simp: s send_packet_def split: prod.splits result.splits)
qed

lemma send_plan_keeps:
  "cipher_laws tp sync \<Longrightarrow> sync n u (fst s) \<Longrightarrow> send_plan sw tp s plan = (res, s') \<Longrightarrow> sync n u (fst s')"
proof (induction sw tp s plan rule: send_plan.induct)
  case (2 sw tp s p l ps)
  obtain r s1 where "send_packet sw tp s p l = (r, s1)" by (metis prod.collapse)
  with 2 send_packet_keeps [OF 2(2,3) this] show ?case
    by (cases r) (auto simp: send_plan_Cons)
qed auto

lemma send_message_keeps:
  assumes "cipher_laws tp sync" "sync n u (fst s)" "send_message sw tp s mtype data = (res, s')"
  shows "sync n u (fst s')"
proof -
  obtain t tx where s: "s = (t, tx)" by force
  show ?thesis
    using assms(2,3) send_plan_keeps [OF assms(1), of n u]
    by (cases s') (fastforce simp: s send_message_def prepare_message_def send_slice_plan split: prod.splits result.splits)
qed

lemma message_abort_keeps:
  assumes "cipher_laws tp sync" "sync n u (fst s)" "message_abort sw tp s = (res, s')"
  shows "sync n u (fst s')"
proof -
  obtain t tx where s: "s = (t, tx)" by force
  show ?thesis
    using assms(2,3) encrypt_and_write_keeps [OF assms(1), of n u]
    by (cases s') (auto simp: s message_abort_def abort_message_def split: prod.splits option.splits)
qed

lemma message_send_reader_keeps:
  assumes "cipher_laws tp sync" "sync n u (fst s)" "fails_after rr e reader data"
    "message_send_reader sw tp rr s t reader = Some ((res, s'), reader')"
  shows "sync n u (fst s')"
proof -
  obtain ts tx where s: "s = (ts, tx)" by force
  obtain r b where pm: "prepare_message (ts, mt_packets tx) t = (r, ts, (mt_packets tx)\<lparr>tx_packet_builder := b\<rparr>)"
    by (cases "prepare (tx_builder tx) t") (simp add: prepare_message_def)
  let ?s1 = "(ts, (mt_packets tx)\<lparr>tx_packet_builder := b\<rparr>)"
  obtain r2 ts2 pk2 where sp: "send_plan sw tp ?s1 (full_plan data) = (r2, ts2, pk2)" by (metis prod.collapse)
  have "sync n u ts2" using send_plan_keeps [OF assms(1) _ sp] assms(2) by (simp add: s)
  with assms(2,4) send_reader_fails [OF assms(3), of sw tp ?s1] sp show ?thesis
    by (cases r; cases r2) (auto simp: message_send_reader_def s pm)
qed

text \<open>Reading: what every read of the cipher and of the stream preserves.\<close>

definition read_keeps :: "'r stream_reader \<Rightarrow> 't transport_lib \<Rightarrow> ('t \<Rightarrow> bool) \<Rightarrow> ('r \<Rightarrow> bool) \<Rightarrow> bool" where
  "read_keeps sr tp P Q \<longleftrightarrow>
     (\<forall>t ct buf. P t \<longrightarrow> P (snd (snd (ts_read_message tp t ct buf))))
   \<and> (\<forall>r. Q r \<longrightarrow> Q (snd (sr_read_u16 sr r))) \<and> (\<forall>r buf. Q r \<longrightarrow> Q (snd (snd (sr_read_exact sr r buf))))"

lemma read_keepsD:
  assumes "read_keeps sr tp P Q"
  shows "ts_read_message tp t ct buf = (x, y, t') \<Longrightarrow> P t \<Longrightarrow> P t'"
    and "sr_read_u16 sr r = (z, r') \<Longrightarrow> Q r \<Longrightarrow> Q r'"
    and "sr_read_exact sr r buf' = (u, v, r'') \<Longrightarrow> Q r \<Longrightarrow> Q r''"
  using assms unfolding read_keeps_def by (metis snd_conv)+

lemma read_packet_keeps:
  assumes "read_keeps sr tp P Q" "P (fst s) \<and> Q (rx_read (snd s))" "read_packet sr tp s = (res, s')"
  shows "P (fst s') \<and> Q (rx_read (snd s'))"
proof -
  obtain t rx where s: "s = (t, rx)" by force
  show ?thesis
    using assms(2,3)
    by (cases s') (auto simp: s read_packet_def read_frame_def Let_def
      dest: read_keepsD [OF assms(1)] split: prod.splits result.splits)
qed

lemma read_bytes_loop_keeps:
  assumes "read_bytes_loop (read_packet sr tp) pl s buf = Some y" "read_keeps sr tp P Q"
  shows "P (fst s) \<and> Q (rx_read (snd s)) \<Longrightarrow> P (fst (fst (snd y))) \<and> Q (rx_read (snd (fst (snd y))))"
  using assms(1)
proof (induction rule: read_bytes_loop_induct)
  case (continued s h s1 buf y)
  with read_packet_keeps [OF assms(2) continued.prems continued.hyps(1)] show ?case by blast
qed (unfold fst_conv snd_conv, (erule read_packet_keeps [OF assms(2)], assumption)+)

lemma receive_keeps:
  assumes "read_keeps sr tp P Q" "P (fst s) \<and> Q (rx_read (mr_packets (snd s)))" "receive sr tp s = Some (res, s')"
  shows "P (fst s') \<and> Q (rx_read (mr_packets (snd s')))"
proof -
  obtain t rx where s: "s = (t, rx)" by force
  obtain m t1 packets where rp: "read_packet sr tp (t, mr_packets rx) = (m, t1, packets)" by (metis prod.collapse)
  have 1: "P t1 \<and> Q (rx_read packets)" using read_packet_keeps [OF assms(1) _ rp] assms(2) by (simp add: s)
  have 2: "P (fst (fst (snd y))) \<and> Q (rx_read (snd (fst (snd y))))"
    if "read_bytes_loop (read_packet sr tp) pl (t1, packets) buf = Some y" for pl buf y
    using read_bytes_loop_keeps [OF that assms(1)] 1 by simp
  show ?thesis
    using assms(3) 1
    by (auto simp: receive_def read_message_def read_bytes_def s rp Let_def dest!: 2
        split: if_splits result.splits option.splits outcome.splits prod.splits)
qed

lemma read_keeps_sync: "cipher_laws tp sync \<Longrightarrow> arrival_laws sr arrived \<Longrightarrow>
    read_keeps sr tp (\<lambda>t. \<forall>u. sync n t0 u \<longrightarrow> sync n t u) (\<lambda>r. arrived r = bs)"
  unfolding read_keeps_def cipher_laws_def arrival_laws_def by simp

section \<open>Messages on their way\<close>

text \<open>\<open>leg\<close>: the bytes \<open>wire\<close> carry the packets \<open>pkts\<close>, sealed by a cipher that went from \<open>ts\<close> to \<open>ts'\<close>;
  every receiver in step with \<open>ts\<close> can open them and is then in step with \<open>ts'\<close>. \<open>trail\<close>: the same for
  a queue of messages.\<close>

definition leg where
  "leg tp sync n ts pr pkts wire ts' pr' \<longleftrightarrow>
     (\<exists>cts raws. length cts = length raws \<and> length raws = length pkts \<and> (\<forall>ct \<in> set cts. length ct \<le> 65535)
        \<and> wire = concat (map frame_of cts)
        \<and> (\<forall>tr. sync (length pkts + n) ts tr \<longrightarrow> opens_all tp (sync n ts') (zip cts raws) tr)
        \<and> read_all read pr raws = (Ok (map fst pkts), pr') \<and> map (drop 2) raws = map snd pkts)"

fun trail :: "'t transport_lib \<Rightarrow> (nat \<Rightarrow> 't \<Rightarrow> 't \<Rightarrow> bool) \<Rightarrow> nat \<Rightarrow> 't \<Rightarrow> PacketReader \<Rightarrow> letter list
    \<Rightarrow> bytes \<Rightarrow> 't \<Rightarrow> PacketReader \<Rightarrow> bool" where
  "trail tp sync n ts pr [] wire ts' pr' \<longleftrightarrow> wire = [] \<and> pr' = pr \<and> (\<forall>tr. sync n ts tr \<longrightarrow> sync n ts' tr)"
| "trail tp sync n ts pr (m # q) wire ts' pr' \<longleftrightarrow>
     (\<exists>wire1 wire2 ts1 pr1. wire = wire1 @ wire2
        \<and> leg tp sync (length (mail q) + n) ts pr (letter_packets m) wire1 ts1 pr1
        \<and> trail tp sync n ts1 pr1 q wire2 ts' pr')"

lemma posted_leg:
  assumes "posted tp sync written n s pr pkts s' pr'"
  shows "\<exists>wire. written (tx_write (snd s')) = written (tx_write (snd s)) @ wire
    \<and> leg tp sync n (fst s) pr pkts wire (fst s') pr'"
proof -
  from assms obtain raws cts where "length cts = length raws" "length raws = length pkts"
    "\<forall>ct \<in> set cts. length ct \<le> 65535"
    "written (tx_write (snd s')) = written (tx_write (snd s)) @ concat (map frame_of cts)"
    "\<forall>tr. sync (length pkts + n) (fst s) tr \<longrightarrow> opens_all tp (sync n (fst s')) (zip cts raws) tr"
    "read_all read pr raws = (Ok (map fst pkts), pr')" "map (drop 2) raws = map snd pkts"
    unfolding posted_def sent_def by auto
  then show ?thesis unfolding leg_def by blast
qed

lemma leg_coming:
  assumes "read_laws sr pending" "leg tp sync n ts (rx_reader (snd r)) pkts wire ts' pr'"
    "sync (length pkts + n) ts (fst r)" "pending (rx_read (mr_packets (snd r))) = wire @ rest"
  shows "coming sr pending tp (sync n ts') pr' rest r pkts"
  using assms unfolding leg_def incoming_def by auto

lemma leg_ready: "leg tp sync n ts pr pkts wire ts' pr' \<Longrightarrow> sync (length pkts + n) ts tr \<Longrightarrow> \<exists>tr'. sync n ts' tr'"
  unfolding leg_def by (blast dest: opens_all_ends)

lemma leg_from:
  "leg tp sync n ts pr pkts wire ts' pr' \<Longrightarrow> (\<And>tr. sync (length pkts + n) ts0 tr \<Longrightarrow> sync (length pkts + n) ts tr) \<Longrightarrow>
   leg tp sync n ts0 pr pkts wire ts' pr'"
  unfolding leg_def by blast

lemma trail_ready:
  "trail tp sync n ts pr q wire ts' pr' \<Longrightarrow> sync (length (mail q) + n) ts tr \<Longrightarrow> \<exists>tr'. sync n ts' tr'"
proof (induction q arbitrary: ts pr wire tr)
  case (Cons m q)
  then show ?case by (fastforce simp: add.assoc dest: leg_ready)
qed auto

lemma trail_snoc:
  "trail tp sync (length (letter_packets m) + n) ts pr q wire ts1 pr1 \<Longrightarrow>
   leg tp sync n ts1 pr1 (letter_packets m) wire1 ts' pr' \<Longrightarrow>
   trail tp sync n ts pr (q @ [m]) (wire @ wire1) ts' pr'"
proof (induction q arbitrary: ts pr wire)
  case Nil
  then have "leg tp sync n ts pr (letter_packets m) wire1 ts' pr'" by (auto intro: leg_from)
  then show ?case using Nil by auto
next
  case (Cons m1 q)
  then show ?case by (fastforce simp: add.assoc)
qed

lemma trail_onward:
  "trail tp sync n ts pr q wire ts1 pr' \<Longrightarrow> (\<And>tr. sync n ts1 tr \<Longrightarrow> sync n ts' tr) \<Longrightarrow> trail tp sync n ts pr q wire ts' pr'"
proof (induction q arbitrary: ts pr wire)
  case (Cons m q)
  then show ?case by (simp, blast)
qed simp

text \<open>The halves of an end.\<close>

fun tx_of :: "('t, 'w, 'r) endpoint \<Rightarrow> 't \<times> 'w MessageTx" where
  "tx_of (t, tx, rx) = (t, tx)"

fun rx_of :: "('t, 'w, 'r) endpoint \<Rightarrow> 't \<times> 'r MessageRx" where
  "rx_of (t, tx, rx) = (t, rx)"

text \<open>One direction of a connection: the messages \<open>q\<close> are on their way from the sender \<open>s\<close> to the
  receiver \<open>r\<close>, the sender is between messages and has \<open>n\<close> nonces left.\<close>

definition flying where
  "flying tp sync written pending arrived n s r q \<longleftrightarrow>
     (let w = tx_write (mt_packets (snd s)); rd = rx_read (mr_packets (snd r)) in
      prefix (arrived rd) (written w) \<and> list_all letter_ok q
    \<and> (\<exists>ts pr. sync (length (mail q) + n) ts (fst r)
        \<and> trail tp sync n ts (rx_reader (snd r)) q (pending rd @ drop (length (arrived rd)) (written w)) (fst s) pr
        \<and> in_step (tx_builder (snd s)) pr \<and> builder_opened (tx_builder (snd s)) = None))"

text \<open>Both directions of a connection.\<close>

definition connected where
  "connected nt sync written pending arrived n m a b f g \<longleftrightarrow>
     flying (nt_cipher nt) sync written pending arrived n (tx_of a) (rx_of b) f
   \<and> flying (nt_cipher nt) sync written pending arrived m (tx_of b) (rx_of a) g"

lemma connected_sym:
  "connected nt sync written pending arrived n m a b f g \<Longrightarrow> connected nt sync written pending arrived m n b a g f"
  by (simp add: connected_def)

text \<open>All that was written at \<open>a\<close> has arrived at \<open>b\<close> and was read.\<close>

definition settled :: "('w \<Rightarrow> bytes) \<Rightarrow> ('r \<Rightarrow> bytes) \<Rightarrow> ('r \<Rightarrow> bytes) \<Rightarrow> 't \<times> 'w MessageTx \<Rightarrow> 't \<times> 'r MessageRx \<Rightarrow> bool" where
  "settled written pending arrived s r \<longleftrightarrow>
     arrived (rx_read (mr_packets (snd r))) = written (tx_write (mt_packets (snd s)))
   \<and> pending (rx_read (mr_packets (snd r))) = []"

lemma network_lawsD:
  assumes "network_laws nt sync written pending arrived"
  shows "cipher_laws (nt_cipher nt) sync" "write_laws (nt_writer nt) written" "write_live (nt_writer nt)"
    "read_laws (nt_reader nt) pending" "arrival_laws (nt_reader nt) arrived"
    "prefix (arrived r) (written w) \<Longrightarrow> arrived (nt_carry nt w r) = written w
        \<and> pending (nt_carry nt w r) = pending r @ drop (length (arrived r)) (written w)"
  using assms unfolding network_laws_def by simp_all

lemma linked_flying:
  "linked sync n s r \<Longrightarrow> settled written pending arrived s r \<Longrightarrow> flying tp sync written pending arrived n s r []"
  by (auto simp: flying_def linked_def settled_def)

lemma flying_linked: "flying tp sync written pending arrived n s r [] \<Longrightarrow> linked sync n s r"
  by (auto simp: flying_def linked_def Let_def)

section \<open>Every call keeps both directions\<close>

text \<open>Every way of sending posts its message and keeps what the other direction needs.\<close>

lemma send_call_posts:
  assumes laws: "network_laws nt sync written pending arrived" and ok: "sending_ok rr source sending"
    and sy: "sync (length (letter_packets (letter_of source sending)) + n) (fst s) tr0"
    and b: "in_step (tx_builder (snd s)) pr" "builder_opened (tx_builder (snd s)) = None"
  shows "\<exists>s' pr'. send_call nt rr sending s = Some (replies source sending, s')
    \<and> posted (nt_cipher nt) sync written n (tx_half s) pr (letter_packets (letter_of source sending)) (tx_half s') pr'
    \<and> in_step (tx_builder (snd s')) pr' \<and> builder_opened (tx_builder (snd s')) = None
    \<and> (\<forall>k u. sync k u (fst s) \<longrightarrow> sync k u (fst s'))"
proof -
  note laws = network_lawsD [OF laws]
  have whole: "\<exists>s' pr'. send_message (nt_writer nt) (nt_cipher nt) s t data = (Ok (), s')
    \<and> posted (nt_cipher nt) sync written n (tx_half s) pr (packets_of t data) (tx_half s') pr'
    \<and> in_step (tx_builder (snd s')) pr' \<and> builder_opened (tx_builder (snd s')) = None
    \<and> (\<forall>k u. sync k u (fst s) \<longrightarrow> sync k u (fst s'))"
    if sy: "sync (length (packets_of t data) + n) (fst s) tr0" and t: "t \<le> TYPE_MASK" for t data
  proof -
    note post = send_message_posted [OF laws(1,2) sy b t]
    from post(2) [OF laws(3)] obtain s' where sm: "send_message (nt_writer nt) (nt_cipher nt) s t data = (Ok (), s')"
      by (metis prod.collapse)
    from post(1) [OF sm] sm send_message_keeps [OF laws(1) _ sm] show ?thesis by blast
  qed
  show ?thesis
  proof (cases sending)
    case (Slice t data)
    with whole [of t data] sy ok show ?thesis by auto
  next
    case (Stream t reader)
    obtain data fin where src: "source reader = (data, fin)" by fastforce
    show ?thesis
    proof (cases fin)
      case None
      with ok Stream src have "delivers rr reader data" "data = [] \<or> \<not> MAX_PACKET_SIZE dvd length data" "t \<le> TYPE_MASK"
        by auto
      with message_send_reader_slice [OF this(1,2), of "nt_writer nt" "nt_cipher nt" s t] whole [of t data] sy
      show ?thesis by (auto simp: Stream src None simp del: split_paired_Ex)
    next
      case (Some e)
      with ok Stream src have f: "fails_after rr e reader data" "MAX_PACKET_SIZE \<le> length data" "t \<le> TYPE_MASK" by auto
      have "sync (length (full_plan data) + Suc n) (fst s) tr0" using sy by (simp add: Stream src Some)
      from abandoned_posted [OF laws(1-3) f(1,2) this b f(3)] obtain s1 reader' s2 pr2 where
        r: "message_send_reader (nt_writer nt) (nt_cipher nt) rr s t reader = Some ((Err (Io e), s1), reader')"
          "message_abort (nt_writer nt) (nt_cipher nt) s1 = (Ok (), s2)"
        and p: "posted (nt_cipher nt) sync written n (tx_half s) pr (plan_packets t (full_plan data) @ [(hdr t Abort, [])]) (tx_half s2) pr2"
          "in_step (tx_builder (snd s2)) pr2" "builder_opened (tx_builder (snd s2)) = None" by blast
      have "sync k u (fst s2)" if "sync k u (fst s)" for k u
        using message_abort_keeps [OF laws(1) message_send_reader_keeps [OF laws(1) that f(1) r(1)] r(2)] .
      with r p show ?thesis by (auto simp: Stream src Some simp del: split_paired_Ex)
    qed
  qed
qed

text \<open>An end between messages; what it posts is on its way.\<close>

lemma connected_ready:
  assumes fl: "connected nt sync written pending arrived (length (letter_packets l) + n) m (t, tx, rx) b q p" and ok: "letter_ok l"
  shows "\<exists>pr tr0. sync (length (letter_packets l) + n) t tr0 \<and> in_step (tx_builder tx) pr \<and> builder_opened (tx_builder tx) = None
    \<and> (\<forall>s' pr'. posted (nt_cipher nt) sync written n (t, mt_packets tx) pr (letter_packets l) (tx_half s') pr' \<longrightarrow>
         in_step (tx_builder (snd s')) pr' \<longrightarrow> builder_opened (tx_builder (snd s')) = None \<longrightarrow>
         (\<forall>k u. sync k u t \<longrightarrow> sync k u (fst s')) \<longrightarrow>
         connected nt sync written pending arrived n m (fst s', snd s', rx) b (q @ [l]) p)"
proof -
  let ?w = "written (tx_write (mt_packets tx))" and ?rd = "rx_read (mr_packets (snd (rx_of b)))"
  from fl obtain ts pr where pre: "prefix (arrived ?rd) ?w" "list_all letter_ok q"
    and sy: "sync (length (mail q) + (length (letter_packets l) + n)) ts (fst (rx_of b))"
    and tr: "trail (nt_cipher nt) sync (length (letter_packets l) + n) ts (rx_reader (snd (rx_of b))) q
        (pending ?rd @ drop (length (arrived ?rd)) ?w) t pr"
    and idle: "in_step (tx_builder tx) pr" "builder_opened (tx_builder tx) = None"
    by (auto simp: connected_def flying_def Let_def)
  have "connected nt sync written pending arrived n m (fst s', snd s', rx) b (q @ [l]) p"
    if post: "posted (nt_cipher nt) sync written n (t, mt_packets tx) pr (letter_packets l) (tx_half s') pr'"
      and idle': "in_step (tx_builder (snd s')) pr'" "builder_opened (tx_builder (snd s')) = None"
      and keep: "\<forall>k u. sync k u t \<longrightarrow> sync k u (fst s')" for s' pr'
  proof -
    from posted_leg [OF post] obtain wire where w: "written (tx_write (mt_packets (snd s'))) = ?w @ wire"
      and lg: "leg (nt_cipher nt) sync n t pr (letter_packets l) wire (fst s') pr'" by auto
    have "drop (length (arrived ?rd)) (?w @ wire) = drop (length (arrived ?rd)) ?w @ wire"
      using prefix_length_le [OF pre(1)] by simp
    with trail_snoc [OF tr lg] w sy idle' pre ok
    have "flying (nt_cipher nt) sync written pending arrived n s' (rx_of b) (q @ [l])"
      unfolding flying_def Let_def by (intro conjI exI [of _ ts] exI [of _ pr']) (simp_all add: add.assoc)
    moreover have "flying (nt_cipher nt) sync written pending arrived m (tx_of b) (fst s', rx) p"
      using fl keep unfolding connected_def flying_def Let_def by auto
    ultimately show ?thesis by (simp add: connected_def)
  qed
  with trail_ready [OF tr sy] idle show ?thesis by blast
qed

lemma perform_send:
  assumes laws: "network_laws nt sync written pending arrived" and ok: "sending_ok rr source sending"
    and fl: "connected nt sync written pending arrived (length (letter_packets (letter_of source sending)) + n) m a b q p"
  shows "\<exists>a'. perform nt rr (Send sending) a b = Some (replies source sending, a')
    \<and> connected nt sync written pending arrived n m a' b (q @ [letter_of source sending]) p"
proof -
  obtain ta txa rxa where a: "a = (ta, txa, rxa)" by (cases a)
  from connected_ready [OF fl [unfolded a] sending_letter_ok [OF ok]] obtain pr tr0 where
    ready: "sync (length (letter_packets (letter_of source sending)) + n) ta tr0" "in_step (tx_builder txa) pr"
      "builder_opened (tx_builder txa) = None"
    and done_: "\<forall>s' pr'. posted (nt_cipher nt) sync written n (ta, mt_packets txa) pr (letter_packets (letter_of source sending)) (tx_half s') pr' \<longrightarrow>
         in_step (tx_builder (snd s')) pr' \<longrightarrow> builder_opened (tx_builder (snd s')) = None \<longrightarrow>
         (\<forall>k u. sync k u ta \<longrightarrow> sync k u (fst s')) \<longrightarrow>
         connected nt sync written pending arrived n m (fst s', snd s', rxa) b (q @ [letter_of source sending]) p" by blast
  from send_call_posts [OF laws ok, where s = "(ta, txa)", unfolded fst_conv snd_conv, OF ready] obtain s' pr' where
    call: "send_call nt rr sending (ta, txa) = Some (replies source sending, s')"
    and "posted (nt_cipher nt) sync written n (ta, mt_packets txa) pr (letter_packets (letter_of source sending)) (tx_half s') pr'"
      "in_step (tx_builder (snd s')) pr'" "builder_opened (tx_builder (snd s')) = None" "\<forall>k u. sync k u ta \<longrightarrow> sync k u (fst s')" by blast
  with done_ have "connected nt sync written pending arrived n m (fst s', snd s', rxa) b (q @ [letter_of source sending]) p"
    by blast
  with call show ?thesis by (cases s') (auto simp: a)
qed

lemma receive_letter:
  assumes cm: "coming sr pending tp Q pr' rest s (letter_packets m @ pkts)" and ok: "letter_ok m"
  shows "\<exists>s'. receive sr tp s = Some (Return (letter_result m), s') \<and> coming sr pending tp Q pr' rest s' pkts"
proof (cases m)
  case (Whole t data)
  with cm receive_message [of sr pending tp Q pr' rest s t data pkts] show ?thesis by simp
next
  case (Abandoned t data)
  have "MAX_PACKET_SIZE \<le> length data" using ok Abandoned by simp
  then obtain p ps where "plan_packets t (full_plan data) = (hdr t First, p) # map (Pair (hdr t Mid)) ps"
    by (rule full_plan_packets)
  with cm receive_aborted [of sr pending tp Q pr' rest s t p ps "[]" pkts] show ?thesis by (simp add: Abandoned)
qed

lemma convey_flies:
  assumes "network_laws nt sync written pending arrived" "connected nt sync written pending arrived n m a b q p"
  shows "connected nt sync written pending arrived n m a (convey nt a b) q p
    \<and> arrived (rx_read (mr_packets (snd (rx_of (convey nt a b))))) = written (tx_write (mt_packets (snd (tx_of a))))"
proof -
  obtain ta txa rxa tb txb rxb where ab: "a = (ta, txa, rxa)" "b = (tb, txb, rxb)" by (cases a, cases b)
  show ?thesis
    using assms(2) network_lawsD(6) [OF assms(1), of "rx_read (mr_packets rxb)" "tx_write (mt_packets txa)"]
    by (simp add: connected_def flying_def Let_def ab)
qed

text \<open>The first message on its way, once it has arrived.\<close>

lemma connected_coming:
  assumes laws: "network_laws nt sync written pending arrived"
    and fl: "connected nt sync written pending arrived n m a (tb, txb, rxb) (l # q) p"
    and here: "arrived (rx_read (mr_packets rxb)) = written (tx_write (mt_packets (snd (tx_of a))))"
  obtains ts1 pr1 wire2 pr where
    "coming (nt_reader nt) pending (nt_cipher nt) (sync (length (mail q) + n) ts1) pr1 wire2 (tb, rxb) (letter_packets l)"
    "trail (nt_cipher nt) sync n ts1 pr1 q wire2 (fst (tx_of a)) pr" "letter_ok l" "list_all letter_ok q"
    "in_step (tx_builder (snd (tx_of a))) pr" "builder_opened (tx_builder (snd (tx_of a))) = None"
proof -
  let ?n = "length (mail q) + n"
  from fl here obtain ts pr wire1 wire2 ts1 pr1 where
    sy: "sync (length (letter_packets l) + ?n) ts tb"
    and pend: "pending (rx_read (mr_packets rxb)) = wire1 @ wire2"
    and lg: "leg (nt_cipher nt) sync ?n ts (rx_reader rxb) (letter_packets l) wire1 ts1 pr1"
    and rest: "trail (nt_cipher nt) sync n ts1 pr1 q wire2 (fst (tx_of a)) pr" "letter_ok l" "list_all letter_ok q"
      "in_step (tx_builder (snd (tx_of a))) pr" "builder_opened (tx_builder (snd (tx_of a))) = None"
    by (auto simp: connected_def flying_def Let_def add.assoc)
  from leg_coming [OF network_lawsD(4) [OF laws], where r = "(tb, rxb)", unfolded fst_conv snd_conv, OF lg sy pend] rest
  show thesis by (intro that) simp_all
qed

lemma receive_flies:
  assumes laws: "network_laws nt sync written pending arrived"
    and fl: "connected nt sync written pending arrived n m a (tb, txb, rxb) (l # q) p"
    and here: "arrived (rx_read (mr_packets rxb)) = written (tx_write (mt_packets (snd (tx_of a))))"
  shows "\<exists>tb' rxb'. receive (nt_reader nt) (nt_cipher nt) (tb, rxb) = Some (Return (letter_result l), tb', rxb')
    \<and> connected nt sync written pending arrived n m a (tb', txb, rxb') q p"
proof -
  note nl = network_lawsD [OF laws]
  from connected_coming [OF assms] obtain ts1 pr1 wire2 pr where
    co: "coming (nt_reader nt) pending (nt_cipher nt) (sync (length (mail q) + n) ts1) pr1 wire2 (tb, rxb) (letter_packets l)"
    and tr: "trail (nt_cipher nt) sync n ts1 pr1 q wire2 (fst (tx_of a)) pr" and ok: "letter_ok l" "list_all letter_ok q"
    and idle: "in_step (tx_builder (snd (tx_of a))) pr" "builder_opened (tx_builder (snd (tx_of a))) = None" .
  from receive_letter [OF _ ok(1), where pkts = "[]"] co obtain tb' rxb' where
    rc: "receive (nt_reader nt) (nt_cipher nt) (tb, rxb) = Some (Return (letter_result l), tb', rxb')"
    and cm: "coming (nt_reader nt) pending (nt_cipher nt) (sync (length (mail q) + n) ts1) pr1 wire2 (tb', rxb') []" by fastforce
  have k: "(\<forall>u. sync m tb u \<longrightarrow> sync m tb' u) \<and> arrived (rx_read (mr_packets rxb')) = arrived (rx_read (mr_packets rxb))"
    using receive_keeps [OF read_keeps_sync [OF nl(1,5), of m tb] _ rc] by simp
  have "flying (nt_cipher nt) sync written pending arrived n (tx_of a) (tb', rxb') q"
    using incoming_Nil [OF cm] tr idle here k ok by (auto simp: flying_def Let_def)
  moreover have "flying (nt_cipher nt) sync written pending arrived m (tb', txb) (rx_of a) p"
    using fl k unfolding connected_def flying_def Let_def by (auto intro: trail_onward)
  ultimately show ?thesis using rc by (auto simp: connected_def)
qed

lemma perform_receive:
  assumes laws: "network_laws nt sync written pending arrived"
    and fl: "connected nt sync written pending arrived n m a b (l # q) p"
  shows "\<exists>b'. perform nt rr Receive b a = Some ([Received (Return (letter_result l))], b')
    \<and> connected nt sync written pending arrived n m a b' q p"
proof -
  obtain tb txb rxb where c: "convey nt a b = (tb, txb, rxb)" by (cases "convey nt a b")
  from receive_flies [OF laws, of n m a tb txb rxb l q p] convey_flies [OF laws fl] obtain tb' rxb' where
    "receive (nt_reader nt) (nt_cipher nt) (tb, rxb) = Some (Return (letter_result l), tb', rxb')"
    "connected nt sync written pending arrived n m a (tb', txb, rxb') q p" by (auto simp: c)
  then show ?thesis by (auto simp: c)
qed

section \<open>A connection is two queues\<close>

lemma perform_queue_step:
  assumes laws: "network_laws nt sync written pending arrived" and step: "queue_step source oper f g = Some (rs, f', g')"
    and ok: "\<forall>sending. oper = Send sending \<longrightarrow> sending_ok rr source sending"
    and fl: "connected nt sync written pending arrived (budget source p [(p, oper)] + n) m a b f g"
  shows "\<exists>a'. perform nt rr oper a b = Some (rs, a') \<and> connected nt sync written pending arrived n m a' b f' g'"
proof (cases oper)
  case (Send sending)
  with perform_send [OF laws, of rr source sending n m a b f g] ok fl step show ?thesis by simp
next
  case Receive
  with step obtain l where g: "g = l # g'" "rs = [Received (Return (letter_result l))]" "f' = f"
    by (auto split: list.splits)
  have "connected nt sync written pending arrived m n b a (l # g') f"
    using connected_sym [OF fl] by (simp add: Receive g)
  from perform_receive [OF laws this] show ?thesis
    by (auto simp: Receive g simp del: split_paired_Ex dest: connected_sym)
qed

lemma sendings_Cons:
  "sendings p ((q, oper) # acts) = sendings p [(q, oper)] @ sendings p acts"
  by (cases oper) simp_all

lemma sendings_other: "q \<noteq> p \<Longrightarrow> sendings p [(q, oper)] = []"
  by (cases oper) simp_all

lemma interact_mailboxes:
  assumes laws: "network_laws nt sync written pending arrived"
  shows "mailboxes source f g acts = Some (es, f', g') \<Longrightarrow>
    \<forall>p. list_all (sending_ok rr source) (sendings p acts) \<Longrightarrow>
    connected nt sync written pending arrived (budget source Near acts + n) (budget source Far acts + m) a b f g \<Longrightarrow>
    \<exists>a' b'. interact nt rr a b acts = Some (es, a', b') \<and> connected nt sync written pending arrived n m a' b' f' g'"
proof (induction source f g acts arbitrary: a b es rule: mailboxes.induct)
  case (2 source f g oper acts)
  from 2(2) obtain rs f1 g1 es1 where q: "queue_step source oper f g = Some (rs, f1, g1)"
    "mailboxes source f1 g1 acts = Some (es1, f', g')" "es = map (Pair Near) rs @ es1"
    by (auto split: option.splits)
  have ok: "\<forall>sending. oper = Send sending \<longrightarrow> sending_ok rr source sending" using spec [OF 2(3), of Near] by force
  have oks: "\<forall>p. list_all (sending_ok rr source) (sendings p acts)"
    using 2(3) by (simp add: sendings_Cons [of _ _ oper acts])
  have "connected nt sync written pending arrived (budget source Near [(Near, oper)] + (budget source Near acts + n))
      (budget source Far acts + m) a b f g"
    using 2(4) by (simp add: sendings_Cons [of _ _ oper acts] sendings_other add.assoc)
  from perform_queue_step [OF laws q(1) ok this] obtain a' where
    p: "perform nt rr oper a b = Some (rs, a')"
    "connected nt sync written pending arrived (budget source Near acts + n) (budget source Far acts + m) a' b f1 g1" by blast
  from 2(1) [OF q(1) refl refl q(2) oks p(2)] p(1) q(3) show ?case by (auto simp del: split_paired_Ex)
next
  case (3 source f g oper acts)
  from 3(2) obtain rs f1 g1 es1 where q: "queue_step source oper g f = Some (rs, g1, f1)"
    "mailboxes source f1 g1 acts = Some (es1, f', g')" "es = map (Pair Far) rs @ es1"
    by (auto split: option.splits)
  have ok: "\<forall>sending. oper = Send sending \<longrightarrow> sending_ok rr source sending" using spec [OF 3(3), of Far] by force
  have oks: "\<forall>p. list_all (sending_ok rr source) (sendings p acts)"
    using 3(3) by (simp add: sendings_Cons [of _ _ oper acts])
  have "connected nt sync written pending arrived (budget source Far [(Far, oper)] + (budget source Far acts + m))
      (budget source Near acts + n) b a g f"
    using connected_sym [OF 3(4)] by (simp add: sendings_Cons [of _ _ oper acts] sendings_other add.assoc)
  from perform_queue_step [OF laws q(1) ok this] obtain b' where
    p: "perform nt rr oper b a = Some (rs, b')"
    "connected nt sync written pending arrived (budget source Far acts + m) (budget source Near acts + n) b' a g1 f1" by blast
  from 3(1) [OF q(1) refl refl q(2) oks connected_sym [OF p(2)]] p(1) q(3) show ?case by (auto simp del: split_paired_Ex)
qed auto

end
