(* ===== verification/Session.thy ===== *)
theory Session
  imports Conversation
begin

text \<open>
  A whole session: the handshake of two nodes over fresh streams, and what the two applications then
  do with the connection. \<open>session_connected\<close> joins the handshake (theory \<open>Handshake_Run\<close>) and the two-way
  traffic (theory \<open>Conversation\<close>): after \<open>connect\<close> and \<open>accept\<close> the two ends are \<open>connected\<close>, with nothing
  on its way, so that the connection behaves like two queues of messages.
\<close>

section \<open>Streams that remember what arrived\<close>

text \<open>Neither reading nor writing changes what has arrived at a stream, nor does splitting it.\<close>

definition stream_arrivals where
  "stream_arrivals sr sw split arrived half_arrived \<longleftrightarrow> arrival_laws sr arrived
   \<and> (\<forall>s bs. arrived (snd (sw_write_all sw s bs)) = arrived s) \<and> (\<forall>s. arrived (snd (sw_flush sw s)) = arrived s)
   \<and> (\<forall>s. half_arrived (fst (split s)) = arrived s)"

lemma stream_arrivalsD:
  assumes "stream_arrivals sr sw split arrived ha"
  shows "sr_read_u16 sr s = (a, s1) \<Longrightarrow> arrived s1 = arrived s"
    and "sr_read_exact sr s buf = (b, c, s2) \<Longrightarrow> arrived s2 = arrived s"
    and "sw_write_all sw s bs = (d, s3) \<Longrightarrow> arrived s3 = arrived s"
    and "sw_flush sw s = (e, s4) \<Longrightarrow> arrived s4 = arrived s"
    and "split s = (rd, wr) \<Longrightarrow> ha rd = arrived s"
  using assms unfolding stream_arrivals_def arrival_laws_def by (metis fst_conv snd_conv)+

lemma send_arrived:
  assumes "stream_arrivals sr sw split arrived ha" "send hl sw hs pl = (res, hs')"
  shows "arrived (hc_stream hs') = arrived (hc_stream hs)"
  using assms(2) stream_arrivalsD [OF assms(1)]
  by (auto simp: send_def Let_def split: prod.splits result.splits)

lemma recv_arrived:
  assumes "stream_arrivals sr sw split arrived ha" "recv hl sr hs = (res, hs')"
  shows "arrived (hc_stream hs') = arrived (hc_stream hs)"
  using assms(2) stream_arrivalsD [OF assms(1)]
  by (auto simp: recv_def read_frame_def Let_def split: prod.splits result.splits)

lemma finish_arrived:
  assumes "stream_arrivals (lb_reader lb) (lb_writer lb) (lb_split lb) arrived ha"
    "finish lb h hs = (Ok ((t, tx, rx), details), hs')"
  shows "ha (rx_read rx) = arrived (hc_stream hs)"
  using assms(2) stream_arrivalsD(5) [OF assms(1)]
  by (auto simp: finish_def into_split_def Let_def split: prod.splits result.splits)

lemma connect_steps_arrived:
  assumes lib: "stream_arrivals (lb_reader lb) (lb_writer lb) (lb_split lb) arrived ha"
    and "connect_steps lb cred vk hs = (Ok ((t, tx, rx), details), hs')"
  shows "ha (rx_read rx) = arrived (hc_stream hs)"
  using assms(2) unfolding connect_steps_def
  by (elim try_then_OkD)
    (auto dest!: send_arrived [OF lib] recv_arrived [OF lib] finish_arrived [OF lib])

lemma accept_steps_arrived:
  assumes lib: "stream_arrivals (lb_reader lb) (lb_writer lb) (lb_split lb) arrived ha"
    and "accept_steps lb cred vk hs = (Ok ((t, tx, rx), details), hs')"
  shows "ha (rx_read rx) = arrived (hc_stream hs)"
  using assms(2) unfolding accept_steps_def
  by (elim try_then_OkD)
    (auto dest!: send_arrived [OF lib] recv_arrived [OF lib] finish_arrived [OF lib])

section \<open>From the handshake to a connection\<close>

text \<open>The libraries of a node and the network between two of them: the halves of the streams are those
  \<open>split\<close> returns.\<close>

definition session_laws where
  "session_laws lb nt public pair sync pending written arrived hp hw ha \<longleftrightarrow>
     xx_laws (lb_noise lb) public pair sync
   \<and> duplex_laws (lb_reader lb) (lb_writer lb) (lb_split lb) pending written hp hw
   \<and> stream_arrivals (lb_reader lb) (lb_writer lb) (lb_split lb) arrived ha
   \<and> yatlv_laws (lb_yatlv lb) \<and> ed25519_laws (lb_ed25519 lb) \<and> network_laws nt sync hw hp ha"

text \<open>A stream on which nothing was written or read, and to which \<open>bs\<close> will have been brought by the end
  of the handshake.\<close>

definition fresh_stream :: "('s \<Rightarrow> bytes) \<Rightarrow> ('s \<Rightarrow> bytes) \<Rightarrow> ('s \<Rightarrow> bytes) \<Rightarrow> 's \<Rightarrow> bytes \<Rightarrow> bool" where
  "fresh_stream pending written arrived s bs \<longleftrightarrow> written s = [] \<and> pending s = bs \<and> arrived s = bs"

text \<open>The halves of two nodes that have read each other's handshake are connected, with nothing in flight.\<close>

lemma halves_connected:
  assumes "tx_packet_builder txi = builder_new" "rx_packet_reader rxi = reader_new"
    and "tx_packet_builder txr = builder_new" "rx_packet_reader rxr = reader_new"
    and "hw (tx_write txi) = ha (rx_read rxr)" "hp (rx_read rxi) = []"
    and "hw (tx_write txr) = ha (rx_read rxi)" "hp (rx_read rxr) = []"
    and "sync n ti tr" "sync n tr ti"
  shows "connected nt sync hw hp ha n n (ti, message_tx_new txi, message_rx_new rxi) (tr, message_tx_new txr, message_rx_new rxr) [] []"
  unfolding connected_def tx_of.simps rx_of.simps
  using halves_linked [where sync = sync and n = n, OF assms(1,4,9)]
    halves_linked [where sync = sync and n = n, OF assms(3,2,10)] assms(5-8)
  by (simp add: linked_flying settled_def message_tx_new_def message_rx_new_def)

lemma session_connected:
  assumes laws: "session_laws lb nt public pair sync pending written arrived hp hw ha"
    and sig: "key_pair (lb_ed25519 lb) sk vk"
    and nodes: "node_ok lb public sk privi hi" "node_ok lb public sk privr hr"
    and time: "d \<le> HANDSHAKE_TIMEOUT" "d' \<le> HANDSHAKE_TIMEOUT" and n: "n < 2 ^ 64"
  obtains towards_i towards_r where
    "\<forall>si sr. fresh_stream pending written arrived si towards_i \<longrightarrow> fresh_stream pending written arrived sr towards_r \<longrightarrow>
      (\<exists>a b. connect lb (Some d) si privi (credential lb sk hi) vk = Ok (a, AuthDetails_from hr)
         \<and> accept lb (Some d') sr privr (credential lb sk hr) vk = Ok (b, AuthDetails_from hi)
         \<and> connected nt sync hw hp ha n n a b [] [])"
proof -
  have l: "xx_laws (lb_noise lb) public pair sync"
    "duplex_laws (lb_reader lb) (lb_writer lb) (lb_split lb) pending written hp hw"
    "stream_arrivals (lb_reader lb) (lb_writer lb) (lb_split lb) arrived ha"
    "yatlv_laws (lb_yatlv lb)" "ed25519_laws (lb_ed25519 lb)"
    using laws unfolding session_laws_def by simp_all
  obtain m1 m2 m3 i0 r0 ti tr where
    b: "hl_build_initiator (lb_noise lb) NOISE_PARAMS (tpriv_expose privi) = Ok i0"
      "hl_build_responder (lb_noise lb) NOISE_PARAMS (tpriv_expose privr) = Ok r0"
    and sy: "sync n ti tr" "sync n tr ti"
    and con: "\<forall>s rest. pending s = frame_of m2 @ rest \<longrightarrow> (\<exists>tx rx hs.
      connect_steps lb (credential lb sk hi) vk (new_context i0 s) = (Ok ((ti, tx, rx), AuthDetails_from hr), hs)
      \<and> tx_packet_builder tx = builder_new \<and> rx_packet_reader rx = reader_new
      \<and> hw (tx_write tx) = written s @ frame_of m1 @ frame_of m3 \<and> hp (rx_read rx) = rest)"
    and acc: "\<forall>s rest. pending s = frame_of m1 @ frame_of m3 @ rest \<longrightarrow> (\<exists>tx rx hs.
      accept_steps lb (credential lb sk hr) vk (new_context r0 s) = (Ok ((tr, tx, rx), AuthDetails_from hi), hs)
      \<and> tx_packet_builder tx = builder_new \<and> rx_packet_reader rx = reader_new
      \<and> hw (tx_write tx) = written s @ frame_of m2 \<and> hp (rx_read rx) = rest)"
    by (rule xx_runs [OF l(1,2,4,5) sig nodes n]) blast
  have "\<exists>a b. connect lb (Some d) si privi (credential lb sk hi) vk = Ok (a, AuthDetails_from hr)
      \<and> accept lb (Some d') sr privr (credential lb sk hr) vk = Ok (b, AuthDetails_from hi)
      \<and> connected nt sync hw hp ha n n a b [] []"
    if fi: "fresh_stream pending written arrived si (frame_of m2)"
      and fr: "fresh_stream pending written arrived sr (frame_of m1 @ frame_of m3)" for si sr
  proof -
    have "pending si = frame_of m2 @ []" "pending sr = frame_of m1 @ frame_of m3 @ []"
      using fi fr by (simp_all add: fresh_stream_def)
    with con acc obtain txi rxi hsi txr rxr hsr where
      c: "connect_steps lb (credential lb sk hi) vk (new_context i0 si) = (Ok ((ti, txi, rxi), AuthDetails_from hr), hsi)"
        "tx_packet_builder txi = builder_new" "rx_packet_reader rxi = reader_new"
        "hw (tx_write txi) = written si @ frame_of m1 @ frame_of m3" "hp (rx_read rxi) = []"
      and a: "accept_steps lb (credential lb sk hr) vk (new_context r0 sr) = (Ok ((tr, txr, rxr), AuthDetails_from hi), hsr)"
        "tx_packet_builder txr = builder_new" "rx_packet_reader rxr = reader_new"
        "hw (tx_write txr) = written sr @ frame_of m2" "hp (rx_read rxr) = []"
      by meson
    have ar: "ha (rx_read rxi) = frame_of m2" "ha (rx_read rxr) = frame_of m1 @ frame_of m3"
      using connect_steps_arrived [OF l(3) c(1)] accept_steps_arrived [OF l(3) a(1)] fi fr
      by (simp_all add: fresh_stream_def new_context_def)
    have "connected nt sync hw hp ha n n (ti, message_tx_new txi, message_rx_new rxi) (tr, message_tx_new txr, message_rx_new rxr) [] []"
      by (rule halves_connected) (use c a ar fi fr sy in \<open>simp_all add: fresh_stream_def\<close>)
    with connect_of_steps [OF b(1) c(1) time(1)] accept_of_steps [OF b(2) a(1) time(2)] show ?thesis by blast
  qed
  then show thesis by (intro that [of "frame_of m2" "frame_of m1 @ frame_of m3"]) blast
qed

section \<open>An instance of the contracts\<close>

text \<open>A stream is what was read, what has arrived and is still to be read, and what was written.\<close>

type_synonym line = "bytes \<times> bytes \<times> bytes"

definition line_reader :: "line stream_reader" where
  "line_reader =
     \<lparr>sr_read_u16 = (\<lambda>(rd, ar, wr). case ar of
        b0 # b1 # ar \<Rightarrow> (Ok (u16_from_be_bytes b0 b1), rd @ [b0, b1], ar, wr)
      | _ \<Rightarrow> (Err ''eof'', rd, ar, wr)),
      sr_read_exact = (\<lambda>(rd, ar, wr) buf.
        if length buf \<le> length ar
        then (Ok (), take (length buf) ar, rd @ take (length buf) ar, drop (length buf) ar, wr)
        else (Err ''eof'', buf, rd, ar, wr))\<rparr>"

definition line_writer :: "line stream_writer" where
  "line_writer = \<lparr>sw_write_all = (\<lambda>(rd, ar, wr) bs. (Ok (), rd, ar, wr @ bs)), sw_flush = (\<lambda>s. (Ok (), s))\<rparr>"

definition line_pending :: "line \<Rightarrow> bytes" where
  "line_pending = (\<lambda>(rd, ar, wr). ar)"

definition line_written :: "line \<Rightarrow> bytes" where
  "line_written = (\<lambda>(rd, ar, wr). wr)"

definition line_arrived :: "line \<Rightarrow> bytes" where
  "line_arrived = (\<lambda>(rd, ar, wr). rd @ ar)"

definition line_libs where
  "line_libs = \<lparr>lb_noise = plain_xx, lb_reader = line_reader, lb_writer = line_writer, lb_split = (\<lambda>s. (s, s)),
     lb_yatlv = sample_yatlv, lb_ed25519 = sample_ed\<rparr>"

definition line_network :: "(tag_state, line, line) network" where
  "line_network = \<lparr>nt_cipher = tag_cipher, nt_writer = line_writer, nt_reader = line_reader,
     nt_carry = (\<lambda>(_, _, sent) (rd, ar, wr). (rd, ar @ drop (length (rd @ ar)) sent, wr))\<rparr>"

lemmas line_defs = line_reader_def line_writer_def line_pending_def line_written_def line_arrived_def

lemma line_duplex: "duplex_laws line_reader line_writer (\<lambda>s. (s, s)) line_pending line_written line_pending line_written"
  by (auto simp: duplex_laws_def read_laws_def write_laws_def write_live_def line_defs split: list.splits)

lemma line_arrivals: "stream_arrivals line_reader line_writer (\<lambda>s. (s, s)) line_arrived line_arrived"
  by (auto simp: stream_arrivals_def arrival_laws_def line_defs split: list.splits)

lemma line_network_laws: "network_laws line_network tag_sync line_written line_pending line_arrived"
  using line_duplex line_arrivals tag_cipher_laws
  by (auto simp: network_laws_def duplex_laws_def stream_arrivals_def line_network_def line_pending_def line_written_def
      line_arrived_def prefix_def)

lemma line_laws: "session_laws line_libs line_network id plain_pair tag_sync
    line_pending line_written line_arrived line_pending line_written line_arrived"
  using line_network_laws line_duplex line_arrivals by (simp add: session_laws_def line_libs_def plain_xx_laws sample_laws)

lemma line_node: "node_ok line_libs id sample_sk (sample_priv b) (sample_header b)"
  using sample_node [of b] by (simp add: node_ok_def credential_def line_libs_def)

lemma line_key_pair: "key_pair (lb_ed25519 line_libs) sample_sk sample_vk"
  by (simp add: line_libs_def sample_laws)

lemma line_fresh: "fresh_stream line_pending line_written line_arrived ([], bs, []) bs"
  by (simp add: fresh_stream_def line_defs)

section \<open>Sessions\<close>

text \<open>C2: A session is two queues of messages. Two nodes set up by the same operator connect over fresh
  streams; then any sequence of operations of the two applications, in any order and with messages of
  any sizes on their way in both directions at once, gives the replies two first-in first-out queues
  would give. A message sent from a slice or streamed from a source is received with its type and its
  whole payload; a message whose source failed, and which was then abandoned, is received as
  \<open>MessageAborted\<close> in its place, and the messages after it are not affected. A receive that would wait on
  an empty queue is excluded, neither side may seal \<open>2^64\<close> packets, and \<open>sending_ok\<close> excludes the two
  ways of streaming that break the connection.\<close>

theorem session_is_two_queues:
  assumes "session_laws lb nt public pair sync pending written arrived hp hw ha"
    and "key_pair (lb_ed25519 lb) sk vk" "node_ok lb public sk privi hi" "node_ok lb public sk privr hr"
    and "d \<le> HANDSHAKE_TIMEOUT" "d' \<le> HANDSHAKE_TIMEOUT"
    and "mailboxes source [] [] acts = Some (es, f, g)" "\<forall>p. list_all (sending_ok rr source) (sendings p acts)"
    and "budget source Near acts < 2 ^ 64" "budget source Far acts < 2 ^ 64"
  shows "\<exists>towards_i towards_r. \<forall>si sr.
    fresh_stream pending written arrived si towards_i \<longrightarrow> fresh_stream pending written arrived sr towards_r \<longrightarrow>
    (\<exists>a b a' b'. connect lb (Some d) si privi (credential lb sk hi) vk = Ok (a, AuthDetails_from hr)
       \<and> accept lb (Some d') sr privr (credential lb sk hr) vk = Ok (b, AuthDetails_from hi)
       \<and> interact nt rr a b acts = Some (es, a', b'))"
proof -
  let ?n = "max (budget source Near acts) (budget source Far acts)"
  have n: "?n < 2 ^ 64" using assms(9,10) by simp
  from session_connected [OF assms(1-6) n] obtain towards_i towards_r where
    con: "\<forall>si sr. fresh_stream pending written arrived si towards_i \<longrightarrow> fresh_stream pending written arrived sr towards_r \<longrightarrow>
      (\<exists>a b. connect lb (Some d) si privi (credential lb sk hi) vk = Ok (a, AuthDetails_from hr)
         \<and> accept lb (Some d') sr privr (credential lb sk hr) vk = Ok (b, AuthDetails_from hi)
         \<and> connected nt sync hw hp ha ?n ?n a b [] [])" by blast
  have net: "network_laws nt sync hw hp ha" using assms(1) by (simp add: session_laws_def)
  have eqs: "budget source Near acts + (?n - budget source Near acts) = ?n"
    "budget source Far acts + (?n - budget source Far acts) = ?n" by simp_all
  note run = interact_mailboxes [OF net assms(7,8), of "?n - budget source Near acts" "?n - budget source Far acts", unfolded eqs]
  show ?thesis
    by (rule exI [of _ towards_i], rule exI [of _ towards_r]) (use con run in blast)
qed

text \<open>A conversation in both directions at once; the last message of the responder comes from a source
  that fails after 70000 bytes.\<close>

definition sample_acts :: "(party \<times> bytes operation) list" where
  "sample_acts =
     [(Near, Send (Slice 1 [10, 20])), (Far, Send (Slice 2 [])), (Near, Send (Slice 3 [30])), (Far, Receive),
      (Near, Receive), (Far, Send (Stream 4 (replicate 70000 0))), (Far, Receive), (Near, Receive)]"

definition sample_replies :: "(party \<times> reply) list" where
  "sample_replies =
     [(Near, Replied (Ok ())), (Far, Replied (Ok ())), (Near, Replied (Ok ())), (Far, Received (Return (Ok (1, [10, 20])))),
      (Near, Received (Return (Ok (2, [])))), (Far, Replied (Err (Io ''broken''))), (Far, Replied (Ok ())),
      (Far, Received (Return (Ok (3, [30])))), (Near, Received (Return (Err MessageAborted)))]"

theorem session_is_two_queues_witness:
  "\<exists>towards_i towards_r a b a' b'.
      connect line_libs (Some 3) ([], towards_i, []) (sample_priv 1) (credential line_libs sample_sk (sample_header 1)) sample_vk
        = Ok (a, AuthDetails_from (sample_header 2))
    \<and> accept line_libs (Some 4) ([], towards_r, []) (sample_priv 2) (credential line_libs sample_sk (sample_header 2)) sample_vk
        = Ok (b, AuthDetails_from (sample_header 1))
    \<and> interact line_network (list_source 99 (Err ''broken'')) a b sample_acts = Some (sample_replies, a', b')"
proof -
  let ?src = "\<lambda>bs. (bs, Some ''broken'')" and ?rr = "list_source 99 (Err ''broken'')"
  have "\<exists>f g. mailboxes ?src [] [] sample_acts = Some (sample_replies, f, g)"
    by (simp add: sample_acts_def sample_replies_def)
  then obtain f g where m: "mailboxes ?src [] [] sample_acts = Some (sample_replies, f, g)" by blast
  have ok: "\<forall>p. list_all (sending_ok ?rr ?src) (sendings p sample_acts)"
    by (simp add: sample_acts_def TYPE_MASK_def list_source_yields size_defs)
  have full: "length (full_plan (replicate 70000 (0 :: u8))) \<le> 70000"
    by (simp add: full_plan.simps [of "replicate _ _"] size_defs)
  have b: "budget ?src Near sample_acts < 2 ^ 64" "budget ?src Far sample_acts < 2 ^ 64"
    using full by (simp_all add: sample_acts_def one_packet size_defs)
  have "\<exists>towards_i towards_r. \<forall>si sr.
    fresh_stream line_pending line_written line_arrived si towards_i \<longrightarrow> fresh_stream line_pending line_written line_arrived sr towards_r \<longrightarrow>
    (\<exists>a b a' b'. connect line_libs (Some 3) si (sample_priv 1) (credential line_libs sample_sk (sample_header 1)) sample_vk
        = Ok (a, AuthDetails_from (sample_header 2))
       \<and> accept line_libs (Some 4) sr (sample_priv 2) (credential line_libs sample_sk (sample_header 2)) sample_vk
        = Ok (b, AuthDetails_from (sample_header 1))
       \<and> interact line_network ?rr a b sample_acts = Some (sample_replies, a', b'))"
    by (rule session_is_two_queues [OF line_laws line_key_pair line_node line_node _ _ m ok b]) (simp_all add: HANDSHAKE_TIMEOUT_def)
  then show ?thesis using line_fresh by blast
qed

end
