(* ===== verification/Message_Tests.thy ===== *)
theory Message_Tests
  imports Session Packet_Tests
begin

text \<open>
  The asynchronous tests of \<open>src/messages.rs\<close>. A test is a truth value over a network and the two ends
  \<open>make_pair\<close> returns; the tasks a test spawns run one after the other, the sender first, and a read
  waits for what the network brings. The tests pass on every pair of ends that is \<open>connected\<close> and has
  enough nonces left, in particular on those of \<open>make_pair\<close>.
\<close>

section \<open>Vocabulary of the tests\<close>

definition tx_send :: "('t, 'w, 'r) network \<Rightarrow> ('t, 'w, 'r) endpoint \<Rightarrow> u16 \<Rightarrow> bytes
    \<Rightarrow> (unit, ConnectionError) result \<times> ('t, 'w, 'r) endpoint" where
  "tx_send nt a mtype data = on_tx (\<lambda>s. send_message (nt_writer nt) (nt_cipher nt) s mtype data) a"

definition tx_abort :: "('t, 'w, 'r) network \<Rightarrow> ('t, 'w, 'r) endpoint
    \<Rightarrow> (unit, ConnectionError) result \<times> ('t, 'w, 'r) endpoint" where
  "tx_abort nt a = on_tx (message_abort (nt_writer nt) (nt_cipher nt)) a"

text \<open>A call on the field \<open>packets\<close> of the sending half.\<close>

fun on_packets :: "('t \<times> 'w PacketTx \<Rightarrow> 'a \<times> 't \<times> 'w PacketTx) \<Rightarrow> ('t, 'w, 'r) endpoint \<Rightarrow> 'a \<times> ('t, 'w, 'r) endpoint" where
  "on_packets f (t, tx, rx) = (case f (t, mt_packets tx) of (res, t, packets) \<Rightarrow> (res, (t, tx\<lparr>mt_packets := packets\<rparr>, rx)))"

text \<open>\<open>read_message\<close> at \<open>b\<close>, after the network has brought what \<open>a\<close> wrote, and the methods of the message.\<close>

definition rx_message :: "('t, 'w, 'r) network \<Rightarrow> ('t, 'w, 'r) endpoint \<Rightarrow> ('t, 'w, 'r) endpoint
    \<Rightarrow> (Message, ConnectionError) result \<times> ('t, 'w, 'r) endpoint" where
  "rx_message nt a b = on_rx (read_message (nt_reader nt) (nt_cipher nt)) (convey nt a b)"

fun rx_bytes :: "('t, 'w, 'r) network \<Rightarrow> Message \<Rightarrow> ('t, 'w, 'r) endpoint
    \<Rightarrow> ((bytes, ConnectionError) result outcome \<times> ('t, 'w, 'r) endpoint) option" where
  "rx_bytes nt msg (t, tx, rx) =
     (case read_bytes (nt_reader nt) (nt_cipher nt) msg (t, rx) of
        None \<Rightarrow> None
      | Some (res, t, rx) \<Rightarrow> Some (res, (t, tx, rx)))"

fun rx_collect :: "('t, 'w, 'r) network \<Rightarrow> Message \<Rightarrow> ('t, 'w, 'r) endpoint
    \<Rightarrow> ((bytes list, ConnectionError) result outcome \<times> ('t, 'w, 'r) endpoint) option" where
  "rx_collect nt msg (t, tx, rx) =
     (case collect_packets (nt_reader nt) (nt_cipher nt) (into_packets msg) (t, rx) [] of
        None \<Rightarrow> None
      | Some (res, t, rx) \<Rightarrow> Some (res, (t, tx, rx)))"

fun rx_next :: "('t, 'w, 'r) network \<Rightarrow> MessagePackets \<Rightarrow> ('t, 'w, 'r) endpoint
    \<Rightarrow> (bytes option, ConnectionError) result outcome \<times> MessagePackets \<times> ('t, 'w, 'r) endpoint" where
  "rx_next nt pkts (t, tx, rx) =
     (case packets_next (nt_reader nt) (nt_cipher nt) pkts (t, rx) of
        (res, pkts, t, rx) \<Rightarrow> (res, pkts, (t, tx, rx)))"

definition unwrap_io :: "(('a, 'e) result outcome \<times> 's) option \<Rightarrow> ('a \<Rightarrow> 's \<Rightarrow> bool) \<Rightarrow> bool" where
  "unwrap_io r k = (case r of Some (Return (Ok a), s) \<Rightarrow> k a s | _ \<Rightarrow> False)"

definition unwrap_io_err :: "(('a, 'e) result outcome \<times> 's) option \<Rightarrow> ('e \<Rightarrow> 's \<Rightarrow> bool) \<Rightarrow> bool" where
  "unwrap_io_err r k = (case r of Some (Return (Err e), s) \<Rightarrow> k e s | _ \<Rightarrow> False)"

lemma unwrap_simps [simp]:
  "unwrap (Ok a, s) k = k a s" "unwrap_io (Some (Return (Ok b), s')) k' = k' b s'"
  "unwrap_io_err (Some (Return (Err e), s'')) k'' = k'' e s''"
  by (simp_all add: unwrap_def unwrap_io_def unwrap_io_err_def)

section \<open>The fixture\<close>

text \<open>The payloads: \<open>serde_json\<close> is the pair of parameters \<open>encode\<close> and \<open>decode\<close>.\<close>

record Msg =
  msg_id :: u32
  msg_text :: string

definition make_pair where
  "make_pair lb took cluster_kp server_tp client_tp server_stream client_stream =
     (let server_auth = auth_sign (lb_yatlv lb) (lb_ed25519 lb)
            (AuthHeader_new (NodeId_from_u64 1) None (tk_public server_tp)) (sgk_private cluster_kp);
          client_auth = auth_sign (lb_yatlv lb) (lb_ed25519 lb)
            (AuthHeader_new (NodeId_from_u64 2) None (tk_public client_tp)) (sgk_private cluster_kp)
      in case accept lb took server_stream (tk_private server_tp) server_auth (sgk_public cluster_kp) of
           Err e \<Rightarrow> None
         | Ok (server, _) \<Rightarrow>
             (case connect lb took client_stream (tk_private client_tp) client_auth (sgk_public cluster_kp) of
                Err e \<Rightarrow> None
              | Ok (client, _) \<Rightarrow> Some (server, client)))"

section \<open>The tests\<close>

definition send_and_read_bytes_round_trip where
  "send_and_read_bytes_round_trip nt encode decode server client =
     (let sent = \<lparr>msg_id = 1, msg_text = ''hello''\<rparr> in
      unwrap (tx_send nt client 7 (encode sent)) (\<lambda>_ client.
      unwrap (rx_message nt client server) (\<lambda>msg server.
        msg_type msg = 7
      \<and> unwrap_io (rx_bytes nt msg server) (\<lambda>bytes server. decode bytes = sent))))"

definition msg_type_is_twelve_bits where
  "msg_type_is_twelve_bits nt server client =
     unwrap (tx_send nt client 0x0FFF []) (\<lambda>_ client.
     unwrap (rx_message nt client server) (\<lambda>msg server. msg_type msg = 0x0FFF))"

text \<open>\<open>format!("msg-{i}")\<close>, for the digits of the test.\<close>

definition msg_name :: "u16 \<Rightarrow> string" where
  "msg_name i = ''msg-'' @ [char_of (48 + unat i)]"

fun sequential_messages where
  "sequential_messages nt encode decode [] server client = True"
| "sequential_messages nt encode decode (i # is) server client =
     (let sent = \<lparr>msg_id = ucast i, msg_text = msg_name i\<rparr> in
      unwrap (tx_send nt client i (encode sent)) (\<lambda>_ client.
      unwrap (rx_message nt client server) (\<lambda>msg server.
        msg_type msg = i
      \<and> unwrap_io (rx_bytes nt msg server) (\<lambda>bytes server.
          decode bytes = sent \<and> sequential_messages nt encode decode is server client))))"

definition multiple_sequential_messages where
  "multiple_sequential_messages nt encode decode server client =
     sequential_messages nt encode decode [0, 1, 2, 3, 4] server client"

definition bidirectional where
  "bidirectional nt encode decode server client =
     unwrap (tx_send nt client 1 (encode \<lparr>msg_id = 10, msg_text = ''ping''\<rparr>)) (\<lambda>_ client.
     unwrap (rx_message nt client server) (\<lambda>msg server.
     unwrap_io (rx_bytes nt msg server) (\<lambda>bytes server.
       msg_id (decode bytes) = 10
     \<and> unwrap (tx_send nt server 2 (encode \<lparr>msg_id = 20, msg_text = ''pong''\<rparr>)) (\<lambda>_ server.
       unwrap (rx_message nt server client) (\<lambda>msg client.
       unwrap_io (rx_bytes nt msg client) (\<lambda>bytes client. msg_id (decode bytes) = 20))))))"

definition large_message_round_trip where
  "large_message_round_trip nt encode decode server client =
     (let sent = \<lparr>msg_id = 99, msg_text = replicate (MAX_PACKET_SIZE * 3) CHR ''x''\<rparr> in
      unwrap (tx_send nt client 3 (encode sent)) (\<lambda>_ client.
      unwrap (rx_message nt client server) (\<lambda>msg server.
      unwrap_io (rx_bytes nt msg server) (\<lambda>bytes server. decode bytes = sent))))"

definition into_packets_concatenates_to_original_payload where
  "into_packets_concatenates_to_original_payload nt encode server client =
     (let pl = encode \<lparr>msg_id = 5, msg_text = ''chunks''\<rparr> in
      unwrap (tx_send nt client 4 pl) (\<lambda>_ client.
      unwrap (rx_message nt client server) (\<lambda>msg server.
      unwrap_io (rx_collect nt msg server) (\<lambda>chunks server. concat chunks = pl))))"

text \<open>The \<open>Cursor\<close> is a source with the reading function \<open>rr\<close>.\<close>

definition send_reader_and_read_bytes where
  "send_reader_and_read_bytes nt rr cursor encode decode server client =
     (let msg = \<lparr>msg_id = 42, msg_text = ''via reader''\<rparr> in
      case client of (t, tx, rx) \<Rightarrow>
        (case message_send_reader (nt_writer nt) (nt_cipher nt) rr (t, tx) 6 (cursor (encode msg)) of
           Some ((Ok _, t, tx), _) \<Rightarrow>
             unwrap (rx_message nt (t, tx, rx) server) (\<lambda>received server.
             unwrap_io (rx_bytes nt received server) (\<lambda>bytes server. decode bytes = msg))
         | _ \<Rightarrow> False))"

text \<open>What the sender of the two abort tests does first: the first packet of a message, then the abort.\<close>

definition start_and_abort where
  "start_and_abort nt mtype client k =
     (let large = replicate (MAX_PACKET_SIZE * 2) 0 in
      unwrap (on_packets (\<lambda>s. prepare_message s mtype) client) (\<lambda>_ client.
      unwrap (on_packets (\<lambda>s. send_slice (nt_writer nt) (nt_cipher nt) s (take MAX_PACKET_SIZE large) False) client) (\<lambda>_ client.
      unwrap (tx_abort nt client) (\<lambda>_ client. k client))))"

definition abort_mid_stream_returns_message_aborted where
  "abort_mid_stream_returns_message_aborted nt server client =
     start_and_abort nt 9 client (\<lambda>client.
     unwrap (tx_send nt client 10 (ascii ''after abort'')) (\<lambda>_ client.
     unwrap (rx_message nt client server) (\<lambda>msg server.
       msg_type msg = 9
     \<and> (case rx_next nt (into_packets msg) server of
          (Return (Ok (Some _)), pkts, server) \<Rightarrow>
            (case rx_next nt pkts server of
               (Return (Err MessageAborted), pkts, server) \<Rightarrow>
                 unwrap (rx_message nt client server) (\<lambda>clean server.
                   msg_type clean = 10
                 \<and> unwrap_io (rx_bytes nt clean server) (\<lambda>bytes server. bytes = ascii ''after abort''))
             | _ \<Rightarrow> False)
        | _ \<Rightarrow> False))))"

definition abort_read_bytes_returns_message_aborted where
  "abort_read_bytes_returns_message_aborted nt server client =
     start_and_abort nt 11 client (\<lambda>client.
     unwrap (tx_send nt client 12 (ascii ''clean'')) (\<lambda>_ client.
     unwrap (rx_message nt client server) (\<lambda>msg server.
       msg_type msg = 11
     \<and> unwrap_io_err (rx_bytes nt msg server) (\<lambda>err server.
         err = MessageAborted
       \<and> unwrap (rx_message nt client server) (\<lambda>clean server.
           msg_type clean = 12
         \<and> unwrap_io (rx_bytes nt clean server) (\<lambda>bytes server. bytes = ascii ''clean''))))))"

definition abort_no_op_when_not_in_progress where
  "abort_no_op_when_not_in_progress nt server client =
     unwrap (tx_abort nt client) (\<lambda>_ client.
     unwrap (tx_send nt client 1 (ascii ''hello'')) (\<lambda>_ client.
     unwrap (rx_message nt client server) (\<lambda>msg server.
       msg_type msg = 1
     \<and> unwrap_io (rx_bytes nt msg server) (\<lambda>bytes server. bytes = ascii ''hello''))))"

definition halves_work_in_separate_tasks where
  "halves_work_in_separate_tasks nt encode decode server client =
     unwrap (tx_send nt client 5 (encode \<lparr>msg_id = 1, msg_text = ''a''\<rparr>)) (\<lambda>_ client.
     unwrap (rx_message nt client server) (\<lambda>msg server.
       msg_type msg = 5
     \<and> unwrap_io (rx_bytes nt msg server) (\<lambda>bytes server.
         msg_id (decode bytes) = 1
       \<and> unwrap (tx_send nt server 6 (encode \<lparr>msg_id = 2, msg_text = ''b''\<rparr>)) (\<lambda>_ server.
         unwrap (rx_message nt server client) (\<lambda>msg client.
         unwrap_io (rx_bytes nt msg client) (\<lambda>bytes client. msg_id (decode bytes) = 2))))))"

section \<open>The steps of a test\<close>

lemma tx_send_ok:
  assumes "network_laws nt sync written pending arrived"
    "connected nt sync written pending arrived (length (packets_of t data) + n) m a b q p" "t \<le> TYPE_MASK"
  shows "\<exists>a'. tx_send nt a t data = (Ok (), a') \<and> connected nt sync written pending arrived n m a' b (q @ [Whole t data]) p"
proof -
  obtain ta txa rxa where a: "a = (ta, txa, rxa)" by (cases a)
  from perform_send [OF assms(1), of "undefined :: unit source_reader" "\<lambda>_. ([], None)" "Slice t data" n m a b q p] assms(2,3)
  show ?thesis by (auto simp: a tx_send_def split: prod.splits)
qed

lemma receive_Ok_cases:
  assumes "receive sr tp s = Some (Return (Ok (t, data)), s')"
  obtains msg s1 where "read_message sr tp s = (Ok msg, s1)" "msg_type msg = t" "read_bytes sr tp msg s1 = Some (Return (Ok data), s')"
  using assms by (auto simp: receive_def split: prod.splits result.splits option.splits outcome.splits)

lemma rx_message_ok:
  assumes laws: "network_laws nt sync written pending arrived"
    and fl: "connected nt sync written pending arrived n m a b (Whole t data # q) p"
  shows "\<exists>msg b1 b2. rx_message nt a b = (Ok msg, b1) \<and> msg_type msg = t \<and> rx_bytes nt msg b1 = Some (Return (Ok data), b2)
    \<and> connected nt sync written pending arrived n m a b2 q p"
proof -
  obtain tb txb rxb where c: "convey nt a b = (tb, txb, rxb)" by (cases "convey nt a b")
  from receive_flies [OF laws, of n m a tb txb rxb "Whole t data" q p] convey_flies [OF laws fl] obtain tb' rxb' where
    r: "receive (nt_reader nt) (nt_cipher nt) (tb, rxb) = Some (Return (Ok (t, data)), tb', rxb')"
    and done_: "connected nt sync written pending arrived n m a (tb', txb, rxb') q p" by (auto simp: c)
  obtain msg s1 where "read_message (nt_reader nt) (nt_cipher nt) (tb, rxb) = (Ok msg, s1)" "msg_type msg = t"
    "read_bytes (nt_reader nt) (nt_cipher nt) msg s1 = Some (Return (Ok data), tb', rxb')"
    using receive_Ok_cases [OF r] .
  with done_ show ?thesis
    by (intro exI [of _ msg] exI [of _ "(fst s1, txb, snd s1)"] exI [of _ "(tb', txb, rxb')"])
      (simp add: rx_message_def c split: prod.splits)
qed

lemma exchange_ok:
  assumes laws: "network_laws nt sync written pending arrived"
    and fl: "connected nt sync written pending arrived (length (packets_of t data) + n) m a b [] p" and "t \<le> TYPE_MASK"
  obtains a' msg b1 b2 where "tx_send nt a t data = (Ok (), a')" "rx_message nt a' b = (Ok msg, b1)" "msg_type msg = t"
    "rx_bytes nt msg b1 = Some (Return (Ok data), b2)" "connected nt sync written pending arrived n m a' b2 [] p"
proof -
  from tx_send_ok [OF assms] obtain a' where
    a': "tx_send nt a t data = (Ok (), a')" "connected nt sync written pending arrived n m a' b [Whole t data] p" by auto
  from rx_message_ok [OF laws a'(2)] a'(1) that show thesis by blast
qed

text \<open>The abort tests.\<close>

abbreviation full_packet :: bytes where
  "full_packet \<equiv> replicate MAX_PACKET_SIZE 0"

lemma full_packet_plan: "full_plan full_packet = [(full_packet, False)]" "slice_plan full_packet False = [(full_packet, False)]"
proof -
  have "full_plan (drop MAX_PACKET_SIZE full_packet) = []" by (simp add: full_plan_short)
  then show "full_plan full_packet = [(full_packet, False)]" by (subst full_plan.simps) simp
  show "slice_plan full_packet False = [(full_packet, False)]"
    by (simp add: slice_plan_def chunks_step)
qed

lemma full_packet_letter: "letter_packets (Abandoned t full_packet) = [(hdr t First, full_packet), (hdr t Abort, [])]"
  using plan_packets_open [of t full_packet "[]"] by (simp add: full_packet_plan)

lemma start_and_abort_ok:
  assumes laws: "network_laws nt sync written pending arrived"
    and fl: "connected nt sync written pending arrived (Suc (Suc n)) m a b q p" and t: "t \<le> TYPE_MASK"
    and k: "\<And>a'. connected nt sync written pending arrived n m a' b (q @ [Abandoned t full_packet]) p \<Longrightarrow> k a'"
  shows "start_and_abort nt t a k"
proof -
  note nl = network_lawsD [OF laws]
  let ?l = "Abandoned t full_packet" and ?plan = "[(full_packet, False)]"
  obtain ta tx rx where a: "a = (ta, tx, rx)" by (cases a)
  have "connected nt sync written pending arrived (length (letter_packets ?l) + n) m (ta, tx, rx) b q p"
    using fl by (simp add: full_packet_letter a del: letter_packets.simps)
  from connected_ready [OF this] obtain pr tr0 where
    ready: "sync (length (letter_packets ?l) + n) ta tr0" "in_step (tx_builder tx) pr" "builder_opened (tx_builder tx) = None"
    and goes: "\<forall>s' pr'. posted (nt_cipher nt) sync written n (ta, mt_packets tx) pr (letter_packets ?l) (tx_half s') pr' \<longrightarrow>
         in_step (tx_builder (snd s')) pr' \<longrightarrow> builder_opened (tx_builder (snd s')) = None \<longrightarrow>
         (\<forall>k u. sync k u ta \<longrightarrow> sync k u (fst s')) \<longrightarrow>
         connected nt sync written pending arrived n m (fst s', snd s', rx) b (q @ [?l]) p" by auto
  have plan: "?plan = map (\<lambda>c. (c, False)) [full_packet]" "room_for ?plan" "sync (length ?plan + Suc n) ta tr0"
    using ready(1) by (simp_all add: room_for_def full_packet_plan)
  from unflagged_plan_posted [OF nl(1-3) plan ready(2,3) t] obtain b1 ts1 pk pr1 where
    pm: "prepare_message (ta, mt_packets tx) t = (Ok (), ta, (mt_packets tx)\<lparr>tx_packet_builder := b1\<rparr>)"
    and sp: "send_plan (nt_writer nt) (nt_cipher nt) (ta, (mt_packets tx)\<lparr>tx_packet_builder := b1\<rparr>) ?plan = (Ok (), ts1, pk)"
    and post: "posted (nt_cipher nt) sync written (Suc n) (ta, mt_packets tx) pr (plan_packets t ?plan) (ts1, pk) pr1"
      "in_step (tx_packet_builder pk) pr1" "builder_opened (tx_packet_builder pk) = Some t" by blast
  let ?tx1 = "tx\<lparr>mt_packets := pk\<rparr>"
  have pkts: "plan_packets t ?plan = (hdr t First, full_packet) # map (Pair (hdr t Mid)) []"
    using plan_packets_open [of t full_packet "[]"] by simp
  obtain s2 pr2 where ab: "message_abort (nt_writer nt) (nt_cipher nt) (ts1, ?tx1) = (Ok (), s2)"
    and done_: "posted (nt_cipher nt) sync written n (ta, mt_packets tx) pr (plan_packets t ?plan @ [(hdr t Abort, [])]) (tx_half s2) pr2"
      "in_step (tx_builder (snd s2)) pr2" "builder_opened (tx_builder (snd s2)) = None"
    using abort_open_posted [OF nl(1-3), where s = "(ta, tx)" and ?s1.0 = "(ts1, ?tx1)" and pkts = "plan_packets t ?plan",
        of n pr pr1 t full_packet "[]" tr0] post pkts plan(3) by auto
  have "sync k u (fst s2)" if "sync k u ta" for k u
    using message_abort_keeps [OF nl(1) _ ab] send_plan_keeps [OF nl(1) _ sp] that by simp
  with goes done_ pkts have "connected nt sync written pending arrived n m (fst s2, snd s2, rx) b (q @ [?l]) p"
    by (simp add: full_packet_letter del: letter_packets.simps)
  from k [OF this] show ?thesis
    using pm sp ab by (cases s2) (simp add: start_and_abort_def a send_slice_plan full_packet_plan tx_abort_def min_def)
qed

text \<open>The reading buffer of the receiving half does not matter to the connection.\<close>

lemma connected_packets:
  "connected nt sync written pending arrived n m a (t, tx, rx) q p \<Longrightarrow> mr_packets rx' = mr_packets rx \<Longrightarrow>
   connected nt sync written pending arrived n m a (t, tx, rx') q p"
  by (simp add: connected_def flying_def)

lemma rx_abandoned_ok:
  assumes laws: "network_laws nt sync written pending arrived"
    and fl: "connected nt sync written pending arrived n m a b (Abandoned t full_packet # q) p"
  obtains msg b1 b2 p1 pkts1 pkts2 b3 where "rx_message nt a b = (Ok msg, b1)" "msg_type msg = t"
    "rx_bytes nt msg b1 = Some (Return (Err MessageAborted), b2)" "connected nt sync written pending arrived n m a b2 q p"
    "rx_next nt (into_packets msg) b1 = (Return (Ok (Some p1)), pkts1, b1)"
    "rx_next nt pkts1 b1 = (Return (Err MessageAborted), pkts2, b3)" "connected nt sync written pending arrived n m a b3 q p"
proof -
  obtain tb txb rxb where c: "convey nt a b = (tb, txb, rxb)" by (cases "convey nt a b")
  let ?l = "Abandoned t full_packet" and ?msg = "\<lparr>first_header = hdr t First\<rparr>"
  from convey_flies [OF laws fl] have fl': "connected nt sync written pending arrived n m a (tb, txb, rxb) (?l # q) p"
    and here: "arrived (rx_read (mr_packets rxb)) = written (tx_write (mt_packets (snd (tx_of a))))" by (simp_all add: c)
  from receive_flies [OF laws fl' here] obtain tb' rxb' where
    rc: "receive (nt_reader nt) (nt_cipher nt) (tb, rxb) = Some (Return (Err MessageAborted), tb', rxb')"
    and con: "connected nt sync written pending arrived n m a (tb', txb, rxb') q p" by auto
  obtain Q pr1 w where "coming (nt_reader nt) pending (nt_cipher nt) Q pr1 w (tb, rxb) (letter_packets ?l)"
    using connected_coming [OF laws fl' here] by metis
  then have "coming (nt_reader nt) pending (nt_cipher nt) Q pr1 w (tb, rxb) ((hdr t First, full_packet) # [(hdr t Abort, [])])"
    by (simp only: full_packet_letter)
  from read_message_coming [OF this] obtain t1 rx1 where
    rm: "read_message (nt_reader nt) (nt_cipher nt) (tb, rxb) = (Ok ?msg, t1, rx1)"
    and c1: "coming (nt_reader nt) pending (nt_cipher nt) Q pr1 w (t1, rx1) [(hdr t Abort, [])]" by auto
  from read_packet_incoming [OF c1] obtain t2 pk where
    rp: "read_packet (nt_reader nt) (nt_cipher nt) (t1, mr_packets rx1) = (Ok (hdr t Abort), t2, pk)" by auto
  have "read_bytes_loop (read_packet (nt_reader nt) (nt_cipher nt)) pl (t1, mr_packets rx1) buf
      = Some (Return (Err MessageAborted), (t2, pk), buf)" for pl buf
    by (subst read_bytes_loop.simps) (simp add: rp)
  with rc rm have rb: "read_bytes (nt_reader nt) (nt_cipher nt) ?msg (t1, rx1) = Some (Return (Err MessageAborted), tb', rxb')"
    and eqs: "tb' = t2" "mr_packets rxb' = pk" by (auto simp: receive_def read_bytes_def Let_def)
  have nx: "rx_next nt (into_packets ?msg) (t1, txb, rx1) = (Return (Ok (Some (payload (mr_packets rx1)))), continuing, (t1, txb, rx1))"
    "rx_next nt continuing (t1, txb, rx1) = (Return (Err MessageAborted), continuing\<lparr>mp_done := True\<rparr>, (t2, txb, rx1\<lparr>mr_packets := pk\<rparr>))"
    by (simp_all add: packets_next_def next_with_def into_packets_def rp)
  show thesis
    by (rule that [OF _ _ _ con nx])
      (use rm rb connected_packets [OF con, of "rx1\<lparr>mr_packets := pk\<rparr>"] eqs in \<open>simp_all add: rx_message_def c msg_type_def\<close>)
qed

section \<open>The tests pass\<close>

text \<open>On ends that are connected, with nothing on its way and enough nonces for the packets of the test.\<close>

lemma send_and_read_bytes_round_trip_passes:
  assumes "network_laws nt sync written pending arrived" "\<forall>msg. decode (encode msg) = msg"
    "connected nt sync written pending arrived (length (packets_of 7 (encode \<lparr>msg_id = 1, msg_text = ''hello''\<rparr>)) + n) m client server [] []"
  shows "send_and_read_bytes_round_trip nt encode decode server client"
  by (rule exchange_ok [OF assms(1,3)])
    (simp_all add: TYPE_MASK_def send_and_read_bytes_round_trip_def assms(2))

lemma msg_type_is_twelve_bits_passes:
  assumes "network_laws nt sync written pending arrived" "connected nt sync written pending arrived (Suc n) m client server [] []"
  shows "msg_type_is_twelve_bits nt server client"
proof -
  have "connected nt sync written pending arrived (length (packets_of 0x0FFF []) + n) m client server [] []"
    using assms(2) by (simp add: one_packet)
  then show ?thesis
    by (rule exchange_ok [OF assms(1)]) (simp_all add: TYPE_MASK_def msg_type_is_twelve_bits_def)
qed

lemma sequential_messages_pass:
  assumes laws: "network_laws nt sync written pending arrived" and dec: "\<forall>msg. decode (encode msg) = msg"
  shows "list_all (\<lambda>i. i \<le> TYPE_MASK) is \<Longrightarrow>
    connected nt sync written pending arrived
      (length (concat (map (\<lambda>i. packets_of i (encode \<lparr>msg_id = ucast i, msg_text = msg_name i\<rparr>)) is)) + n) m client server [] [] \<Longrightarrow>
    sequential_messages nt encode decode is server client"
proof (induction "is" arbitrary: client server)
  case (Cons i "is")
  have "connected nt sync written pending arrived (length (packets_of i (encode \<lparr>msg_id = ucast i, msg_text = msg_name i\<rparr>))
      + (length (concat (map (\<lambda>i. packets_of i (encode \<lparr>msg_id = ucast i, msg_text = msg_name i\<rparr>)) is)) + n)) m client server [] []"
    using Cons.prems(2) by (simp add: add.assoc)
  then show ?case
    by (rule exchange_ok [OF laws]) (use Cons dec in simp_all)
qed simp

lemma multiple_sequential_messages_passes:
  assumes "network_laws nt sync written pending arrived" "\<forall>msg. decode (encode msg) = msg"
    "connected nt sync written pending arrived
      (length (concat (map (\<lambda>i. packets_of i (encode \<lparr>msg_id = ucast i, msg_text = msg_name i\<rparr>)) [0, 1, 2, 3, 4])) + n) m client server [] []"
  shows "multiple_sequential_messages nt encode decode server client"
  unfolding multiple_sequential_messages_def
  by (rule sequential_messages_pass [OF assms(1,2) _ assms(3)]) (simp add: TYPE_MASK_def)

text \<open>A request and its answer, in the two directions.\<close>

lemma answered_ok:
  assumes laws: "network_laws nt sync written pending arrived" and t: "t \<le> TYPE_MASK" "t' \<le> TYPE_MASK"
    and fl: "connected nt sync written pending arrived (length (packets_of t data) + n) (length (packets_of t' data') + m) client server [] []"
  obtains client1 msg server1 server2 server3 msg' client2 client3 where
    "tx_send nt client t data = (Ok (), client1)" "rx_message nt client1 server = (Ok msg, server1)" "msg_type msg = t"
    "rx_bytes nt msg server1 = Some (Return (Ok data), server2)" "tx_send nt server2 t' data' = (Ok (), server3)"
    "rx_message nt server3 client1 = (Ok msg', client2)" "msg_type msg' = t'" "rx_bytes nt msg' client2 = Some (Return (Ok data'), client3)"
    "connected nt sync written pending arrived n m client3 server3 [] []"
proof -
  from exchange_ok [OF laws fl t(1)] obtain client1 msg server1 server2 where
    1: "tx_send nt client t data = (Ok (), client1)" "rx_message nt client1 server = (Ok msg, server1)" "msg_type msg = t"
      "rx_bytes nt msg server1 = Some (Return (Ok data), server2)"
    and con: "connected nt sync written pending arrived n (length (packets_of t' data') + m) client1 server2 [] []" .
  from exchange_ok [OF laws connected_sym [OF con] t(2)] obtain server3 msg' client2 client3 where
    "tx_send nt server2 t' data' = (Ok (), server3)" "rx_message nt server3 client1 = (Ok msg', client2)" "msg_type msg' = t'"
    "rx_bytes nt msg' client2 = Some (Return (Ok data'), client3)"
    "connected nt sync written pending arrived m n server3 client3 [] []" .
  with 1 show thesis by (intro that) (auto intro: connected_sym)
qed

lemma bidirectional_passes:
  assumes "network_laws nt sync written pending arrived" "\<forall>msg. decode (encode msg) = msg"
    "connected nt sync written pending arrived (length (packets_of 1 (encode \<lparr>msg_id = 10, msg_text = ''ping''\<rparr>)) + n)
      (length (packets_of 2 (encode \<lparr>msg_id = 20, msg_text = ''pong''\<rparr>)) + m) client server [] []"
  shows "bidirectional nt encode decode server client"
  by (rule answered_ok [OF assms(1) _ _ assms(3)]) (simp_all add: TYPE_MASK_def bidirectional_def assms(2))

lemma halves_work_in_separate_tasks_passes:
  assumes "network_laws nt sync written pending arrived" "\<forall>msg. decode (encode msg) = msg"
    "connected nt sync written pending arrived (length (packets_of 5 (encode \<lparr>msg_id = 1, msg_text = ''a''\<rparr>)) + n)
      (length (packets_of 6 (encode \<lparr>msg_id = 2, msg_text = ''b''\<rparr>)) + m) client server [] []"
  shows "halves_work_in_separate_tasks nt encode decode server client"
  by (rule answered_ok [OF assms(1) _ _ assms(3)]) (simp_all add: TYPE_MASK_def halves_work_in_separate_tasks_def assms(2))

lemma large_message_round_trip_passes:
  assumes "network_laws nt sync written pending arrived" "\<forall>msg. decode (encode msg) = msg"
    "connected nt sync written pending arrived
      (length (packets_of 3 (encode \<lparr>msg_id = 99, msg_text = replicate (MAX_PACKET_SIZE * 3) CHR ''x''\<rparr>)) + n) m client server [] []"
  shows "large_message_round_trip nt encode decode server client"
  by (rule exchange_ok [OF assms(1,3)]) (simp_all add: TYPE_MASK_def large_message_round_trip_def assms(2))

lemma into_packets_passes:
  assumes laws: "network_laws nt sync written pending arrived"
    and fl: "connected nt sync written pending arrived (length (packets_of 4 (encode \<lparr>msg_id = 5, msg_text = ''chunks''\<rparr>)) + n) m client server [] []"
  shows "into_packets_concatenates_to_original_payload nt encode server client"
proof -
  have collect: "\<exists>chunks b3. rx_collect nt msg b1 = Some (Return (Ok chunks), b3) \<and> concat chunks = data"
    if "rx_bytes nt msg b1 = Some (Return (Ok data), b2)" for msg b1 data b2
  proof -
    obtain t tx rx where b1: "b1 = (t, tx, rx)" by (cases b1)
    from that obtain t' rx' where "read_bytes (nt_reader nt) (nt_cipher nt) msg (t, rx) = Some (Return (Ok data), t', rx')"
      by (auto simp: b1 split: option.splits)
    with read_bytes_collects [of "nt_reader nt" "nt_cipher nt" msg "(t, rx)"] obtain r t2 rx2 where
      "collect_packets (nt_reader nt) (nt_cipher nt) (into_packets msg) (t, rx) [] = Some (r, t2, rx2)" "joined r = Return (Ok data)"
      by (auto simp: option_rel_Some1)
    then show ?thesis by (cases r rule: joined.cases) (auto simp: b1)
  qed
  obtain client1 msg server1 server2 where
    x: "tx_send nt client 4 (encode \<lparr>msg_id = 5, msg_text = ''chunks''\<rparr>) = (Ok (), client1)" "rx_message nt client1 server = (Ok msg, server1)"
    "rx_bytes nt msg server1 = Some (Return (Ok (encode \<lparr>msg_id = 5, msg_text = ''chunks''\<rparr>)), server2)"
    by (rule exchange_ok [OF laws fl]) (simp_all add: TYPE_MASK_def)
  from collect [OF x(3)] x(1,2) show ?thesis
    by (auto simp: into_packets_concatenates_to_original_payload_def)
qed

lemma send_reader_and_read_bytes_passes:
  assumes laws: "network_laws nt sync written pending arrived" and dec: "\<forall>msg. decode (encode msg) = msg"
    and src: "\<forall>bs. delivers rr (cursor bs) bs" "length (encode \<lparr>msg_id = 42, msg_text = ''via reader''\<rparr>) < MAX_PACKET_SIZE"
    and fl: "connected nt sync written pending arrived (length (packets_of 6 (encode \<lparr>msg_id = 42, msg_text = ''via reader''\<rparr>)) + n) m client server [] []"
  shows "send_reader_and_read_bytes nt rr cursor encode decode server client"
proof -
  let ?data = "encode \<lparr>msg_id = 42, msg_text = ''via reader''\<rparr>"
  obtain t tx rx where c: "client = (t, tx, rx)" by (cases client)
  have "?data = [] \<or> \<not> MAX_PACKET_SIZE dvd length ?data" using src(2) by (metis dvd_imp_le length_0_conv not_le neq0_conv)
  with message_send_reader_slice [of rr "cursor ?data" ?data "nt_writer nt" "nt_cipher nt" "(t, tx)" 6] src(1) obtain reader' where
    rd: "message_send_reader (nt_writer nt) (nt_cipher nt) rr (t, tx) 6 (cursor ?data)
      = Some (send_message (nt_writer nt) (nt_cipher nt) (t, tx) 6 ?data, reader')" by blast
  obtain client1 msg server1 server2 where "tx_send nt client 6 ?data = (Ok (), client1)" "rx_message nt client1 server = (Ok msg, server1)"
    "rx_bytes nt msg server1 = Some (Return (Ok ?data), server2)"
    by (rule exchange_ok [OF laws fl]) (simp_all add: TYPE_MASK_def)
  then show ?thesis
    by (auto simp: send_reader_and_read_bytes_def c rd tx_send_def dec split: prod.splits)
qed

text \<open>The tests that abort: the message started is received as aborted, in either way of reading it, and the
  next one as it was sent.\<close>

lemma abandoned_then_message:
  assumes laws: "network_laws nt sync written pending arrived"
    and con: "connected nt sync written pending arrived (Suc n) m a b [Abandoned t0 full_packet] []"
    and d: "length data \<le> MAX_PACKET_SIZE" "t \<le> TYPE_MASK"
  obtains a' msg b1 b2 p1 pkts1 pkts2 b3 clean2 c2 d2 clean3 c3 d3 where
    "tx_send nt a t data = (Ok (), a')" "rx_message nt a' b = (Ok msg, b1)" "msg_type msg = t0"
    "rx_bytes nt msg b1 = Some (Return (Err MessageAborted), b2)"
    "rx_message nt a' b2 = (Ok clean2, c2)" "msg_type clean2 = t" "rx_bytes nt clean2 c2 = Some (Return (Ok data), d2)"
    "rx_next nt (into_packets msg) b1 = (Return (Ok (Some p1)), pkts1, b1)"
    "rx_next nt pkts1 b1 = (Return (Err MessageAborted), pkts2, b3)"
    "rx_message nt a' b3 = (Ok clean3, c3)" "msg_type clean3 = t" "rx_bytes nt clean3 c3 = Some (Return (Ok data), d3)"
proof -
  have "connected nt sync written pending arrived (length (packets_of t data) + n) m a b [Abandoned t0 full_packet] []"
    using con d by (simp add: one_packet)
  from tx_send_ok [OF laws this d(2)] obtain a' where a': "tx_send nt a t data = (Ok (), a')"
    "connected nt sync written pending arrived n m a' b [Abandoned t0 full_packet, Whole t data] []" by auto
  show thesis
  proof (rule rx_abandoned_ok [OF laws a'(2)])
    fix msg b1 b2 p1 pkts1 pkts2 b3
    assume r: "rx_message nt a' b = (Ok msg, b1)" "msg_type msg = t0" "rx_bytes nt msg b1 = Some (Return (Err MessageAborted), b2)"
      "rx_next nt (into_packets msg) b1 = (Return (Ok (Some p1)), pkts1, b1)"
      "rx_next nt pkts1 b1 = (Return (Err MessageAborted), pkts2, b3)"
      and c: "connected nt sync written pending arrived n m a' b2 [Whole t data] []"
        "connected nt sync written pending arrived n m a' b3 [Whole t data] []"
    from rx_message_ok [OF laws c(1)] rx_message_ok [OF laws c(2)] a'(1) r show thesis using that by blast
  qed
qed

lemma abort_mid_stream_passes:
  assumes laws: "network_laws nt sync written pending arrived"
    and fl: "connected nt sync written pending arrived (Suc (Suc (Suc n))) m client server [] []"
  shows "abort_mid_stream_returns_message_aborted nt server client"
  unfolding abort_mid_stream_returns_message_aborted_def
  by (rule start_and_abort_ok [OF laws fl], simp add: TYPE_MASK_def, unfold append_Nil,
      erule abandoned_then_message [OF laws, where data = "ascii ''after abort''" and t = 10])
    (simp_all add: ascii_def size_defs TYPE_MASK_def)

lemma abort_read_bytes_passes:
  assumes laws: "network_laws nt sync written pending arrived"
    and fl: "connected nt sync written pending arrived (Suc (Suc (Suc n))) m client server [] []"
  shows "abort_read_bytes_returns_message_aborted nt server client"
  unfolding abort_read_bytes_returns_message_aborted_def
  by (rule start_and_abort_ok [OF laws fl], simp add: TYPE_MASK_def, unfold append_Nil,
      erule abandoned_then_message [OF laws, where data = "ascii ''clean''" and t = 12])
    (simp_all add: ascii_def size_defs TYPE_MASK_def)

lemma abort_no_op_passes:
  assumes laws: "network_laws nt sync written pending arrived"
    and fl: "connected nt sync written pending arrived (Suc n) m client server [] []"
  shows "abort_no_op_when_not_in_progress nt server client"
proof -
  obtain t tx rx where c: "client = (t, tx, rx)" by (cases client)
  have "builder_opened (tx_builder tx) = None" using fl by (auto simp: connected_def flying_def Let_def c)
  then have ab: "tx_abort nt client = (Ok (), client)"
    by (simp add: tx_abort_def c message_abort_def abort_message_def abort_def builder_opened_def split: if_splits)
  have "connected nt sync written pending arrived (length (packets_of 1 (ascii ''hello'')) + n) m client server [] []"
    using fl by (simp add: one_packet ascii_def size_defs)
  then show ?thesis
    by (rule exchange_ok [OF laws]) (simp_all add: TYPE_MASK_def abort_no_op_when_not_in_progress_def ab)
qed

section \<open>The fixture connects\<close>

lemma make_pair_connected:
  assumes "session_laws lb nt public pair sync pending written arrived hp hw ha"
    and "key_pair (lb_ed25519 lb) (sgk_private cluster_kp) (sgk_public cluster_kp)"
    and "node_ok lb public (sgk_private cluster_kp) (tk_private client_tp) (AuthHeader_new (NodeId_from_u64 2) None (tk_public client_tp))"
    and "node_ok lb public (sgk_private cluster_kp) (tk_private server_tp) (AuthHeader_new (NodeId_from_u64 1) None (tk_public server_tp))"
    and "d \<le> HANDSHAKE_TIMEOUT" "n < 2 ^ 64"
  obtains towards_client towards_server where
    "\<forall>server_stream client_stream. fresh_stream pending written arrived client_stream towards_client \<longrightarrow>
      fresh_stream pending written arrived server_stream towards_server \<longrightarrow>
      (\<exists>server client. make_pair lb (Some d) cluster_kp server_tp client_tp server_stream client_stream = Some (server, client)
         \<and> connected nt sync hw hp ha n n client server [] [])"
proof (rule session_connected [OF assms(1-5,5,6)])
  fix towards_client towards_server
  assume "\<forall>si sr. fresh_stream pending written arrived si towards_client \<longrightarrow> fresh_stream pending written arrived sr towards_server \<longrightarrow>
      (\<exists>a b. connect lb (Some d) si (tk_private client_tp)
            (credential lb (sgk_private cluster_kp) (AuthHeader_new (NodeId_from_u64 2) None (tk_public client_tp))) (sgk_public cluster_kp)
            = Ok (a, AuthDetails_from (AuthHeader_new (NodeId_from_u64 1) None (tk_public server_tp)))
         \<and> accept lb (Some d) sr (tk_private server_tp)
            (credential lb (sgk_private cluster_kp) (AuthHeader_new (NodeId_from_u64 1) None (tk_public server_tp))) (sgk_public cluster_kp)
            = Ok (b, AuthDetails_from (AuthHeader_new (NodeId_from_u64 2) None (tk_public client_tp)))
         \<and> connected nt sync hw hp ha n n a b [] [])"
  then show thesis
    by (intro that [of towards_client towards_server] allI impI) (fastforce simp: make_pair_def credential_def Let_def)
qed

end
