(* ===== verification/Transport_Tests.thy ===== *)
theory Transport_Tests
  imports Message_Tests
begin

text \<open>
  The asynchronous tests of \<open>src/packets.rs\<close>, on the halves \<open>connect_pair\<close> returns: the handshake, its
  rejections, and packets in both directions. They pass on every pair of ends that is \<open>connected\<close>; the
  rejections are runs of the two sides up to the point where \<open>connect\<close> refuses the server.
\<close>

section \<open>The fixture\<close>

record NodeFixture =
  nf_node_id :: NodeId
  nf_transport :: TransportKeypair
  nf_auth_header :: SignedAuthHeader

text \<open>\<open>TransportKeypair::generate\<close> draws the key pair \<open>transport\<close>.\<close>

definition NodeFixture_new where
  "NodeFixture_new lb node_id cluster_kp transport =
     \<lparr>nf_node_id = NodeId_from_u64 node_id, nf_transport = transport,
      nf_auth_header = auth_sign (lb_yatlv lb) (lb_ed25519 lb)
        (AuthHeader_new (NodeId_from_u64 node_id) None (tk_public transport)) (sgk_private cluster_kp)\<rparr>"

definition connect_pair where
  "connect_pair lb took server client verification_key server_stream client_stream =
     (case (packets_accept lb took server_stream (tk_private (nf_transport server)) (nf_auth_header server) verification_key,
            packets_connect lb took client_stream (tk_private (nf_transport client)) (nf_auth_header client) verification_key) of
        (Ok (server, auth_details), Ok (client, _)) \<Rightarrow> Some ((server, ad_node_id auth_details), client)
      | _ \<Rightarrow> None)"

text \<open>Calls on the packet halves of an end, and the network between them.\<close>

type_synonym ('t, 'w, 'r) packet_end = "'t \<times> 'w PacketTx \<times> 'r PacketRx"

fun on_ptx :: "('t \<times> 'w PacketTx \<Rightarrow> 'a \<times> 't \<times> 'w PacketTx) \<Rightarrow> ('t, 'w, 'r) packet_end \<Rightarrow> 'a \<times> ('t, 'w, 'r) packet_end" where
  "on_ptx f (t, tx, rx) = (case f (t, tx) of (res, t, tx) \<Rightarrow> (res, (t, tx, rx)))"

fun on_prx :: "('t \<times> 'r PacketRx \<Rightarrow> 'a \<times> 't \<times> 'r PacketRx) \<Rightarrow> ('t, 'w, 'r) packet_end \<Rightarrow> 'a \<times> ('t, 'w, 'r) packet_end" where
  "on_prx f (t, tx, rx) = (case f (t, rx) of (res, t, rx) \<Rightarrow> (res, (t, tx, rx)))"

fun packet_convey :: "('t, 'w, 'r) network \<Rightarrow> ('t, 'w, 'r) packet_end \<Rightarrow> ('t, 'w, 'r) packet_end \<Rightarrow> ('t, 'w, 'r) packet_end" where
  "packet_convey nt (ta, txa, rxa) (tb, txb, rxb) = (tb, txb, rxb\<lparr>rx_read := nt_carry nt (tx_write txa) (rx_read rxb)\<rparr>)"

definition ptx_prepare where
  "ptx_prepare a mtype = on_ptx (\<lambda>s. prepare_message s mtype) a"

definition ptx_slice where
  "ptx_slice nt a data l = on_ptx (\<lambda>s. send_slice (nt_writer nt) (nt_cipher nt) s data l) a"

definition prx_packet where
  "prx_packet nt a b = on_prx (read_packet (nt_reader nt) (nt_cipher nt)) (packet_convey nt a b)"

fun prx_payload :: "('t, 'w, 'r) packet_end \<Rightarrow> bytes" where
  "prx_payload (t, tx, rx) = payload rx"

section \<open>The tests\<close>

definition handshake_completes_test where
  "handshake_completes_test lb took cluster_kp server_tp client_tp server_stream client_stream =
     (let server = NodeFixture_new lb 1 cluster_kp server_tp; client = NodeFixture_new lb 2 cluster_kp client_tp in
      connect_pair lb took server client (sgk_public cluster_kp) server_stream client_stream \<noteq> None)"

definition accept_returns_correct_remote_node_id where
  "accept_returns_correct_remote_node_id lb took cluster_kp server_tp client_tp server_stream client_stream =
     (let server = NodeFixture_new lb 1 cluster_kp server_tp; client = NodeFixture_new lb 2 cluster_kp client_tp;
          expected_client_id = nf_node_id client
      in case connect_pair lb took server client (sgk_public cluster_kp) server_stream client_stream of
           Some ((_, remote_node_id), _) \<Rightarrow> remote_node_id = expected_client_id
         | None \<Rightarrow> False)"

text \<open>The rejections: what matters is the result of \<open>connect\<close>.\<close>

definition connect_rejects_auth_header_signed_with_wrong_key where
  "connect_rejects_auth_header_signed_with_wrong_key lb took cluster_kp rogue_kp server_transport client_tp server_stream client_stream =
     (let server_auth = auth_sign (lb_yatlv lb) (lb_ed25519 lb)
            (AuthHeader_new (NodeId_from_u32 1) None (tk_public server_transport)) (sgk_private rogue_kp);
          client = NodeFixture_new lb 2 cluster_kp client_tp
      in case (packets_accept lb took server_stream (tk_private server_transport) server_auth (sgk_public cluster_kp),
               packets_connect lb took client_stream (tk_private (nf_transport client)) (nf_auth_header client) (sgk_public cluster_kp)) of
           (_, Err (BadAuthErr _)) \<Rightarrow> True
         | _ \<Rightarrow> False)"

definition connect_rejects_static_key_mismatch where
  "connect_rejects_static_key_mismatch lb took cluster_kp declared_transport actual_transport client_tp server_stream client_stream =
     (let server_auth = auth_sign (lb_yatlv lb) (lb_ed25519 lb)
            (AuthHeader_new (NodeId_from_u32 1) None (tk_public declared_transport)) (sgk_private cluster_kp);
          client = NodeFixture_new lb 2 cluster_kp client_tp
      in case (packets_accept lb took server_stream (tk_private actual_transport) server_auth (sgk_public cluster_kp),
               packets_connect lb took client_stream (tk_private (nf_transport client)) (nf_auth_header client) (sgk_public cluster_kp)) of
           (_, Err (BadAuthErr (PublicKeyMismatch _ _))) \<Rightarrow> True
         | _ \<Rightarrow> False)"

definition roundtrip_small_payload where
  "roundtrip_small_payload nt server client =
     unwrap (ptx_prepare client 1) (\<lambda>_ client.
     unwrap (ptx_slice nt client (ascii ''hello world'') True) (\<lambda>_ client.
     unwrap (prx_packet nt client server) (\<lambda>header server.
       ph_kind header = Sole \<and> ph_msg_type header = 1 \<and> prx_payload server = ascii ''hello world'')))"

definition roundtrip_empty_payload where
  "roundtrip_empty_payload nt server client =
     unwrap (ptx_prepare client 0) (\<lambda>_ client.
     unwrap (ptx_slice nt client [] True) (\<lambda>_ client.
     unwrap (prx_packet nt client server) (\<lambda>header server. ph_kind header = Sole \<and> prx_payload server = [])))"

text \<open>The loop of the receiving task: the number of packets and the payload, or a failed assertion.\<close>

partial_function (option) read_chunks :: "('s \<Rightarrow> (PacketHeader, ConnectionError) result \<times> 's) \<Rightarrow> ('s \<Rightarrow> bytes) \<Rightarrow> 's
    \<Rightarrow> nat \<Rightarrow> bytes \<Rightarrow> (nat \<times> bytes) option option" where
  "read_chunks rp pl s packet_count received =
     (case rp s of
        (Err e, s) \<Rightarrow> Some None
      | (Ok header, s) \<Rightarrow>
          (if (packet_count = 0) = (ph_kind header = First)
           then (if ph_kind header = Last then Some (Some (packet_count + 1, received @ pl s))
                 else read_chunks rp pl s (packet_count + 1) (received @ pl s))
           else Some None))"

text \<open>\<open>(0u8..=255).cycle().take(n)\<close>.\<close>

definition cycle_bytes :: "nat \<Rightarrow> bytes" where
  "cycle_bytes n = map of_nat [0..<n]"

definition roundtrip_large_payload_chunks_correctly where
  "roundtrip_large_payload_chunks_correctly nt server client =
     (let data = cycle_bytes (MAX_PACKET_SIZE * 3 + 100) in
      unwrap (ptx_prepare client 2) (\<lambda>_ client.
      unwrap (ptx_slice nt client data True) (\<lambda>_ client.
      case packet_convey nt client server of
        (t, tx, rx) \<Rightarrow>
          (case read_chunks (read_packet (nt_reader nt) (nt_cipher nt)) (\<lambda>s. payload (snd s)) (t, rx) 0 [] of
             Some (Some (packet_count, received)) \<Rightarrow> packet_count = 4 \<and> received = data
           | _ \<Rightarrow> False))))"

definition bidirectional_roundtrip where
  "bidirectional_roundtrip nt server client =
     unwrap (ptx_prepare client 1) (\<lambda>_ client.
     unwrap (ptx_slice nt client (ascii ''ping'') True) (\<lambda>_ client.
     unwrap (prx_packet nt client server) (\<lambda>_ server.
       prx_payload server = ascii ''ping''
     \<and> unwrap (ptx_prepare server 2) (\<lambda>_ server.
       unwrap (ptx_slice nt server (ascii ''pong'') True) (\<lambda>_ server.
       unwrap (prx_packet nt server client) (\<lambda>_ client. prx_payload client = ascii ''pong''))))))"

fun packet_messages :: "('t, 'w, 'r) network \<Rightarrow> u8 list \<Rightarrow> ('t, 'w, 'r) packet_end \<Rightarrow> ('t, 'w, 'r) packet_end \<Rightarrow> bool" where
  "packet_messages nt [] server client = True"
| "packet_messages nt (i # is) server client =
     unwrap (ptx_prepare client (ucast i)) (\<lambda>_ client.
       let pl = replicate 64 i in
       unwrap (ptx_slice nt client pl True) (\<lambda>_ client.
       unwrap (prx_packet nt client server) (\<lambda>header server.
         ph_msg_type header = ucast i \<and> prx_payload server = pl \<and> packet_messages nt is server client)))"

definition packets_multiple_sequential_messages where
  "packets_multiple_sequential_messages nt server client = packet_messages nt [0, 1, 2, 3, 4] server client"

section \<open>The steps of a test\<close>

text \<open>The packet halves, as the message layer wraps them.\<close>

fun as_messages :: "('t, 'w, 'r) packet_end \<Rightarrow> ('t, 'w, 'r) endpoint" where
  "as_messages (t, tx, rx) = (t, message_tx_new tx, message_rx_new rx)"

lemma convey_as_messages: "convey nt (as_messages a) (as_messages b) = as_messages (packet_convey nt a b)"
  by (cases a; cases b) (simp add: message_tx_new_def message_rx_new_def)

lemma packets_sent:
  assumes "network_laws nt sync written pending arrived"
    "connected nt sync written pending arrived (length (packets_of t data) + n) m (as_messages a) b q p" "t \<le> TYPE_MASK"
  obtains a1 a2 where "ptx_prepare a t = (Ok (), a1)" "ptx_slice nt a1 data True = (Ok (), a2)"
    "connected nt sync written pending arrived n m (as_messages a2) b (q @ [Whole t data]) p"
proof -
  obtain ta txa rxa where a: "a = (ta, txa, rxa)" by (cases a)
  obtain r t1 tx1 where pm: "prepare_message (ta, txa) t = (r, t1, tx1)" by (metis prod_cases3)
  obtain r2 t2 tx2 where sl: "send_slice (nt_writer nt) (nt_cipher nt) (t1, tx1) data True = (r2, t2, tx2)" by (metis prod_cases3)
  from tx_send_ok [OF assms] obtain a' where
    "tx_send nt (as_messages a) t data = (Ok (), a')" "connected nt sync written pending arrived n m a' b (q @ [Whole t data]) p" by blast
  then have "r = Ok ()" "r2 = Ok ()" "a' = as_messages (t2, tx2, rxa)"
    using pm sl by (cases r; auto simp: a tx_send_def send_message_def message_tx_new_def)+
  with pm sl \<open>connected nt sync written pending arrived n m a' b (q @ [Whole t data]) p\<close> show thesis
    by (intro that [of "(t1, tx1, rxa)" "(t2, tx2, rxa)"]) (simp_all add: a ptx_prepare_def ptx_slice_def)
qed

lemma packet_received:
  assumes laws: "network_laws nt sync written pending arrived" and d: "length data \<le> MAX_PACKET_SIZE"
    and fl: "connected nt sync written pending arrived n m (as_messages a) (as_messages b) (Whole t data # q) p"
  obtains b' where "prx_packet nt a b = (Ok (hdr t Sole), b')" "prx_payload b' = data"
    "connected nt sync written pending arrived n m (as_messages a) (as_messages b') q p"
proof -
  obtain tb txb rxb where c: "packet_convey nt a b = (tb, txb, rxb)" by (cases "packet_convey nt a b")
  from convey_flies [OF laws fl]
  have fl': "connected nt sync written pending arrived n m (as_messages a) (tb, message_tx_new txb, message_rx_new rxb) (Whole t data # q) p"
    and here: "arrived (rx_read (mr_packets (message_rx_new rxb))) = written (tx_write (mt_packets (snd (tx_of (as_messages a)))))"
    by (simp_all add: convey_as_messages c)
  obtain Q pr1 w where "coming (nt_reader nt) pending (nt_cipher nt) Q pr1 w (tb, message_rx_new rxb) (letter_packets (Whole t data))"
    using connected_coming [OF laws fl' here] by metis
  then have "incoming (nt_reader nt) pending (nt_cipher nt) Q pr1 w (tb, rxb) [(hdr t Sole, data)]"
    using d by (simp add: one_packet message_rx_new_def)
  from read_packet_incoming [OF this] obtain t1 rx1 where
    rp: "read_packet (nt_reader nt) (nt_cipher nt) (tb, rxb) = (Ok (hdr t Sole), t1, rx1)" "payload rx1 = data" by auto
  from receive_flies [OF laws fl' here] obtain tb' rxb' where
    "receive (nt_reader nt) (nt_cipher nt) (tb, message_rx_new rxb) = Some (Return (Ok (t, data)), tb', rxb')"
    and con: "connected nt sync written pending arrived n m (as_messages a) (tb', message_tx_new txb, rxb') q p" by auto
  with rp have "tb' = t1" "mr_packets rxb' = rx1"
    by (auto simp: receive_def read_message_def read_bytes_def message_rx_new_def Let_def)
  with con have "connected nt sync written pending arrived n m (as_messages a) (as_messages (t1, txb, rx1)) q p"
    using connected_packets [of nt sync written pending arrived n m "as_messages a" tb' _ rxb' q p "message_rx_new rx1"]
    by (simp add: message_rx_new_def)
  with rp show thesis by (intro that [of "(t1, txb, rx1)"]) (simp_all add: prx_packet_def c)
qed

lemma packet_exchange:
  assumes laws: "network_laws nt sync written pending arrived" and d: "length data \<le> MAX_PACKET_SIZE" "t \<le> TYPE_MASK"
    and fl: "connected nt sync written pending arrived (Suc n) m (as_messages a) (as_messages b) [] p"
  obtains a1 a2 b' where "ptx_prepare a t = (Ok (), a1)" "ptx_slice nt a1 data True = (Ok (), a2)"
    "prx_packet nt a2 b = (Ok (hdr t Sole), b')" "prx_payload b' = data"
    "connected nt sync written pending arrived n m (as_messages a2) (as_messages b') [] p"
proof -
  have fl': "connected nt sync written pending arrived (length (packets_of t data) + n) m (as_messages a) (as_messages b) [] p"
    using fl d by (simp add: one_packet)
  show thesis
  proof (rule packets_sent [OF laws fl' d(2)])
    fix a1 a2 assume s: "ptx_prepare a t = (Ok (), a1)" "ptx_slice nt a1 data True = (Ok (), a2)"
      and "connected nt sync written pending arrived n m (as_messages a2) (as_messages b) ([] @ [Whole t data]) p"
    then have "connected nt sync written pending arrived n m (as_messages a2) (as_messages b) [Whole t data] p" by simp
    from packet_received [OF laws d(1) this] that [OF s] show thesis by blast
  qed
qed

section \<open>The tests pass\<close>

lemma roundtrip_small_payload_passes:
  assumes "network_laws nt sync written pending arrived"
    "connected nt sync written pending arrived (Suc n) m (as_messages client) (as_messages server) [] []"
  shows "roundtrip_small_payload nt server client"
  by (rule packet_exchange [OF assms(1) _ _ assms(2), of "ascii ''hello world''" 1])
    (simp_all add: ascii_def size_defs TYPE_MASK_def roundtrip_small_payload_def)

lemma roundtrip_empty_payload_passes:
  assumes "network_laws nt sync written pending arrived"
    "connected nt sync written pending arrived (Suc n) m (as_messages client) (as_messages server) [] []"
  shows "roundtrip_empty_payload nt server client"
  by (rule packet_exchange [OF assms(1) _ _ assms(2), of "[]" 0]) (simp_all add: roundtrip_empty_payload_def)

lemma bidirectional_roundtrip_passes:
  assumes laws: "network_laws nt sync written pending arrived"
    and fl: "connected nt sync written pending arrived (Suc n) (Suc m) (as_messages client) (as_messages server) [] []"
  shows "bidirectional_roundtrip nt server client"
proof (rule packet_exchange [OF laws _ _ fl, of "ascii ''ping''" 1])
  fix client1 client2 server1
  assume 1: "ptx_prepare client 1 = (Ok (), client1)" "ptx_slice nt client1 (ascii ''ping'') True = (Ok (), client2)"
    "prx_packet nt client2 server = (Ok (hdr 1 Sole), server1)" "prx_payload server1 = ascii ''ping''"
    and con: "connected nt sync written pending arrived n (Suc m) (as_messages client2) (as_messages server1) [] []"
  show ?thesis
    by (rule packet_exchange [OF laws _ _ connected_sym [OF con], of "ascii ''pong''" 2])
      (use 1 in \<open>simp_all add: bidirectional_roundtrip_def ascii_def size_defs TYPE_MASK_def\<close>)
qed (simp_all add: ascii_def size_defs TYPE_MASK_def)

lemma packet_messages_pass:
  assumes laws: "network_laws nt sync written pending arrived"
  shows "list_all (\<lambda>i. ucast i \<le> TYPE_MASK) is \<Longrightarrow>
    connected nt sync written pending arrived (length is + n) m (as_messages client) (as_messages server) [] [] \<Longrightarrow>
    packet_messages nt is server client"
proof (induction "is" arbitrary: client server)
  case (Cons i "is")
  have fl: "connected nt sync written pending arrived (Suc (length is + n)) m (as_messages client) (as_messages server) [] []"
    using Cons.prems(2) by simp
  show ?case
    by (rule packet_exchange [OF laws _ _ fl, of "replicate 64 i" "ucast i"]) (use Cons in \<open>simp_all add: size_defs\<close>)
qed simp

lemma packets_multiple_sequential_messages_passes:
  assumes "network_laws nt sync written pending arrived"
    "connected nt sync written pending arrived (5 + n) m (as_messages client) (as_messages server) [] []"
  shows "packets_multiple_sequential_messages nt server client"
proof -
  have "length [0, 1, 2, 3, 4 :: u8] = 5" by simp
  with assms(2) have "connected nt sync written pending arrived (length [0, 1, 2, 3, 4 :: u8] + n) m (as_messages client) (as_messages server) [] []"
    by argo
  then show ?thesis
    unfolding packets_multiple_sequential_messages_def
    by (intro packet_messages_pass [OF assms(1)]) (simp_all add: TYPE_MASK_def)
qed

text \<open>The loop of the receiving task, on the packets of a message that needs several.\<close>

context packet_source
begin

lemma read_chunks_rest:
  "incoming s (map (Pair (hdr t Mid)) ps @ (hdr t Last, q) # pkts) \<Longrightarrow> 0 < count \<Longrightarrow>
   read_chunks read_packet payload s count received = Some (Some (count + length ps + 1, received @ concat ps @ q))"
proof (induction ps arbitrary: s count received)
  case Nil
  then obtain s' where "read_packet s = (Ok (hdr t Last), s')" "payload s' = q" using read_step by force
  with Nil.prems(2) show ?case by (subst read_chunks.simps) simp
next
  case (Cons p ps)
  then obtain s' where s': "read_packet s = (Ok (hdr t Mid), s')" "payload s' = p"
    "incoming s' (map (Pair (hdr t Mid)) ps @ (hdr t Last, q) # pkts)" using read_step by force
  from Cons.IH [OF s'(3), of "Suc count" "received @ p"] s'(1,2) Cons.prems(2) show ?case
    by (subst read_chunks.simps) simp
qed

lemma read_chunks_all:
  assumes "incoming s ((hdr t First, p) # map (Pair (hdr t Mid)) ps @ (hdr t Last, q) # pkts)"
  shows "read_chunks read_packet payload s 0 [] = Some (Some (length ps + 2, p @ concat ps @ q))"
proof -
  from read_step [OF assms] obtain s' where s': "read_packet s = (Ok (hdr t First), s')" "payload s' = p"
    "incoming s' (map (Pair (hdr t Mid)) ps @ (hdr t Last, q) # pkts)" by blast
  from read_chunks_rest [OF s'(3), of 1 p] s'(1,2) show ?thesis by (subst read_chunks.simps) simp
qed

end

lemma cycle_packets: "length (packets_of t (cycle_bytes (MAX_PACKET_SIZE * 3 + 100))) = 4"
  by (simp add: packets_of_def length_slice_plan cycle_bytes_def size_defs)

lemma roundtrip_large_payload_passes:
  assumes laws: "network_laws nt sync written pending arrived"
    and fl: "connected nt sync written pending arrived (4 + n) m (as_messages client) (as_messages server) [] []"
  shows "roundtrip_large_payload_chunks_correctly nt server client"
proof -
  let ?data = "cycle_bytes (MAX_PACKET_SIZE * 3 + 100)"
  have "connected nt sync written pending arrived (length (packets_of 2 ?data) + n) m (as_messages client) (as_messages server) [] []"
    using fl by (simp add: cycle_packets)
  then show ?thesis
  proof (rule packets_sent [OF laws])
    fix client1 client2
    assume s: "ptx_prepare client 2 = (Ok (), client1)" "ptx_slice nt client1 ?data True = (Ok (), client2)"
      and con: "connected nt sync written pending arrived n m (as_messages client2) (as_messages server) ([] @ [Whole 2 ?data]) []"
    obtain tb txb rxb where c: "packet_convey nt client2 server = (tb, txb, rxb)" by (cases "packet_convey nt client2 server")
    from convey_flies [OF laws con]
    have fl': "connected nt sync written pending arrived n m (as_messages client2) (tb, message_tx_new txb, message_rx_new rxb) [Whole 2 ?data] []"
      and here: "arrived (rx_read (mr_packets (message_rx_new rxb))) = written (tx_write (mt_packets (snd (tx_of (as_messages client2)))))"
      by (simp_all add: convey_as_messages c)
    obtain Q pr1 w where "coming (nt_reader nt) pending (nt_cipher nt) Q pr1 w (tb, message_rx_new rxb) (letter_packets (Whole 2 ?data))"
      using connected_coming [OF laws fl' here] by metis
    then have inc: "incoming (nt_reader nt) pending (nt_cipher nt) Q pr1 w (tb, rxb) (packets_of 2 ?data)"
      by (simp add: message_rx_new_def)
    show ?thesis
    proof (cases rule: packets_of_cases [of 2 ?data])
      case sole
      with cycle_packets [of 2] show ?thesis by simp
    next
      case (split p ps q)
      from src.read_chunks_all [OF inc [unfolded split(1)]] cycle_packets [of 2] split s c show ?thesis
        by (simp add: roundtrip_large_payload_chunks_correctly_def)
    qed
  qed (simp add: TYPE_MASK_def)
qed

section \<open>The handshake tests\<close>

lemma fixture_auth: "nf_auth_header (NodeFixture_new lb i kp tp) =
    credential lb (sgk_private kp) (AuthHeader_new (NodeId_from_u64 i) None (tk_public tp))"
  by (simp add: NodeFixture_new_def credential_def)

lemma message_halves_OkD:
  "message_halves r = Ok ((t, tx, rx), details) \<Longrightarrow> \<exists>tx' rx'. r = Ok ((t, tx', rx'), details) \<and> (t, tx, rx) = as_messages (t, tx', rx')"
  by (auto simp: message_halves_def split: result.splits)

lemma connect_pair_connected:
  assumes "session_laws lb nt public pair sync pending written arrived hp hw ha"
    and "key_pair (lb_ed25519 lb) (sgk_private cluster_kp) (sgk_public cluster_kp)"
    and "node_ok lb public (sgk_private cluster_kp) (tk_private client_tp) (AuthHeader_new (NodeId_from_u64 2) None (tk_public client_tp))"
    and "node_ok lb public (sgk_private cluster_kp) (tk_private server_tp) (AuthHeader_new (NodeId_from_u64 1) None (tk_public server_tp))"
    and "d \<le> HANDSHAKE_TIMEOUT" "n < 2 ^ 64"
  obtains towards_client towards_server where
    "\<forall>server_stream client_stream. fresh_stream pending written arrived client_stream towards_client \<longrightarrow>
      fresh_stream pending written arrived server_stream towards_server \<longrightarrow>
      (\<exists>server client. connect_pair lb (Some d) (NodeFixture_new lb 1 cluster_kp server_tp) (NodeFixture_new lb 2 cluster_kp client_tp)
           (sgk_public cluster_kp) server_stream client_stream = Some ((server, NodeId_from_u64 2), client)
         \<and> connected nt sync hw hp ha n n (as_messages client) (as_messages server) [] [])"
proof (rule session_connected [OF assms(1-5,5,6)])
  fix towards_client towards_server
  assume con: "\<forall>si sr. fresh_stream pending written arrived si towards_client \<longrightarrow> fresh_stream pending written arrived sr towards_server \<longrightarrow>
      (\<exists>a b. connect lb (Some d) si (tk_private client_tp)
            (credential lb (sgk_private cluster_kp) (AuthHeader_new (NodeId_from_u64 2) None (tk_public client_tp))) (sgk_public cluster_kp)
            = Ok (a, AuthDetails_from (AuthHeader_new (NodeId_from_u64 1) None (tk_public server_tp)))
         \<and> accept lb (Some d) sr (tk_private server_tp)
            (credential lb (sgk_private cluster_kp) (AuthHeader_new (NodeId_from_u64 1) None (tk_public server_tp))) (sgk_public cluster_kp)
            = Ok (b, AuthDetails_from (AuthHeader_new (NodeId_from_u64 2) None (tk_public client_tp)))
         \<and> connected nt sync hw hp ha n n a b [] [])"
  show thesis
  proof (rule that [of towards_client towards_server], intro allI impI)
    fix server_stream client_stream
    assume "fresh_stream pending written arrived client_stream towards_client" "fresh_stream pending written arrived server_stream towards_server"
    with con obtain a b where c: "connect lb (Some d) client_stream (tk_private client_tp)
            (credential lb (sgk_private cluster_kp) (AuthHeader_new (NodeId_from_u64 2) None (tk_public client_tp))) (sgk_public cluster_kp)
            = Ok (a, AuthDetails_from (AuthHeader_new (NodeId_from_u64 1) None (tk_public server_tp)))"
      "accept lb (Some d) server_stream (tk_private server_tp)
            (credential lb (sgk_private cluster_kp) (AuthHeader_new (NodeId_from_u64 1) None (tk_public server_tp))) (sgk_public cluster_kp)
            = Ok (b, AuthDetails_from (AuthHeader_new (NodeId_from_u64 2) None (tk_public client_tp)))"
      "connected nt sync hw hp ha n n a b [] []" by blast
    obtain ta txa rxa tb txb rxb where ab: "a = (ta, txa, rxa)" "b = (tb, txb, rxb)" by (cases a, cases b)
    from message_halves_OkD [OF c(1) [unfolded connect_def ab]] message_halves_OkD [OF c(2) [unfolded accept_def ab]] c(3)
    show "\<exists>server client. connect_pair lb (Some d) (NodeFixture_new lb 1 cluster_kp server_tp) (NodeFixture_new lb 2 cluster_kp client_tp)
           (sgk_public cluster_kp) server_stream client_stream = Some ((server, NodeId_from_u64 2), client)
         \<and> connected nt sync hw hp ha n n (as_messages client) (as_messages server) [] []"
      unfolding connect_pair_def fixture_auth ab
      by (fastforce simp: NodeFixture_new_def AuthDetails_from_def AuthHeader_new_def)
  qed
qed

text \<open>A run in which the client refuses the server's payload, and what the server had sent.\<close>

lemma connect_refused:
  assumes lib: "duplex_laws (lb_reader lb) (lb_writer lb) (lb_split lb) pending written hp hw"
    and xx: "xx_laws (lb_noise lb) public pair sync"
    and keys: "length (tpriv_expose privi) = 32" "length (tpriv_expose privr) = 32" and fits: "length pl + 96 \<le> 65535"
    and chk: "\<And>hs. hl_get_remote_static (lb_noise lb) (hc_handshake hs) = Some (public (tpriv_expose privr)) \<Longrightarrow>
      check_peer lb vk pl hs = Err e"
    and time: "d \<le> HANDSHAKE_TIMEOUT"
  shows "\<exists>m1 m2. (\<forall>sr rest. pending sr = frame_of m1 @ rest \<longrightarrow>
        (\<exists>hs c1 c2. new_responder (lb_noise lb) sr privr = Ok hs \<and> recv (lb_noise lb) (lb_reader lb) hs = (Ok [], c1)
           \<and> send (lb_noise lb) (lb_writer lb) c1 pl = (Ok (), c2) \<and> written (hc_stream c2) = written sr @ frame_of m2))
    \<and> (\<forall>si rest. pending si = frame_of m2 @ rest \<longrightarrow> packets_connect lb (Some d) si privi cred vk = Err e)"
proof -
  have e: "length ([] :: bytes) + 96 \<le> 65535" by simp
  obtain i0 r0 n1 c1 i1 nr1 r1 n2 c2 r2 ni2 i2 where
    b: "hl_build_initiator (lb_noise lb) NOISE_PARAMS (tpriv_expose privi) = Ok i0"
      "hl_build_responder (lb_noise lb) NOISE_PARAMS (tpriv_expose privr) = Ok r0"
    and m1: "hl_write_message (lb_noise lb) i0 [] (drop FRAME_HEADER_SIZE fresh_buf) = (Ok n1, c1, i1)" "n1 \<le> 65535"
      "length c1 = 65535" "hl_read_message (lb_noise lb) r0 (take n1 c1) fresh_buf = (Ok 0, nr1, r1)"
    and m2: "hl_write_message (lb_noise lb) r1 pl (drop FRAME_HEADER_SIZE nr1) = (Ok n2, c2, r2)" "n2 \<le> 65535" "length c2 = 65535"
      "hl_read_message (lb_noise lb) i1 (take n2 c2) (u16_to_be_bytes (of_nat n1) @ c1) = (Ok (length pl), ni2, i2)"
      "take (length pl) ni2 = pl" "hl_get_remote_static (lb_noise lb) i2 = Some (public (tpriv_expose privr))"
    by (rule xx_messages [OF xx keys fits e])
  have "\<exists>hs c1' c2'. new_responder (lb_noise lb) sr privr = Ok hs \<and> recv (lb_noise lb) (lb_reader lb) hs = (Ok [], c1')
      \<and> send (lb_noise lb) (lb_writer lb) c1' pl = (Ok (), c2') \<and> written (hc_stream c2') = written sr @ frame_of (take n2 c2)"
    if "pending sr = frame_of (take n1 c1) @ rest" for sr rest
  proof -
    let ?c0 = "new_context r0 sr"
    have c0: "hc_handshake ?c0 = r0" "hc_stream ?c0 = sr" "hc_noise_buf ?c0 = fresh_buf" by (simp_all add: new_context_def)
    from recv_step [OF lib, of ?c0 "take n1 c1" rest "lb_noise lb" 0 nr1 r1] that m1 c0 obtain s1 where
      s1: "recv (lb_noise lb) (lb_reader lb) ?c0 = (Ok [], ?c0\<lparr>hc_handshake := r1, hc_noise_buf := nr1,
        hc_frame := take n1 c1, hc_stream := s1\<rparr>)" (is "_ = (_, ?c1)") "written s1 = written sr" by auto
    from send_step [OF lib, of "lb_noise lb" ?c1 pl n2 c2 r2] m2 obtain s2 where
      "send (lb_noise lb) (lb_writer lb) ?c1 pl = (Ok (), ?c1\<lparr>hc_handshake := r2, hc_noise_buf := u16_to_be_bytes (of_nat n2) @ c2,
        hc_stream := s2\<rparr>)" "written s2 = written s1 @ frame_of (take n2 c2)" by auto
    with s1 b(2) show ?thesis by (auto simp: new_responder_def)
  qed
  moreover have "packets_connect lb (Some d) si privi cred vk = Err e" if "pending si = frame_of (take n2 c2) @ rest" for si rest
  proof -
    let ?c0 = "new_context i0 si"
    have c0: "hc_handshake ?c0 = i0" "hc_stream ?c0 = si" "hc_noise_buf ?c0 = fresh_buf" by (simp_all add: new_context_def)
    from send_step [OF lib, of "lb_noise lb" ?c0 "[]" n1 c1 i1] m1 c0 obtain s1 where
      s1: "send (lb_noise lb) (lb_writer lb) ?c0 [] = (Ok (), ?c0\<lparr>hc_handshake := i1,
        hc_noise_buf := u16_to_be_bytes (of_nat n1) @ c1, hc_stream := s1\<rparr>)" (is "_ = (_, ?c1)") "pending s1 = pending si" by auto
    from recv_step [OF lib, of ?c1 "take n2 c2" rest "lb_noise lb" "length pl" ni2 i2] that m2 s1(2) obtain s2 where
      s2: "recv (lb_noise lb) (lb_reader lb) ?c1 = (Ok pl, ?c1\<lparr>hc_handshake := i2, hc_noise_buf := ni2,
        hc_frame := take n2 c2, hc_stream := s2\<rparr>)" (is "_ = (_, ?c2)") by auto
    have "check_peer lb vk pl ?c2 = Err e" by (rule chk) (simp add: m2(6))
    with s1 s2 b(1) time show ?thesis
      by (simp add: packets_connect_def new_initiator_def with_timeout_def connect_steps_def)
  qed
  ultimately show ?thesis by blast
qed

lemma handshake_tests_pass:
  assumes "session_laws lb nt public pair sync pending written arrived hp hw ha"
    and "key_pair (lb_ed25519 lb) (sgk_private cluster_kp) (sgk_public cluster_kp)"
    and "node_ok lb public (sgk_private cluster_kp) (tk_private client_tp) (AuthHeader_new (NodeId_from_u64 2) None (tk_public client_tp))"
    and "node_ok lb public (sgk_private cluster_kp) (tk_private server_tp) (AuthHeader_new (NodeId_from_u64 1) None (tk_public server_tp))"
    and "d \<le> HANDSHAKE_TIMEOUT"
  shows "\<exists>towards_client towards_server. \<forall>server_stream client_stream.
    fresh_stream pending written arrived client_stream towards_client \<longrightarrow>
    fresh_stream pending written arrived server_stream towards_server \<longrightarrow>
    handshake_completes_test lb (Some d) cluster_kp server_tp client_tp server_stream client_stream
  \<and> accept_returns_correct_remote_node_id lb (Some d) cluster_kp server_tp client_tp server_stream client_stream"
proof (rule connect_pair_connected [OF assms, of 0])
  fix towards_client towards_server
  assume "\<forall>server_stream client_stream. fresh_stream pending written arrived client_stream towards_client \<longrightarrow>
      fresh_stream pending written arrived server_stream towards_server \<longrightarrow>
      (\<exists>server client. connect_pair lb (Some d) (NodeFixture_new lb 1 cluster_kp server_tp) (NodeFixture_new lb 2 cluster_kp client_tp)
           (sgk_public cluster_kp) server_stream client_stream = Some ((server, NodeId_from_u64 2), client)
         \<and> connected nt sync hw hp ha 0 0 (as_messages client) (as_messages server) [] [])"
  then show ?thesis
    by (intro exI [of _ towards_client] exI [of _ towards_server] allI impI)
      (fastforce simp: handshake_completes_test_def accept_returns_correct_remote_node_id_def NodeFixture_new_def Let_def)
qed simp

text \<open>The rogue signature does not verify under the cluster key.\<close>

lemma wrong_key_test_passes:
  assumes lib: "duplex_laws (lb_reader lb) (lb_writer lb) (lb_split lb) pending written hp hw"
    and xx: "xx_laws (lb_noise lb) public pair sync"
    and keys: "tpriv_ok (tk_private client_tp)" "tpriv_ok (tk_private server_transport)"
    and auth: "server_auth = credential lb (sgk_private rogue_kp) (AuthHeader_new (NodeId_from_u32 1) None (tk_public server_transport))"
      "length (sah_expose server_auth) + 96 \<le> 65535"
    and rogue: "\<forall>p. verify_payload (lb_ed25519 lb) (sgk_public cluster_kp) (sah_expose server_auth) \<noteq> Ok p"
    and time: "d \<le> HANDSHAKE_TIMEOUT"
  shows "\<exists>m1 m2. (\<forall>sr rest. pending sr = frame_of m1 @ rest \<longrightarrow>
        (\<exists>hs c1 c2. new_responder (lb_noise lb) sr (tk_private server_transport) = Ok hs \<and> recv (lb_noise lb) (lb_reader lb) hs = (Ok [], c1)
           \<and> send (lb_noise lb) (lb_writer lb) c1 (sah_expose server_auth) = (Ok (), c2) \<and> written (hc_stream c2) = written sr @ frame_of m2))
    \<and> (\<forall>sr si rest. pending si = frame_of m2 @ rest \<longrightarrow>
         connect_rejects_auth_header_signed_with_wrong_key lb (Some d) cluster_kp rogue_kp server_transport client_tp sr si)"
proof -
  obtain x where x: "verify_payload (lb_ed25519 lb) (sgk_public cluster_kp) (sah_expose server_auth) = Err x"
    using rogue by (metis result.exhaust)
  have chk: "check_peer lb (sgk_public cluster_kp) (sah_expose server_auth) hs = Err (BadAuthErr (Signature x))" for hs
    using x by (simp add: check_peer_def verify_raw_def)
  have k: "length (tpriv_expose (tk_private client_tp)) = 32" "length (tpriv_expose (tk_private server_transport)) = 32"
    using keys by (simp_all add: tpriv_ok_def)
  have test: "connect_rejects_auth_header_signed_with_wrong_key lb (Some d) cluster_kp rogue_kp server_transport client_tp sr si"
    if "packets_connect lb (Some d) si (tk_private client_tp) (nf_auth_header (NodeFixture_new lb 2 cluster_kp client_tp))
      (sgk_public cluster_kp) = Err (BadAuthErr (Signature x))" for sr si
    using that by (simp add: connect_rejects_auth_header_signed_with_wrong_key_def NodeFixture_new_def)
  from connect_refused [OF lib xx k auth(2) chk time, of "nf_auth_header (NodeFixture_new lb 2 cluster_kp client_tp)"] test
  show ?thesis by meson
qed

lemma static_key_test_passes:
  assumes lib: "duplex_laws (lb_reader lb) (lb_writer lb) (lb_split lb) pending written hp hw"
    and xx: "xx_laws (lb_noise lb) public pair sync"
    and sig: "yatlv_laws (lb_yatlv lb)" "ed25519_laws (lb_ed25519 lb)" "key_pair (lb_ed25519 lb) (sgk_private cluster_kp) (sgk_public cluster_kp)"
    and keys: "tpriv_ok (tk_private client_tp)" "tpriv_ok (tk_private actual_transport)"
      "tk_public actual_transport = TransportPublicKey (public (tpriv_expose (tk_private actual_transport)))" "tpub_ok (tk_public actual_transport)"
    and differ: "tk_public declared_transport \<noteq> tk_public actual_transport"
    and auth: "h = AuthHeader_new (NodeId_from_u32 1) None (tk_public declared_transport)" "header_ok h"
      "length (sah_expose (credential lb (sgk_private cluster_kp) h)) + 96 \<le> 65535"
    and time: "d \<le> HANDSHAKE_TIMEOUT"
  shows "\<exists>m1 m2. (\<forall>sr rest. pending sr = frame_of m1 @ rest \<longrightarrow>
        (\<exists>hs c1 c2. new_responder (lb_noise lb) sr (tk_private actual_transport) = Ok hs \<and> recv (lb_noise lb) (lb_reader lb) hs = (Ok [], c1)
           \<and> send (lb_noise lb) (lb_writer lb) c1 (sah_expose (credential lb (sgk_private cluster_kp) h)) = (Ok (), c2)
           \<and> written (hc_stream c2) = written sr @ frame_of m2))
    \<and> (\<forall>sr si rest. pending si = frame_of m2 @ rest \<longrightarrow>
         connect_rejects_static_key_mismatch lb (Some d) cluster_kp declared_transport actual_transport client_tp sr si)"
proof -
  let ?k = "tk_public actual_transport"
  have v: "verify_raw (lb_yatlv lb) (lb_ed25519 lb) (sgk_public cluster_kp) (sah_expose (credential lb (sgk_private cluster_kp) h)) = Ok h"
    using verify_raw_sign [OF sig, of h] auth(2) by (simp add: credential_def)
  have d: "ah_public_key h \<noteq> ?k" using differ by (simp add: auth(1) AuthHeader_new_def)
  have chk: "check_peer lb (sgk_public cluster_kp) (sah_expose (credential lb (sgk_private cluster_kp) h)) hs
      = Err (BadAuthErr (PublicKeyMismatch (ah_public_key h) ?k))"
    if "hl_get_remote_static (lb_noise lb) (hc_handshake hs) = Some (public (tpriv_expose (tk_private actual_transport)))" for hs
    by (rule check_peer_mismatch [OF v _ d]) (use that keys(3,4) in \<open>simp add: remote_static_Ok\<close>)
  have k: "length (tpriv_expose (tk_private client_tp)) = 32" "length (tpriv_expose (tk_private actual_transport)) = 32"
    using keys by (simp_all add: tpriv_ok_def)
  have test: "connect_rejects_static_key_mismatch lb (Some d) cluster_kp declared_transport actual_transport client_tp sr si"
    if "packets_connect lb (Some d) si (tk_private client_tp) (nf_auth_header (NodeFixture_new lb 2 cluster_kp client_tp))
      (sgk_public cluster_kp) = Err (BadAuthErr (PublicKeyMismatch (ah_public_key h) ?k))" for sr si
    using that by (simp add: connect_rejects_static_key_mismatch_def NodeFixture_new_def)
  note refused = connect_refused [OF lib xx k auth(3) chk time, of "nf_auth_header (NodeFixture_new lb 2 cluster_kp client_tp)"]
  show ?thesis using refused test by meson
qed

end
