(* ===== verification/Pool_Tests.thy ===== *)
theory Pool_Tests
  imports Transport_Tests Link_Spec
begin

text \<open>
  The asynchronous tests of \<open>src/pool.rs\<close>. A test runs the operations of a link one after the other, with
  nobody else at the mutex; \<open>link_run\<close> lemmas show that each such operation is a run of the steps of
  theory \<open>Pool_Link\<close>. The connection of the link is the client's end of a session with the server of the
  fixture.
\<close>

section \<open>Operations with nobody else at the mutex\<close>

text \<open>The reconnect task, from its attempt on: it stores a connection, or goes to sleep.\<close>

definition task_now :: "nat \<Rightarrow> ('c, ConnectionError) result \<Rightarrow> 'c link \<Rightarrow> 'c link" where
  "task_now t attempt s =
     (case (lk_tasks s t, attempt) of
        (Some (Attempting b), Ok c) \<Rightarrow> (set_task t None s)\<lparr>lk_state := Connected c, lk_notified := Suc (lk_notified s)\<rparr>
      | (Some (Attempting b), Err e) \<Rightarrow> set_task t (Some (Asleep b)) s
      | _ \<Rightarrow> s)"

text \<open>\<open>acquire\<close> returns whether it gave a guard; \<open>wait_connected\<close>, with its time out, whether it saw the
  connection.\<close>

definition acquire_now :: "nat \<Rightarrow> 'c link \<Rightarrow> bool \<times> 'c link" where
  "acquire_now i s =
     (case lk_state s of
        Connected c \<Rightarrow> (True, (set_client i (InGuard False) s)\<lparr>lk_holder := Some (Client i)\<rparr>)
      | Reconnecting \<Rightarrow> (False, s))"

definition wait_now :: "'c link \<Rightarrow> bool" where
  "wait_now s = (case lk_state s of Connected c \<Rightarrow> True | Reconnecting \<Rightarrow> False)"

definition commit_now :: "nat \<Rightarrow> 'c link \<Rightarrow> 'c link" where
  "commit_now i s = (if lk_clients s i = InGuard False then set_client i (InGuard True) s else s)"

definition drop_now :: "nat \<Rightarrow> 'c link \<Rightarrow> 'c link" where
  "drop_now i s =
     (case lk_clients s i of
        InGuard True \<Rightarrow> (set_client i Idle s)\<lparr>lk_holder := None\<rparr>
      | InGuard False \<Rightarrow>
          (set_client i Idle (set_task (lk_next_task s) (Some (Attempting FIRST_BACKOFF)) s))
            \<lparr>lk_state := Reconnecting, lk_next_task := Suc (lk_next_task s), lk_holder := None\<rparr>
      | _ \<Rightarrow> s)"

abbreviation link_run :: "('c \<Rightarrow> NodeId) \<Rightarrow> NodeId \<Rightarrow> 'c link \<Rightarrow> 'c link \<Rightarrow> bool" where
  "link_run peer_of target \<equiv> (link_step peer_of target)\<^sup>*\<^sup>*"

lemma link_runI: "link_step peer_of target s s1 \<Longrightarrow> link_run peer_of target s1 s2 \<Longrightarrow> link_run peer_of target s s2"
  by (rule converse_rtranclp_into_rtranclp)

lemma task_now_run:
  assumes "\<forall>c. attempt = Ok c \<longrightarrow> peer_of c = target" "lk_holder s = None"
  shows "link_run peer_of target s (task_now t attempt s)"
proof (cases "\<exists>b. lk_tasks s t = Some (Attempting b)")
  case True
  then obtain b where b: "lk_tasks s t = Some (Attempting b)" by blast
  show ?thesis
  proof (cases attempt)
    case (Ok c)
    note steps = by_task [OF connect_ok [OF b, of peer_of c target]] by_task [OF task_locks, of _ t c peer_of target]
      by_task [OF task_stores, of _ t c peer_of target] by_task [OF task_notifies, of _ t peer_of target]
      by_task [OF task_returns, of _ t peer_of target]
    show ?thesis
      by (rule link_runI [OF steps(1)], use Ok assms in simp, rule link_runI [OF steps(2)], simp, use assms in simp,
          rule link_runI [OF steps(3)], simp, rule link_runI [OF steps(4)], simp, rule link_runI [OF steps(5)], simp)
        (cases s, use assms Ok b in \<open>simp add: task_now_def\<close>)
  next
    case (Err e)
    have "task_now t attempt s = set_task t (Some (Asleep b)) s" using b Err by (simp add: task_now_def)
    with by_task [OF connect_failed [OF b, of peer_of target]] show ?thesis by (simp add: r_into_rtranclp)
  qed
next
  case False
  then have "task_now t attempt s = s"
    by (auto simp: task_now_def split: option.splits task_pc.splits result.splits)
  then show ?thesis by simp
qed

lemma acquire_now_run:
  assumes "lk_clients s i = Idle" "lk_holder s = None"
  shows "link_run peer_of target s (snd (acquire_now i s))"
proof -
  note steps = by_acquire [OF acquire_starts [OF assms(1)]] by_acquire [OF acquire_locks, of _ i]
  show ?thesis
  proof (cases "lk_state s")
    case (Connected c)
    show ?thesis
      by (rule link_runI [OF steps(1)], rule link_runI [OF steps(2)], simp, use assms in simp,
          rule link_runI [OF by_acquire [OF acquire_ready, of _ i c]], simp, use Connected in simp)
        (cases s, use Connected in \<open>simp add: acquire_now_def\<close>)
  next
    case Reconnecting
    show ?thesis
      by (rule link_runI [OF steps(1)], rule link_runI [OF steps(2)], simp, use assms in simp,
          rule link_runI [OF by_acquire [OF acquire_not_ready, of _ i]], simp, use Reconnecting in simp)
        (cases s, use Reconnecting assms in \<open>simp add: acquire_now_def fun_upd_idem\<close>)
  qed
qed

lemma commit_now_run: "link_run peer_of target s (commit_now i s)"
  by (auto simp: commit_now_def intro!: r_into_rtranclp by_commit guard_commits)

lemma drop_now_run: "link_run peer_of target s (drop_now i s)"
proof (cases "\<exists>c. lk_clients s i = InGuard c")
  case True
  then obtain c where c: "lk_clients s i = InGuard c" by blast
  show ?thesis
  proof (cases c)
    case True
    with c have r: "lk_clients s i = InGuard True" by simp
    show ?thesis
      by (rule link_runI [OF by_drop [OF drop_committed [OF r]]], rule link_runI [OF by_drop [OF drop_releases, of _ i]], simp)
        (use r in \<open>simp add: drop_now_def\<close>)
  next
    case False
    with c have r: "lk_clients s i = InGuard False" by simp
    show ?thesis
      by (rule link_runI [OF by_drop [OF drop_resets [OF r]]], rule link_runI [OF by_drop [OF drop_releases, of _ i]], simp)
        (cases s, use r in \<open>simp add: drop_now_def\<close>)
  qed
next
  case False
  then have "drop_now i s = s" by (auto simp: drop_now_def split: client_pc.splits)
  then show ?thesis by simp
qed

text \<open>A whole \<open>wait_connected\<close>, from the registration to the return or the time out, leaves the link as it
  was.\<close>

lemma wait_now_run:
  assumes "lk_clients s i = Idle" "lk_holder s = None"
  shows "wait_step\<^sup>+\<^sup>+ s s"
proof -
  let ?g = "lk_notified s"
  let ?s1 = "set_client i (WaitWaits ?g) s"
  let ?s2 = "(set_client i (WaitHolds ?g) s)\<lparr>lk_holder := Some (Client i)\<rparr>"
  let ?s3 = "set_client i (WaitSleeps ?g) s"
  have same: "(set_client i Idle s)\<lparr>lk_holder := None\<rparr> = s" using assms by (cases s) (simp add: fun_upd_idem)
  have 1: "wait_step s ?s1" by (rule wait_registers [OF assms(1)])
  have 2: "wait_step ?s1 ?s2" using wait_locks [of ?s1 i ?g] assms(2) by simp
  show ?thesis
  proof (cases "lk_state s")
    case (Connected c)
    then have "wait_step ?s2 s" using wait_returns [of ?s2 i ?g c] same by simp
    with 1 2 show ?thesis by (meson tranclp.intros)
  next
    case Reconnecting
    then have "wait_step ?s2 ?s3" using wait_sleeps [of ?s2 i ?g] assms(2) by (cases s) simp
    moreover have "wait_step ?s3 s" using wait_times_out [of ?s3 i ?g] assms(1) by (cases s) (simp add: fun_upd_idem)
    ultimately show ?thesis using 1 2 by (meson tranclp.intros)
  qed
qed

section \<open>The fixture\<close>

text \<open>\<open>TransportKeypair::generate\<close> draws the key pair \<open>transport\<close>.\<close>

definition peer_credentials where
  "peer_credentials lb cluster transport node_id =
     \<lparr>cr_private_key = tk_private transport,
      cr_auth_header = auth_sign (lb_yatlv lb) (lb_ed25519 lb)
        (AuthHeader_new (NodeId_from_u32 node_id) None (tk_public transport)) (sgk_private cluster),
      cr_verification_key = sgk_public cluster\<rparr>"

text \<open>The connectors of the tests: one that gives its stream once, and one that counts its calls and
  fails.\<close>

datatype 's OneShotConnector = OneShotConnector "'s option"

fun one_shot_connect :: "'s OneShotConnector \<Rightarrow> 's connector outcome \<times> 's OneShotConnector" where
  "one_shot_connect (OneShotConnector (Some stream)) = (Return (Ok stream), OneShotConnector None)"
| "one_shot_connect (OneShotConnector None) = (Panic, OneShotConnector None)"

datatype FailConnector = FailConnector nat

fun fail_connect :: "FailConnector \<Rightarrow> 's connector \<times> FailConnector" where
  "fail_connect (FailConnector calls) = (Err (Io ''fail''), FailConnector (Suc calls))"

text \<open>The pool, the link of its peer after the first attempt of the reconnect task, and the server's end.\<close>

definition make_pool_and_server where
  "make_pool_and_server lb took cluster client_tp server_tp client_stream server_stream =
     (let client_creds = peer_credentials lb cluster client_tp 1;
          server_creds = peer_credentials lb cluster server_tp 2;
          target = NodeId_from_u32 2;
          pool = pool_new client_creds
      in case peer target (\<lambda>_. OneShotConnector (Some client_stream)) pool of
           ((link, _), pool) \<Rightarrow>
             (case (accept lb took server_stream (cr_private_key server_creds) (cr_auth_header server_creds) (cr_verification_key server_creds),
                    one_shot_connect (pl_connector (pool_links pool ! link))) of
                (Ok (server, _), Return connector, _) \<Rightarrow>
                  Some (pool, task_now 0 (try_connect lb took connector target client_creds) link_new, server)
              | _ \<Rightarrow> None))"

text \<open>\<open>pool.peer(target, || unreachable!())\<close>: the closure is not called.\<close>

definition reuses :: "('cn, 'vk) ConnectionPool \<Rightarrow> bool" where
  "reuses pool = (\<not> snd (fst (peer (NodeId_from_u32 2) (\<lambda>_. undefined) pool)))"

section \<open>The tests\<close>

definition wait_connected_does_not_reset_connection where
  "wait_connected_does_not_reset_connection pool link =
     (reuses pool \<and> wait_now link \<and> fst (acquire_now 0 link))"

definition acquire_succeeds_after_handshake where
  "acquire_succeeds_after_handshake pool link = (reuses pool \<and> fst (acquire_now 0 link))"

definition acquire_returns_not_ready_while_reconnecting where
  "acquire_returns_not_ready_while_reconnecting lb took cluster client_tp =
     (let creds = peer_credentials lb cluster client_tp 1; target = NodeId_from_u32 2 in
      case peer target (\<lambda>_. FailConnector 0) (pool_new creds) of
        ((link, _), pool) \<Rightarrow>
          (let s = task_now 0 (try_connect lb took (fst (fail_connect (pl_connector (pool_links pool ! link)))) target creds) link_new in
           reuses pool \<and> \<not> fst (acquire_now 0 s)))"

definition dirty_drop_resets_connection where
  "dirty_drop_resets_connection pool link =
     (reuses pool
    \<and> (case acquire_now 0 link of
         (acquired, link) \<Rightarrow> acquired \<and> reuses pool \<and> \<not> fst (acquire_now 0 (drop_now 0 link))))"

text \<open>One turn of the loop, with the end the guard gives access to.\<close>

definition committed_exchange where
  "committed_exchange nt link server k =
     (case acquire_now 0 link of
        (acquired, link) \<Rightarrow> acquired \<and>
          (case lk_state link of
             Reconnecting \<Rightarrow> False
           | Connected client \<Rightarrow>
               unwrap (tx_send nt client 1 [42]) (\<lambda>_ client.
               unwrap (rx_message nt client server) (\<lambda>_ server.
               unwrap (tx_send nt server 1 [99]) (\<lambda>_ server.
               unwrap (rx_message nt server client) (\<lambda>_ client.
                 k (drop_now 0 (commit_now 0 (link\<lparr>lk_state := Connected client\<rparr>))) server))))))"

definition commit_keeps_connection_live where
  "commit_keeps_connection_live nt pool link server =
     (reuses pool \<and>
      committed_exchange nt link server (\<lambda>link server.
      committed_exchange nt link server (\<lambda>link server. fst (acquire_now 0 link))))"

section \<open>The tests pass\<close>

text \<open>A link at rest with a connection: nobody at the mutex, no client in a call.\<close>

definition link_up :: "'c link \<Rightarrow> 'c \<Rightarrow> bool" where
  "link_up s c \<longleftrightarrow> lk_state s = Connected c \<and> lk_holder s = None \<and> (\<forall>i. lk_clients s i = Idle)"

lemma link_tests_pass:
  assumes "link_up link c" "reuses pool"
  shows "wait_connected_does_not_reset_connection pool link" "acquire_succeeds_after_handshake pool link"
    "dirty_drop_resets_connection pool link"
  using assms
  by (simp_all add: link_up_def wait_connected_does_not_reset_connection_def acquire_succeeds_after_handshake_def
      dirty_drop_resets_connection_def wait_now_def acquire_now_def drop_now_def)

lemma not_ready_test_passes: "acquire_returns_not_ready_while_reconnecting lb took cluster client_tp"
  by (simp add: acquire_returns_not_ready_while_reconnecting_def peer_def peer_link_new_def pool_new_def reuses_def
      try_connect_def task_now_def link_new_def acquire_now_def Let_def)

text \<open>A message of one packet is over when \<open>read_message\<close> has returned.\<close>

lemma rx_sole_ok:
  assumes laws: "network_laws nt sync written pending arrived" and d: "length data \<le> MAX_PACKET_SIZE"
    and fl: "connected nt sync written pending arrived n m a b (Whole t data # q) p"
  shows "\<exists>msg b1. rx_message nt a b = (Ok msg, b1) \<and> connected nt sync written pending arrived n m a b1 q p"
proof -
  obtain tb txb rxb where c: "convey nt a b = (tb, txb, rxb)" by (cases "convey nt a b")
  from convey_flies [OF laws fl] have fl': "connected nt sync written pending arrived n m a (tb, txb, rxb) (Whole t data # q) p"
    and here: "arrived (rx_read (mr_packets rxb)) = written (tx_write (mt_packets (snd (tx_of a))))" by (simp_all add: c)
  obtain Q pr1 w where "coming (nt_reader nt) pending (nt_cipher nt) Q pr1 w (tb, rxb) (letter_packets (Whole t data))"
    using connected_coming [OF laws fl' here] by metis
  then have "coming (nt_reader nt) pending (nt_cipher nt) Q pr1 w (tb, rxb) [(hdr t Sole, data)]" using d by (simp add: one_packet)
  from read_message_coming [OF this] obtain t1 rx1 where
    rm: "read_message (nt_reader nt) (nt_cipher nt) (tb, rxb) = (Ok \<lparr>first_header = hdr t Sole\<rparr>, t1, rx1)" by auto
  from receive_flies [OF laws fl' here] obtain tb' rxb' where
    "receive (nt_reader nt) (nt_cipher nt) (tb, rxb) = Some (Return (Ok (t, data)), tb', rxb')"
    and con: "connected nt sync written pending arrived n m a (tb', txb, rxb') q p" by auto
  with rm have "tb' = t1" "mr_packets rxb' = mr_packets rx1" by (auto simp: receive_def read_bytes_def Let_def)
  with con rm connected_packets [OF con, of rx1] show ?thesis
    by (auto simp: rx_message_def c)
qed

lemma committed_exchange_ok:
  assumes laws: "network_laws nt sync written pending arrived" and up: "link_up link client"
    and fl: "connected nt sync written pending arrived (Suc n) (Suc m) client server [] []"
    and k: "\<And>link client server. link_up link client \<Longrightarrow> connected nt sync written pending arrived n m client server [] [] \<Longrightarrow> k link server"
  shows "committed_exchange nt link server k"
proof -
  have one: "connected nt sync written pending arrived (length (packets_of 1 [x]) + n') m' a b [] []"
    if "connected nt sync written pending arrived (Suc n') m' a b [] []" for n' m' a b x
    using that by (simp add: one_packet size_defs)
  have t: "(1 :: u16) \<le> TYPE_MASK" by (simp add: TYPE_MASK_def)
  have d: "length [x] \<le> MAX_PACKET_SIZE" for x :: u8 by (simp add: size_defs)
  from tx_send_ok [OF laws one [OF fl, of 42] t] obtain client1 where s1: "tx_send nt client 1 [42] = (Ok (), client1)"
    "connected nt sync written pending arrived n (Suc m) client1 server [Whole 1 [42]] []" by auto
  from rx_sole_ok [OF laws d s1(2)] obtain msg1 server1 where r1: "rx_message nt client1 server = (Ok msg1, server1)"
    "connected nt sync written pending arrived n (Suc m) client1 server1 [] []" by blast
  from tx_send_ok [OF laws one [OF connected_sym [OF r1(2)], of 99] t] obtain server2 where s2: "tx_send nt server1 1 [99] = (Ok (), server2)"
    "connected nt sync written pending arrived m n server2 client1 [Whole 1 [99]] []" by auto
  from rx_sole_ok [OF laws d s2(2)] obtain msg2 client2 where r2: "rx_message nt server2 client1 = (Ok msg2, client2)"
    "connected nt sync written pending arrived m n server2 client2 [] []" by blast
  have "link_up (drop_now 0 (commit_now 0 ((snd (acquire_now 0 link))\<lparr>lk_state := Connected client2\<rparr>))) client2"
    using up by (simp add: link_up_def acquire_now_def commit_now_def drop_now_def)
  from k [OF this connected_sym [OF r2(2)]] s1(1) r1(1) s2(1) r2(1) up show ?thesis
    by (simp add: committed_exchange_def link_up_def acquire_now_def)
qed

lemma commit_test_passes:
  assumes laws: "network_laws nt sync written pending arrived" and up: "link_up link client" and "reuses pool"
    and fl: "connected nt sync written pending arrived (Suc (Suc n)) (Suc (Suc m)) client server [] []"
  shows "commit_keeps_connection_live nt pool link server"
  unfolding commit_keeps_connection_live_def
proof (rule conjI [OF assms(3)], rule committed_exchange_ok [OF laws up fl])
  fix link client server
  assume "link_up link client" "connected nt sync written pending arrived (Suc n) (Suc m) client server [] []"
  then show "committed_exchange nt link server (\<lambda>link server. fst (acquire_now 0 link))"
    by (rule committed_exchange_ok [OF laws]) (simp add: link_up_def acquire_now_def)
qed

section \<open>The fixture connects\<close>

lemma make_pool_and_server_connected:
  assumes "session_laws lb nt public pair sync pending written arrived hp hw ha"
    and "key_pair (lb_ed25519 lb) (sgk_private cluster) (sgk_public cluster)"
    and "node_ok lb public (sgk_private cluster) (tk_private client_tp) (AuthHeader_new (NodeId_from_u32 1) None (tk_public client_tp))"
    and "node_ok lb public (sgk_private cluster) (tk_private server_tp) (AuthHeader_new (NodeId_from_u32 2) None (tk_public server_tp))"
    and "d \<le> HANDSHAKE_TIMEOUT" "n < 2 ^ 64"
  obtains towards_client towards_server where
    "\<forall>server_stream client_stream. fresh_stream pending written arrived client_stream towards_client \<longrightarrow>
      fresh_stream pending written arrived server_stream towards_server \<longrightarrow>
      (\<exists>pool link server client. make_pool_and_server lb (Some d) cluster client_tp server_tp client_stream server_stream
           = Some (pool, link, server)
         \<and> reuses pool \<and> link_up link client \<and> connected nt sync hw hp ha n n client server [] [])"
proof (rule session_connected [OF assms(1-5,5,6)])
  fix towards_client towards_server
  assume con: "\<forall>si sr. fresh_stream pending written arrived si towards_client \<longrightarrow> fresh_stream pending written arrived sr towards_server \<longrightarrow>
      (\<exists>a b. connect lb (Some d) si (tk_private client_tp)
            (credential lb (sgk_private cluster) (AuthHeader_new (NodeId_from_u32 1) None (tk_public client_tp))) (sgk_public cluster)
            = Ok (a, AuthDetails_from (AuthHeader_new (NodeId_from_u32 2) None (tk_public server_tp)))
         \<and> accept lb (Some d) sr (tk_private server_tp)
            (credential lb (sgk_private cluster) (AuthHeader_new (NodeId_from_u32 2) None (tk_public server_tp))) (sgk_public cluster)
            = Ok (b, AuthDetails_from (AuthHeader_new (NodeId_from_u32 1) None (tk_public client_tp)))
         \<and> connected nt sync hw hp ha n n a b [] [])"
  show thesis
  proof (rule that [of towards_client towards_server], intro allI impI)
    fix server_stream client_stream
    assume "fresh_stream pending written arrived client_stream towards_client" "fresh_stream pending written arrived server_stream towards_server"
    with con obtain a b where c: "connect lb (Some d) client_stream (tk_private client_tp)
            (credential lb (sgk_private cluster) (AuthHeader_new (NodeId_from_u32 1) None (tk_public client_tp))) (sgk_public cluster)
            = Ok (a, AuthDetails_from (AuthHeader_new (NodeId_from_u32 2) None (tk_public server_tp)))"
      "accept lb (Some d) server_stream (tk_private server_tp)
            (credential lb (sgk_private cluster) (AuthHeader_new (NodeId_from_u32 2) None (tk_public server_tp))) (sgk_public cluster)
            = Ok (b, AuthDetails_from (AuthHeader_new (NodeId_from_u32 1) None (tk_public client_tp)))"
      "connected nt sync hw hp ha n n a b [] []" by blast
    obtain ta txa rxa where a: "a = (ta, txa, rxa)" by (cases a)
    have "try_connect lb (Some d) (Ok client_stream) (NodeId_from_u32 2) (peer_credentials lb cluster client_tp 1) = Ok a"
      using c(1) by (simp add: try_connect_def peer_credentials_def credential_def a check_node_id_def AuthDetails_from_def AuthHeader_new_def)
    with c(2,3) show "\<exists>pool link server client. make_pool_and_server lb (Some d) cluster client_tp server_tp client_stream server_stream
           = Some (pool, link, server)
         \<and> reuses pool \<and> link_up link client \<and> connected nt sync hw hp ha n n client server [] []"
      by (intro exI [of _ b] exI [of _ a] exI)
        (auto simp: make_pool_and_server_def peer_def peer_link_new_def pool_new_def Let_def peer_credentials_def credential_def
          reuses_def task_now_def link_new_def link_up_def)
  qed
qed

end
