(* ===== verification/Round_Trip.thy ===== *)
theory Round_Trip
  imports Message_Tests
begin

text \<open>
  What the benchmarks of \<open>benches/transport.rs\<close> repeat: a message to the peer and its echo back, over a
  duplex stream with both ends in one task, and with an echo server in a task of its own. Every
  iteration gets its payload back, for any number of iterations the nonces allow.
\<close>

section \<open>The iterations\<close>

definition node_creds where
  "node_creds lb cluster kp node_id =
     (kp, auth_sign (lb_yatlv lb) (lb_ed25519 lb) (AuthHeader_new (NodeId_from_u32 node_id) None (tk_public kp)) (sgk_private cluster))"

text \<open>The connection the benchmarks make first; \<open>None\<close> where \<open>unwrap\<close> panics.\<close>

definition bench_connect where
  "bench_connect lb took cluster client_kp server_kp cs ss =
     (let (c_kp, c_auth) = node_creds lb cluster client_kp 1; (s_kp, s_auth) = node_creds lb cluster server_kp 2
      in case (connect lb took cs (tk_private c_kp) c_auth (sgk_public cluster),
               accept lb took ss (tk_private s_kp) s_auth (sgk_public cluster)) of
           (Ok (client, _), Ok (server, _)) \<Rightarrow> Some (client, server)
         | _ \<Rightarrow> None)"

text \<open>One iteration over the duplex stream; \<open>k\<close> is the rest of the run, with the bytes that came back.\<close>

definition duplex_round_trip where
  "duplex_round_trip nt pl client server k =
     unwrap (tx_send nt client 1 pl) (\<lambda>_ client.
     unwrap (rx_message nt client server) (\<lambda>msg server.
     unwrap_io (rx_bytes nt msg server) (\<lambda>owned server.
     unwrap (tx_send nt server 1 owned) (\<lambda>_ server.
     unwrap (rx_message nt server client) (\<lambda>msg client.
     unwrap_io (rx_bytes nt msg client) (\<lambda>bytes client. k bytes client server))))))"

text \<open>One turn of the echo server: the server after the turn, or \<open>None\<close> when it leaves its loop.\<close>

definition echo_turn :: "('t, 'w, 'r) network \<Rightarrow> ('t, 'w, 'r) endpoint \<Rightarrow> ('t, 'w, 'r) endpoint \<Rightarrow> ('t, 'w, 'r) endpoint option" where
  "echo_turn nt client server =
     (case rx_message nt client server of
        (Err _, _) \<Rightarrow> None
      | (Ok msg, server) \<Rightarrow>
          (case rx_bytes nt msg server of
             Some (Return (Ok owned), server) \<Rightarrow>
               (case tx_send nt server 1 owned of
                  (Err _, _) \<Rightarrow> None
                | (Ok _, server) \<Rightarrow> Some server)
           | _ \<Rightarrow> None))"

definition tcp_round_trip where
  "tcp_round_trip nt pl client server k =
     unwrap (tx_send nt client 1 pl) (\<lambda>_ client.
     case echo_turn nt client server of
       None \<Rightarrow> False
     | Some server \<Rightarrow>
         unwrap (rx_message nt server client) (\<lambda>msg client.
         unwrap_io (rx_bytes nt msg client) (\<lambda>bytes client. k bytes client server)))"

text \<open>\<open>b.iter\<close>: the iterations of a benchmark, each with its payload, all of which come back.\<close>

fun iterations where
  "iterations rt nt [] client server = True"
| "iterations rt nt (pl # pls) client server =
     rt nt pl client server (\<lambda>bytes client server. bytes = pl \<and> iterations rt nt pls client server)"

section \<open>Every payload comes back\<close>

lemma duplex_round_trip_ok:
  assumes laws: "network_laws nt sync written pending arrived"
    and fl: "connected nt sync written pending arrived (length (packets_of 1 pl) + n) (length (packets_of 1 pl) + m) client server [] []"
    and k: "\<And>client server. connected nt sync written pending arrived n m client server [] [] \<Longrightarrow> k pl client server"
  shows "duplex_round_trip nt pl client server k"
  by (rule answered_ok [OF laws _ _ fl]) (use k in \<open>simp_all add: TYPE_MASK_def duplex_round_trip_def\<close>)

lemma tcp_round_trip_ok:
  assumes laws: "network_laws nt sync written pending arrived"
    and fl: "connected nt sync written pending arrived (length (packets_of 1 pl) + n) (length (packets_of 1 pl) + m) client server [] []"
    and k: "\<And>client server. connected nt sync written pending arrived n m client server [] [] \<Longrightarrow> k pl client server"
  shows "tcp_round_trip nt pl client server k"
  by (rule answered_ok [OF laws _ _ fl]) (use k in \<open>simp_all add: TYPE_MASK_def tcp_round_trip_def echo_turn_def\<close>)

text \<open>The number of packets of the payloads, in each direction.\<close>

abbreviation packets_for :: "bytes list \<Rightarrow> nat" where
  "packets_for pls \<equiv> length (concat (map (packets_of 1) pls))"

lemma iterations_ok:
  assumes step: "\<And>pl n m client server k.
      connected nt sync written pending arrived (length (packets_of 1 pl) + n) (length (packets_of 1 pl) + m) client server [] [] \<Longrightarrow>
      (\<And>client server. connected nt sync written pending arrived n m client server [] [] \<Longrightarrow> k pl client server) \<Longrightarrow>
      rt nt pl client server k"
  shows "connected nt sync written pending arrived (packets_for pls + n) (packets_for pls + m) client server [] [] \<Longrightarrow>
    iterations rt nt pls client server"
proof (induction pls arbitrary: client server)
  case (Cons pl pls)
  have "connected nt sync written pending arrived (length (packets_of 1 pl) + (packets_for pls + n))
      (length (packets_of 1 pl) + (packets_for pls + m)) client server [] []"
    using Cons.prems by (simp add: add.assoc)
  then have "rt nt pl client server (\<lambda>bytes client server. bytes = pl \<and> iterations rt nt pls client server)"
    by (rule step) (simp add: Cons.IH)
  then show ?case by simp
qed simp

lemma duplex_benchmark_ok:
  assumes "network_laws nt sync written pending arrived"
    "connected nt sync written pending arrived (packets_for pls + n) (packets_for pls + m) client server [] []"
  shows "iterations duplex_round_trip nt pls client server"
  by (rule iterations_ok [OF _ assms(2)]) (rule duplex_round_trip_ok [OF assms(1)])

lemma tcp_benchmark_ok:
  assumes "network_laws nt sync written pending arrived"
    "connected nt sync written pending arrived (packets_for pls + n) (packets_for pls + m) client server [] []"
  shows "iterations tcp_round_trip nt pls client server"
  by (rule iterations_ok [OF _ assms(2)]) (rule tcp_round_trip_ok [OF assms(1)])

text \<open>A benchmark from its set-up: the connection is made, and then every payload comes back.\<close>

lemma bench_round_trip_ok:
  assumes laws: "session_laws lb nt public pair sync pending written arrived hp hw ha"
    and key: "key_pair (lb_ed25519 lb) (sgk_private cluster) (sgk_public cluster)"
    and nodes: "node_ok lb public (sgk_private cluster) (tk_private ck) (AuthHeader_new (NodeId_from_u32 1) None (tk_public ck))"
      "node_ok lb public (sgk_private cluster) (tk_private sk) (AuthHeader_new (NodeId_from_u32 2) None (tk_public sk))"
    and time: "d \<le> HANDSHAKE_TIMEOUT" and n: "packets_for pls < 2 ^ 64"
  shows "\<exists>towards_client towards_server. \<forall>cs ss. fresh_stream pending written arrived cs towards_client \<longrightarrow>
    fresh_stream pending written arrived ss towards_server \<longrightarrow>
    (\<exists>client server. bench_connect lb (Some d) cluster ck sk cs ss = Some (client, server)
       \<and> iterations duplex_round_trip nt pls client server \<and> iterations tcp_round_trip nt pls client server)"
proof (rule session_connected [OF laws key nodes time time n])
  have nl: "network_laws nt sync hw hp ha" using laws by (simp add: session_laws_def)
  fix towards_client towards_server
  assume con: "\<forall>cs ss. fresh_stream pending written arrived cs towards_client \<longrightarrow> fresh_stream pending written arrived ss towards_server \<longrightarrow>
      (\<exists>a b. connect lb (Some d) cs (tk_private ck)
            (credential lb (sgk_private cluster) (AuthHeader_new (NodeId_from_u32 1) None (tk_public ck))) (sgk_public cluster)
            = Ok (a, AuthDetails_from (AuthHeader_new (NodeId_from_u32 2) None (tk_public sk)))
         \<and> accept lb (Some d) ss (tk_private sk)
            (credential lb (sgk_private cluster) (AuthHeader_new (NodeId_from_u32 2) None (tk_public sk))) (sgk_public cluster)
            = Ok (b, AuthDetails_from (AuthHeader_new (NodeId_from_u32 1) None (tk_public ck)))
         \<and> connected nt sync hw hp ha (packets_for pls) (packets_for pls) a b [] [])"
  show ?thesis
  proof (rule exI [of _ towards_client], rule exI [of _ towards_server], intro allI impI)
    fix cs ss assume "fresh_stream pending written arrived cs towards_client" "fresh_stream pending written arrived ss towards_server"
    with con obtain a b where ab: "connect lb (Some d) cs (tk_private ck)
            (credential lb (sgk_private cluster) (AuthHeader_new (NodeId_from_u32 1) None (tk_public ck))) (sgk_public cluster)
            = Ok (a, AuthDetails_from (AuthHeader_new (NodeId_from_u32 2) None (tk_public sk)))"
        "accept lb (Some d) ss (tk_private sk)
            (credential lb (sgk_private cluster) (AuthHeader_new (NodeId_from_u32 2) None (tk_public sk))) (sgk_public cluster)
            = Ok (b, AuthDetails_from (AuthHeader_new (NodeId_from_u32 1) None (tk_public ck)))"
        "connected nt sync hw hp ha (packets_for pls + 0) (packets_for pls + 0) a b [] []" unfolding add_0_right by meson
    have "bench_connect lb (Some d) cluster ck sk cs ss = Some (a, b)"
      using ab(1,2) by (simp add: bench_connect_def node_creds_def credential_def)
    with duplex_benchmark_ok [OF nl ab(3)] tcp_benchmark_ok [OF nl ab(3)]
    show "\<exists>client server. bench_connect lb (Some d) cluster ck sk cs ss = Some (client, server)
       \<and> iterations duplex_round_trip nt pls client server \<and> iterations tcp_round_trip nt pls client server" by blast
  qed
qed

end
