(* ===== verification/Forgery_Tests.thy ===== *)
theory Forgery_Tests
  imports Credential_Tests
begin

text \<open>
  The unit tests of \<open>src/sign.rs\<close>, \<open>src/auth.rs\<close> and \<open>src/noise.rs\<close> that hold with overwhelming probability
  only: a record is refused under a freshly drawn other key and after a flipped bit, and two draws of a
  key generator differ. The draws are arguments. Each test is shown to pass for all draws and libraries
  for which the signature library does not verify the one altered signature of the test, or the draws
  differ; \<open>sig_parses\<close> is the documented behaviour of \<open>Signature::from_slice\<close>, which looks at the length
  only.
\<close>

unbundle bit_operations_syntax

section \<open>The tests\<close>

text \<open>\<open>bs[0] ^= 0xFF\<close> and \<open>*bs.last_mut().unwrap() ^= 0xFF\<close>.\<close>

definition flip_first :: "bytes \<Rightarrow> bytes" where
  "flip_first bs = bs[0 := bs ! 0 XOR 0xFF]"

definition flip_last :: "bytes \<Rightarrow> bytes" where
  "flip_last bs = bs[length bs - 1 := last bs XOR 0xFF]"

definition generate_produces_distinct_keypairs :: "('sk, 'vk, 'sg) ed25519_lib \<Rightarrow> 'sk \<Rightarrow> 'sk \<Rightarrow> bool" where
  "generate_produces_distinct_keypairs ed fresh fresh' =
     keypair ed fresh (\<lambda>a. keypair ed fresh' (\<lambda>b. svk_as_bytes ed (sgk_public a) \<noteq> svk_as_bytes ed (sgk_public b)))"

definition verify_payload_rejects_wrong_key :: "('sk, 'vk, 'sg) ed25519_lib \<Rightarrow> 'sk \<Rightarrow> 'sk \<Rightarrow> bool" where
  "verify_payload_rejects_wrong_key ed fresh fresh' =
     keypair ed fresh (\<lambda>signer. keypair ed fresh' (\<lambda>other.
       let signed = sign ed (sgk_private signer) (ascii ''data'') in
       verify_payload ed (sgk_public other) signed = Err BadSignature))"

definition verify_payload_rejects_payload_bit_flip :: "('sk, 'vk, 'sg) ed25519_lib \<Rightarrow> 'sk \<Rightarrow> bool" where
  "verify_payload_rejects_payload_bit_flip ed fresh =
     keypair ed fresh (\<lambda>kp.
       let signed = flip_first (sign ed (sgk_private kp) (ascii ''flip'')) in
       verify_payload ed (sgk_public kp) signed = Err BadSignature)"

definition verify_payload_rejects_signature_bit_flip :: "('sk, 'vk, 'sg) ed25519_lib \<Rightarrow> 'sk \<Rightarrow> bool" where
  "verify_payload_rejects_signature_bit_flip ed fresh =
     keypair ed fresh (\<lambda>kp.
       let signed = flip_last (sign ed (sgk_private kp) (ascii ''flipsig'')) in
       verify_payload ed (sgk_public kp) signed = Err BadSignature)"

definition verify_rejects_wrong_cluster_key :: "('fb, 'fp) yatlv_lib \<Rightarrow> ('sk, 'vk, 'sg) ed25519_lib \<Rightarrow> 'sk \<Rightarrow> 'sk \<Rightarrow> bool" where
  "verify_rejects_wrong_cluster_key y ed fresh fresh' =
     signed y ed fresh 1 (\<lambda>_ sah. keypair ed fresh' (\<lambda>other_kp.
       verify y ed sah (sgk_public other_kp) = Err (Signature BadSignature)))"

definition verify_raw_rejects_payload_bit_flip :: "('fb, 'fp) yatlv_lib \<Rightarrow> ('sk, 'vk, 'sg) ed25519_lib \<Rightarrow> 'sk \<Rightarrow> bool" where
  "verify_raw_rejects_payload_bit_flip y ed fresh =
     signed y ed fresh 1 (\<lambda>kp sah.
       let raw = flip_first (sah_expose sah) in verify_raw y ed (sgk_public kp) raw = Err (Signature BadSignature))"

definition verify_raw_rejects_signature_bit_flip :: "('fb, 'fp) yatlv_lib \<Rightarrow> ('sk, 'vk, 'sg) ed25519_lib \<Rightarrow> 'sk \<Rightarrow> bool" where
  "verify_raw_rejects_signature_bit_flip y ed fresh =
     signed y ed fresh 1 (\<lambda>kp sah.
       let raw = flip_last (sah_expose sah) in verify_raw y ed (sgk_public kp) raw = Err (Signature BadSignature))"

definition transport_generate_produces_distinct_keypairs ::
    "(bytes \<times> bytes, string) result \<Rightarrow> (bytes \<times> bytes, string) result \<Rightarrow> bool" where
  "transport_generate_produces_distinct_keypairs drawn drawn' =
     expecting (transport_generate drawn) (\<lambda>a. expecting (transport_generate drawn') (\<lambda>b.
       tpub_as_bytes (tk_public a) \<noteq> tpub_as_bytes (tk_public b)))"

definition generate_produces_non_zero_keys :: "(bytes \<times> bytes, string) result \<Rightarrow> bool" where
  "generate_produces_non_zero_keys drawn =
     expecting (transport_generate drawn) (\<lambda>kp.
       tpub_as_bytes (tk_public kp) \<noteq> replicate 32 0 \<and> tpriv_expose (tk_private kp) \<noteq> replicate 32 0)"

section \<open>Altered records\<close>

definition sig_parses :: "('sk, 'vk, 'sg) ed25519_lib \<Rightarrow> bool" where
  "sig_parses ed \<longleftrightarrow> (\<forall>bs. length bs = 64 \<longrightarrow> sig_from_slice ed bs \<noteq> None)"

lemma flip_first_append: "xs \<noteq> [] \<Longrightarrow> flip_first (xs @ ys) = flip_first xs @ ys"
  by (cases xs) (simp_all add: flip_first_def)

lemma flip_last_append: "ys \<noteq> [] \<Longrightarrow> flip_last (xs @ ys) = xs @ flip_last ys"
  by (cases ys rule: rev_cases) (simp_all add: flip_last_def list_update_append)

lemma length_flip [simp]: "length (flip_first xs) = length xs" "length (flip_last xs) = length xs"
  by (simp_all add: flip_first_def flip_last_def)

lemma record_refused:
  assumes "length sg = 64" "sig_from_slice ed sg = Some g" "\<not> vk_verify_strict ed v p g"
  shows "verify_payload ed (SignatureVerificationKey v) (p @ sg) = Err BadSignature"
  using assms by (simp only: verify_payload_cases) simp

text \<open>The record of a key: its payload, then its signature. When a signature does not verify for an
  altered payload or under another key, the record is refused; so is one with an altered signature.\<close>

lemma altered_payload_refused:
  assumes "ed25519_laws ed" "\<not> vk_verify_strict ed v p' (sk_sign ed s p)"
  shows "verify_payload ed (SignatureVerificationKey v) (p' @ sig_to_bytes ed (sk_sign ed s p)) = Err BadSignature"
  by (rule record_refused) (use assms in \<open>simp_all add: ed25519_laws_def\<close>)

lemma altered_signature_refused:
  assumes "sig_parses ed" "length sg = 64" "\<forall>g. sig_from_slice ed sg = Some g \<longrightarrow> \<not> vk_verify_strict ed v p g"
  shows "verify_payload ed (SignatureVerificationKey v) (p @ sg) = Err BadSignature"
proof -
  from assms(1,2) obtain g where "sig_from_slice ed sg = Some g" unfolding sig_parses_def by blast
  with assms(2,3) show ?thesis by (intro record_refused) simp_all
qed

lemma drawn_pair:
  assumes "ed25519_laws ed"
  shows "keypair ed fresh k = k \<lparr>sgk_public = SignatureVerificationKey (sk_verifying_key ed fresh),
      sgk_private = SignatureSigningKey (sk_to_bytes ed fresh)\<rparr>"
    "sign ed (SignatureSigningKey (sk_to_bytes ed fresh)) p = p @ sig_to_bytes ed (sk_sign ed fresh p)"
  using assms
  by (simp_all add: keypair_def signature_generate_def svk_try_from_array_def sign_def ed25519_laws_def Let_def)

section \<open>Results\<close>

text \<open>The signatures the tests alter: that of \<open>p\<close> with its last byte flipped.\<close>

abbreviation flipped_sig :: "('sk, 'vk, 'sg) ed25519_lib \<Rightarrow> 'sk \<Rightarrow> bytes \<Rightarrow> bytes" where
  "flipped_sig ed s p \<equiv> flip_last (sig_to_bytes ed (sk_sign ed s p))"

lemma signature_forgery_tests:
  assumes ed: "ed25519_laws ed"
  shows "sk_verifying_key ed fresh \<noteq> sk_verifying_key ed fresh' \<Longrightarrow> generate_produces_distinct_keypairs ed fresh fresh'"
    and "\<not> vk_verify_strict ed (sk_verifying_key ed fresh') (ascii ''data'') (sk_sign ed fresh (ascii ''data'')) \<Longrightarrow>
      verify_payload_rejects_wrong_key ed fresh fresh'"
    and "\<not> vk_verify_strict ed (sk_verifying_key ed fresh) (flip_first (ascii ''flip'')) (sk_sign ed fresh (ascii ''flip'')) \<Longrightarrow>
      verify_payload_rejects_payload_bit_flip ed fresh"
    and "sig_parses ed \<Longrightarrow> \<forall>g. sig_from_slice ed (flipped_sig ed fresh (ascii ''flipsig'')) = Some g \<longrightarrow>
        \<not> vk_verify_strict ed (sk_verifying_key ed fresh) (ascii ''flipsig'') g \<Longrightarrow>
      verify_payload_rejects_signature_bit_flip ed fresh"
proof -
  note draw = drawn_pair [OF ed]
  have sg: "length (sig_to_bytes ed g) = 64" "sig_to_bytes ed g \<noteq> []" for g
    using ed by (auto simp: ed25519_laws_def) (metis length_0_conv zero_neq_numeral)
  have flip: "ascii ''flip'' \<noteq> []" by (simp add: ascii_def)
  show "generate_produces_distinct_keypairs ed fresh fresh'" if "sk_verifying_key ed fresh \<noteq> sk_verifying_key ed fresh'"
    using that ed by (simp add: generate_produces_distinct_keypairs_def draw ed25519_laws_def) (metis option.inject)
  show "verify_payload_rejects_wrong_key ed fresh fresh'"
    if "\<not> vk_verify_strict ed (sk_verifying_key ed fresh') (ascii ''data'') (sk_sign ed fresh (ascii ''data''))"
    using altered_payload_refused [OF ed that] by (simp add: verify_payload_rejects_wrong_key_def draw del: verify_payload.simps)
  show "verify_payload_rejects_payload_bit_flip ed fresh"
    if "\<not> vk_verify_strict ed (sk_verifying_key ed fresh) (flip_first (ascii ''flip'')) (sk_sign ed fresh (ascii ''flip''))"
    using altered_payload_refused [OF ed that]
    by (simp add: verify_payload_rejects_payload_bit_flip_def draw flip_first_append [OF flip] del: verify_payload.simps)
  show "verify_payload_rejects_signature_bit_flip ed fresh"
    if "sig_parses ed" "\<forall>g. sig_from_slice ed (flipped_sig ed fresh (ascii ''flipsig'')) = Some g \<longrightarrow>
        \<not> vk_verify_strict ed (sk_verifying_key ed fresh) (ascii ''flipsig'') g"
    using altered_signature_refused [OF that(1) _ that(2)]
    by (simp add: verify_payload_rejects_signature_bit_flip_def draw flip_last_append sg del: verify_payload.simps)
qed

lemma credential_forgery_tests:
  assumes ed: "ed25519_laws ed" and p: "p = to_yatlv y (auth_header 1)"
  shows "\<not> vk_verify_strict ed (sk_verifying_key ed fresh') p (sk_sign ed fresh p) \<Longrightarrow>
      verify_rejects_wrong_cluster_key y ed fresh fresh'"
    and "p \<noteq> [] \<Longrightarrow> \<not> vk_verify_strict ed (sk_verifying_key ed fresh) (flip_first p) (sk_sign ed fresh p) \<Longrightarrow>
      verify_raw_rejects_payload_bit_flip y ed fresh"
    and "sig_parses ed \<Longrightarrow> \<forall>g. sig_from_slice ed (flipped_sig ed fresh p) = Some g \<longrightarrow>
        \<not> vk_verify_strict ed (sk_verifying_key ed fresh) p g \<Longrightarrow>
      verify_raw_rejects_signature_bit_flip y ed fresh"
proof -
  note draw = drawn_pair [OF ed]
  have sg: "length (sig_to_bytes ed g) = 64" "sig_to_bytes ed g \<noteq> []" for g
    using ed by (auto simp: ed25519_laws_def) (metis length_0_conv zero_neq_numeral)
  have rec: "sah_expose (auth_sign y ed (auth_header 1) (SignatureSigningKey (sk_to_bytes ed fresh)))
      = p @ sig_to_bytes ed (sk_sign ed fresh p)"
    by (simp add: auth_sign_def draw p Let_def)
  show "verify_rejects_wrong_cluster_key y ed fresh fresh'"
    if "\<not> vk_verify_strict ed (sk_verifying_key ed fresh') p (sk_sign ed fresh p)"
    using altered_payload_refused [OF ed that]
    by (simp add: verify_rejects_wrong_cluster_key_def signed_def draw verify_def verify_raw_def rec Let_def del: verify_payload.simps)
  show "verify_raw_rejects_payload_bit_flip y ed fresh"
    if "p \<noteq> []" "\<not> vk_verify_strict ed (sk_verifying_key ed fresh) (flip_first p) (sk_sign ed fresh p)"
    using altered_payload_refused [OF ed that(2)] that(1)
    by (simp add: verify_raw_rejects_payload_bit_flip_def signed_def draw verify_raw_def rec flip_first_append Let_def
        del: verify_payload.simps)
  show "verify_raw_rejects_signature_bit_flip y ed fresh"
    if "sig_parses ed" "\<forall>g. sig_from_slice ed (flipped_sig ed fresh p) = Some g \<longrightarrow>
        \<not> vk_verify_strict ed (sk_verifying_key ed fresh) p g"
    using altered_signature_refused [OF that(1) _ that(2)]
    by (simp add: verify_raw_rejects_signature_bit_flip_def signed_def draw verify_raw_def rec flip_last_append sg Let_def
        del: verify_payload.simps)
qed

lemma transport_draw_tests:
  assumes "drawn = Ok (pub, priv)" "drawn' = Ok (pub', priv')" "list_all (\<lambda>k. length k = 32) [pub, priv, pub', priv']"
  shows "pub \<noteq> pub' \<Longrightarrow> transport_generate_produces_distinct_keypairs drawn drawn'"
    and "pub \<noteq> replicate 32 0 \<Longrightarrow> priv \<noteq> replicate 32 0 \<Longrightarrow> generate_produces_non_zero_keys drawn"
  using assms(3)
  by (simp_all add: assms(1,2) transport_generate_produces_distinct_keypairs_def generate_produces_non_zero_keys_def
      transport_generate_def try_into_array32_def)

end
