(* ===== verification/Tampering.thy ===== *)
theory Tampering
  imports Delivery "HOL-Library.Sublist"
begin

text \<open>
  A connection over a network that does what it likes: the stream of the receiver may yield any bytes,
  and the stream of the sender may fail at any point. Nothing is assumed of the streams. What is assumed
  of \<open>snow\<close> is the integrity of the transport messages: \<open>seal_log\<close> names the plaintexts a cipher state has
  sealed, and \<open>opens_only\<close> says that the plaintext number \<open>i\<close> a receiver opens is the plaintext number \<open>i\<close>
  its peer has sealed, and that a message that does not open leaves the receiving nonce alone.

  The locale \<open>genuine_source\<close> is the interface of the message layer with such a receiver: a packet that
  is read is the next packet that was sealed. The messages received are then the first messages sent.
\<close>

section \<open>Integrity of the transport messages\<close>

definition seal_log :: "'t transport_lib \<Rightarrow> ('t \<Rightarrow> bytes list) \<Rightarrow> bool" where
  "seal_log tp sealed \<longleftrightarrow>
     (\<forall>t plain buf n buf' t'. ts_write_message tp t plain buf = (Ok n, buf', t') \<longrightarrow> sealed t' = sealed t @ [plain])
   \<and> (\<forall>t plain buf e buf' t'. ts_write_message tp t plain buf = (Err e, buf', t') \<longrightarrow> sealed t' = sealed t)"

definition opens_only :: "'t transport_lib \<Rightarrow> ('t \<Rightarrow> nat) \<Rightarrow> bytes list \<Rightarrow> bool" where
  "opens_only tp nonce log \<longleftrightarrow>
     (\<forall>t ct buf n buf' t'. ts_read_message tp t ct buf = (Ok n, buf', t') \<longrightarrow>
        nonce t < length log \<and> take n buf' = log ! nonce t \<and> nonce t' = Suc (nonce t))
   \<and> (\<forall>t ct buf e buf' t'. ts_read_message tp t ct buf = (Err e, buf', t') \<longrightarrow> nonce t' = nonce t)"

section \<open>What the sender has sealed\<close>

lemma encrypt_and_write_logged:
  assumes "seal_log tp sealed" "encrypt_and_write sw tp (t, tx) plain = (r, t', tx')"
  shows "tx_packet_builder tx' = tx_packet_builder tx
    \<and> (sealed t' = sealed t @ [plain] \<or> sealed t' = sealed t \<and> r \<noteq> Ok ())"
  using assms unfolding seal_log_def
  by (auto simp: encrypt_and_write_def write_frame_def Let_def split: prod.splits result.splits)

lemma send_packet_logged:
  assumes "seal_log tp sealed" "pack (tx_packet_builder (snd s)) p l = (Ok raw, b')" "send_packet sw tp s p l = (r, s')"
  shows "tx_packet_builder (snd s') = b' \<and> (sealed (fst s') = sealed (fst s) @ [raw] \<or> sealed (fst s') = sealed (fst s) \<and> r \<noteq> Ok ())"
  using assms(2,3) encrypt_and_write_logged [OF assms(1)]
  by (cases s; cases s') (fastforce simp: send_packet_def)

lemma send_plan_logged:
  assumes "seal_log tp sealed"
  shows "pack_all pack (tx_packet_builder (snd s)) plan = (Ok raws, b') \<Longrightarrow> send_plan sw tp s plan = (r, s') \<Longrightarrow>
    \<exists>raws'. sealed (fst s') = sealed (fst s) @ raws' \<and> prefix raws' raws
      \<and> (r = Ok () \<longrightarrow> raws' = raws \<and> tx_packet_builder (snd s') = b')"
proof (induction plan arbitrary: s raws)
  case Nil
  then show ?case by auto
next
  case (Cons piece plan)
  obtain p l where piece: "piece = (p, l)" by force
  from Cons.prems(1) obtain raw raws1 b1 where
    pk: "pack (tx_packet_builder (snd s)) p l = (Ok raw, b1)" "pack_all pack b1 plan = (Ok raws1, b')"
    and raws: "raws = raw # raws1"
    by (auto simp: piece split: prod.splits result.splits)
  obtain r1 s1 where s1: "send_packet sw tp s p l = (r1, s1)" by (metis prod.collapse)
  note log = send_packet_logged [OF assms pk(1) s1]
  show ?case
  proof (cases r1)
    case (Err e)
    with Cons.prems(2) s1 log show ?thesis
      by (auto simp: piece raws send_plan_Cons intro: exI [of _ "[raw]"] exI [of _ "[]"])
  next
    case (Ok u)
    with Cons.prems(2) s1 log have "send_plan sw tp s1 plan = (r, s')" "sealed (fst s1) = sealed (fst s) @ [raw]"
      by (auto simp: piece send_plan_Cons)
    with Cons.IH [of s1 raws1] pk(2) log show ?thesis by (auto simp: raws)
  qed
qed

text \<open>\<open>logged\<close>: whatever the result \<open>r\<close> of a call, what was sealed are the first of the packets \<open>pkts\<close>, and
  all of them if it succeeded. A reader in state \<open>pr\<close> accepts them and is in state \<open>pr'\<close> then.\<close>

definition logged where
  "logged sealed pr pkts s r s' pr' \<longleftrightarrow>
     (\<exists>raws pkts'. sealed (fst s') = sealed (fst s) @ raws
        \<and> read_all read pr raws = (Ok (map fst pkts'), pr') \<and> map (drop 2) raws = map snd pkts'
        \<and> prefix pkts' pkts \<and> (r = Ok () \<longrightarrow> pkts' = pkts))"

lemma logged_append:
  assumes "logged sealed pr pkts s (Ok ()) s1 pr1" "logged sealed pr1 pkts' s1 r s' pr'"
  shows "logged sealed pr (pkts @ pkts') s r s' pr'"
proof -
  from assms(1) obtain raws where raws: "sealed (fst s1) = sealed (fst s) @ raws"
    "read_all read pr raws = (Ok (map fst pkts), pr1)" "map (drop 2) raws = map snd pkts"
    unfolding logged_def by blast
  from assms(2) obtain raws1 pkts1 where raws1: "sealed (fst s') = sealed (fst s1) @ raws1"
    "read_all read pr1 raws1 = (Ok (map fst pkts1), pr')" "map (drop 2) raws1 = map snd pkts1"
    "prefix pkts1 pkts'" "r = Ok () \<longrightarrow> pkts1 = pkts'"
    unfolding logged_def by blast
  show ?thesis unfolding logged_def
    by (intro exI [of _ "raws @ raws1"] exI [of _ "pkts @ pkts1"])
      (use raws raws1 read_all_append [OF raws(2) raws1(2)] in auto)
qed

lemma logged_failed:
  assumes "logged sealed pr pkts s r s' pr'" "r \<noteq> Ok ()"
  shows "logged sealed pr (pkts @ pkts') s r s' pr'"
  using assms unfolding logged_def by (metis prefix_prefix)

lemma read_all_take:
  assumes "read_all rd r raws = (Ok hs, r')"
  shows "\<exists>r1. read_all rd r (take k raws) = (Ok (take k hs), r1)"
  using assms
proof (induction raws arbitrary: r hs k)
  case (Cons raw raws)
  from Cons.prems obtain h hs1 r1 where "rd r raw = (Ok h, r1)" "read_all rd r1 raws = (Ok hs1, r')" "hs = h # hs1"
    by (auto split: prod.splits result.splits)
  with Cons.IH [of r1 hs1 "k - 1"] show ?case by (cases k) auto
qed auto

lemma send_plan_packets_logged:
  assumes laws: "seal_log tp sealed"
    and b: "in_step (tx_packet_builder (snd s)) pr" "builder_opened (tx_packet_builder (snd s)) = Some t"
      "\<not> builder_started (tx_packet_builder (snd s))" "flags_ok (map snd plan)"
    and run: "send_plan sw tp s plan = (r, s')"
  shows "\<exists>pr'. logged sealed pr (plan_packets t plan) s r s' pr'
    \<and> (r = Ok () \<longrightarrow> in_step (tx_packet_builder (snd s')) pr'
        \<and> builder_opened (tx_packet_builder (snd s')) = (if plan \<noteq> [] \<and> snd (last plan) then None else Some t))"
proof -
  from codec.pieces_roundtrip [OF b(1,2,4)] b(3) obtain raws b' pr1 where
    pk: "pack_all pack (tx_packet_builder (snd s)) plan = (Ok raws, b')"
    and rd: "read_all read pr raws = (Ok (map fst (plan_packets t plan)), pr1)"
      "map (drop 2) raws = map snd (plan_packets t plan)" "in_step b' pr1"
      "builder_opened b' = (if plan \<noteq> [] \<and> snd (last plan) then None else Some t)"
    by (auto simp: plan_packets_fst plan_packets_snd)
  from send_plan_logged [OF laws pk run] obtain k where
    k: "sealed (fst s') = sealed (fst s) @ take k raws" "r = Ok () \<longrightarrow> take k raws = raws \<and> tx_packet_builder (snd s') = b'"
    by (metis append_eq_conv_conj prefix_def)
  show ?thesis
  proof (cases "r = Ok ()")
    case True
    with k rd have "logged sealed pr (plan_packets t plan) s r s' pr1"
      unfolding logged_def by (intro exI [of _ raws] exI [of _ "plan_packets t plan"]) simp
    with True k rd show ?thesis by auto
  next
    case False
    from read_all_take [OF rd(1), of k] obtain pr' where
      "read_all read pr (take k raws) = (Ok (map fst (take k (plan_packets t plan))), pr')" by (auto simp: take_map)
    moreover have "map (drop 2) (take k raws) = map snd (take k (plan_packets t plan))"
      using rd(2) by (simp add: take_map [symmetric])
    ultimately have "logged sealed pr (plan_packets t plan) s r s' pr'"
      unfolding logged_def using k(1) False take_is_prefix by blast
    with False show ?thesis by blast
  qed
qed

lemma send_message_logged:
  assumes laws: "seal_log tp sealed"
    and b: "in_step (tx_builder (snd s)) pr" "builder_opened (tx_builder (snd s)) = None" "t \<le> TYPE_MASK"
    and run: "send_message sw tp s t data = (r, s')"
  shows "\<exists>pr'. logged sealed pr (packets_of t data) s r s' pr'
    \<and> (r = Ok () \<longrightarrow> in_step (tx_builder (snd s')) pr' \<and> builder_opened (tx_builder (snd s')) = None)"
proof -
  obtain ts tx where s: "s = (ts, tx)" by force
  have b': "in_step (tx_builder tx) pr" "builder_opened (tx_builder tx) = None" using b by (simp_all add: s)
  from prepare_message_ready [OF b' b(3), of ts] obtain b1 where
    pm: "prepare_message (ts, mt_packets tx) t = (Ok (), ts, (mt_packets tx)\<lparr>tx_packet_builder := b1\<rparr>)"
    and b1: "in_step b1 pr" "builder_opened b1 = Some t" "\<not> builder_started b1" by blast
  let ?s = "(ts, (mt_packets tx)\<lparr>tx_packet_builder := b1\<rparr>)"
  from run pm obtain ts' pk where
    sp: "send_plan sw tp ?s (slice_plan data True) = (r, ts', pk)" and s': "s' = (ts', tx\<lparr>mt_packets := pk\<rparr>)"
    by (auto simp: send_message_def s send_slice_plan split: prod.splits)
  from send_plan_packets_logged [OF laws _ _ _ slice_plan_flags sp, of pr t] b1 obtain pr' where
    "logged sealed pr (packets_of t data) ?s r (ts', pk) pr'"
    "r = Ok () \<longrightarrow> in_step (tx_packet_builder pk) pr' \<and> builder_opened (tx_packet_builder pk) = None"
    unfolding slice_plan_ends packets_of_def by auto
  then show ?thesis by (intro exI [of _ pr']) (simp add: logged_def s s')
qed

lemma send_all_logged:
  assumes laws: "seal_log tp sealed"
  shows "types_ok ms \<Longrightarrow> in_step (tx_builder (snd s)) pr \<Longrightarrow> builder_opened (tx_builder (snd s)) = None \<Longrightarrow>
    send_all sw tp s ms = (r, s') \<Longrightarrow> \<exists>pr'. logged sealed pr (all_packets ms) s r s' pr'"
proof (induction ms arbitrary: s pr)
  case Nil
  then show ?case by (auto simp: logged_def)
next
  case (Cons m ms)
  obtain t data where m: "m = (t, data)" by force
  obtain r1 s1 where s1: "send_message sw tp s t data = (r1, s1)" by (metis prod.collapse)
  have t: "t \<le> TYPE_MASK" "types_ok ms" using Cons.prems(1) by (simp_all add: m)
  from send_message_logged [OF laws Cons.prems(2,3) t(1) s1] obtain pr1 where
    one: "logged sealed pr (packets_of t data) s r1 s1 pr1"
      "r1 = Ok () \<longrightarrow> in_step (tx_builder (snd s1)) pr1 \<and> builder_opened (tx_builder (snd s1)) = None" by blast
  show ?case
  proof (cases r1)
    case (Err e)
    with Cons.prems(4) s1 have "r = r1" "s' = s1" by (simp_all add: m)
    with logged_failed [OF one(1)] Err show ?thesis by (auto simp: m)
  next
    case (Ok u)
    with Cons.prems(4) s1 have "send_all sw tp s1 ms = (r, s')" by (simp add: m)
    with Cons.IH [OF t(2), of s1 pr1] one Ok show ?thesis
      by (auto simp: m intro: logged_append)
  qed
qed

section \<open>The packets a receiver reads are genuine\<close>

text \<open>The interface: a packet that is read is the next packet of \<open>awaiting\<close>.\<close>

locale genuine_source =
  fixes read_packet :: "'s \<Rightarrow> (PacketHeader, ConnectionError) result \<times> 's"
    and payload :: "'s \<Rightarrow> bytes"
    and awaiting :: "'s \<Rightarrow> (PacketHeader \<times> bytes) list \<Rightarrow> bool"
  assumes genuine: "awaiting s pkts \<Longrightarrow> read_packet s = (Ok h, s') \<Longrightarrow>
    \<exists>pkts'. pkts = (h, payload s') # pkts' \<and> awaiting s' pkts'"
begin

lemma loop_genuine:
  assumes "read_bytes_loop read_packet payload s buf = Some y"
  shows "awaiting s pkts \<Longrightarrow> fst y = Return (Ok bs) \<Longrightarrow>
    \<exists>hps h q pkts'. pkts = hps @ (h, q) # pkts' \<and> (\<forall>hp \<in> set hps. ph_kind (fst hp) = Mid) \<and> ph_kind h = Last
      \<and> bs = buf @ concat (map snd hps) @ q \<and> awaiting (fst (snd y)) pkts'"
  using assms
proof (induction arbitrary: pkts rule: read_bytes_loop_induct)
  case (finished s h s1 buf)
  from genuine [OF finished(3,1)] finished(2,4) show ?case
    by (intro exI [of _ "[]"]) auto
next
  case (continued s h s1 buf y)
  from genuine [OF continued.prems(1) continued.hyps(1)] obtain pkts1 where
    p1: "pkts = (h, payload s1) # pkts1" "awaiting s1 pkts1" by blast
  from continued.IH [OF p1(2) continued.prems(2)] obtain hps h' q pkts' where
    "pkts1 = hps @ (h', q) # pkts'" "\<forall>hp \<in> set hps. ph_kind (fst hp) = Mid" "ph_kind h' = Last"
    "bs = (buf @ payload s1) @ concat (map snd hps) @ q" "awaiting (fst (snd y)) pkts'" by blast
  with p1 continued.hyps(2) show ?case by (intro exI [of _ "(h, payload s1) # hps"]) auto
qed auto

end

text \<open>The packets sealed by the peer that the receiver has not opened yet.\<close>

definition awaiting :: "'t transport_lib \<Rightarrow> ('t \<Rightarrow> nat) \<Rightarrow> bytes list \<Rightarrow> 't \<times> 'r PacketRx \<Rightarrow> (PacketHeader \<times> bytes) list \<Rightarrow> bool" where
  "awaiting tp nonce log s pkts \<longleftrightarrow> opens_only tp nonce log
     \<and> (\<exists>pr'. read_all read (rx_packet_reader (snd s)) (drop (nonce (fst s)) log) = (Ok (map fst pkts), pr'))
     \<and> map (drop 2) (drop (nonce (fst s)) log) = map snd pkts"

lemma read_packet_opens:
  assumes "opens_only tp nonce log" "read_packet sr tp s = (Ok h, s')"
  shows "nonce (fst s) < length log \<and> nonce (fst s') = Suc (nonce (fst s))
    \<and> read (rx_packet_reader (snd s)) (log ! nonce (fst s)) = (Ok h, rx_packet_reader (snd s'))
    \<and> payload (snd s') = drop 2 (log ! nonce (fst s))"
proof -
  obtain t rx where s: "s = (t, rx)" by force
  from assms(2) obtain ct buf n buf' t' pr where
    ts: "ts_read_message tp t ct buf = (Ok n, buf', t')" and rd: "read (rx_packet_reader rx) (take n buf') = (Ok h, pr)"
    and s': "fst s' = t'" "rx_packet_reader (snd s') = pr" "rx_payload_end (snd s') = n" "rx_plaintext_buf (snd s') = buf'"
    by (auto simp: s read_packet_def Let_def split: prod.splits result.splits)
  from assms(1) ts have o: "nonce t < length log" "take n buf' = log ! nonce t" "nonce t' = Suc (nonce t)"
    unfolding opens_only_def by blast+
  moreover have "payload (snd s') = drop 2 (take n buf')" by (simp add: payload_def s')
  ultimately show ?thesis using rd by (simp add: s s')
qed

lemma read_packet_genuine:
  assumes "awaiting tp nonce log s pkts" "read_packet sr tp s = (Ok h, s')"
  shows "\<exists>pkts'. pkts = (h, payload (snd s')) # pkts' \<and> awaiting tp nonce log s' pkts'"
proof -
  from assms(1) have "opens_only tp nonce log" by (simp add: awaiting_def)
  note o = read_packet_opens [OF this assms(2)]
  then have "drop (nonce (fst s)) log = log ! nonce (fst s) # drop (nonce (fst s')) log"
    by (simp add: Cons_nth_drop_Suc)
  with assms(1) o show ?thesis
    unfolding awaiting_def by (cases pkts) (auto split: prod.splits result.splits)
qed

interpretation gen: genuine_source "read_packet sr tp" "\<lambda>s. payload (snd s)" "awaiting tp nonce log"
  for sr :: "'r stream_reader" and tp nonce log
  by unfold_locales (rule read_packet_genuine)

section \<open>The messages a receiver gets are genuine\<close>

text \<open>Where the packets of a message end is determined by their kinds.\<close>

lemma mids_match:
  assumes "prefix (hps @ (h, q) # pkts) (map (Pair (hdr t Mid)) ps @ (hdr t Last, q') # rest)"
    and "\<forall>hp \<in> set hps. ph_kind (fst hp) = Mid" "ph_kind h = Last"
  shows "map snd hps = ps \<and> q = q' \<and> prefix pkts rest"
  using assms
proof (induction hps arbitrary: ps)
  case Nil
  then show ?case by (cases ps) auto
next
  case (Cons hp hps)
  then show ?case by (cases ps) auto
qed

lemma receive_genuine:
  assumes aw: "awaiting tp nonce log (rx_half s) pkts" and pre: "prefix pkts (packets_of t data @ rest)"
    and run: "receive sr tp s = Some (Return (Ok m), s')"
  shows "m = (t, data) \<and> (\<exists>pkts'. awaiting tp nonce log (rx_half s') pkts' \<and> prefix pkts' rest)"
proof -
  obtain u rx where s: "s = (u, rx)" by force
  from run obtain h u1 pk where rp: "read_packet sr tp (u, mr_packets rx) = (Ok h, u1, pk)"
    by (auto simp: receive_def read_message_def s split: prod.splits result.splits)
  have "awaiting tp nonce log (u, mr_packets rx) pkts" using aw by (simp add: s)
  from gen.genuine [OF this rp] obtain pkts1 where
    p1: "pkts = (h, payload pk) # pkts1" "awaiting tp nonce log (u1, pk) pkts1" by auto
  show ?thesis
  proof (cases rule: packets_of_cases [of t data])
    case sole
    with pre p1 have "h = hdr t Sole" "payload pk = data" "prefix pkts1 rest" by auto
    with run rp p1(2) show ?thesis
      by (auto simp: receive_def read_message_def read_bytes_def s msg_type_def Let_def)
  next
    case (split p ps q)
    with pre p1 have h: "h = hdr t First" "payload pk = p"
      and pre1: "prefix pkts1 (map (Pair (hdr t Mid)) ps @ (hdr t Last, q) # rest)" by auto
    from run rp h obtain y bs where
      loop: "read_bytes_loop (read_packet sr tp) (\<lambda>s. payload (snd s)) (u1, pk) p = Some y"
      and y: "fst y = Return (Ok bs)" "m = (t, bs)" "rx_half s' = fst (snd y)"
      by (auto simp: receive_def read_message_def read_bytes_def s msg_type_def Let_def
          split: option.splits outcome.splits result.splits prod.splits)
    from gen.loop_genuine [OF loop p1(2) y(1)] obtain hps h' q' pkts' where
      l: "pkts1 = hps @ (h', q') # pkts'" "\<forall>hp \<in> set hps. ph_kind (fst hp) = Mid" "ph_kind h' = Last"
        "bs = p @ concat (map snd hps) @ q'" "awaiting tp nonce log (fst (snd y)) pkts'" by blast
    from mids_match [OF pre1 [unfolded l(1)] l(2,3)] l(4,5) y(2,3) split(2) show ?thesis by auto
  qed
qed

lemma packets_of_not_Nil [simp]: "packets_of t data \<noteq> []"
  by (cases rule: packets_of_cases [of t data]) simp_all

lemma receive_nothing:
  assumes "awaiting tp nonce log (rx_half s) []"
  shows "receive sr tp s \<noteq> Some (Return (Ok m), s')"
proof
  assume run: "receive sr tp s = Some (Return (Ok m), s')"
  obtain u rx where s: "s = (u, rx)" by force
  from run obtain h u1 pk where "read_packet sr tp (u, mr_packets rx) = (Ok h, u1, pk)"
    by (auto simp: receive_def read_message_def s split: prod.splits result.splits)
  with gen.genuine [OF assms] show False by (fastforce simp: s)
qed

lemma receive_all_genuine:
  "awaiting tp nonce log (rx_half s) pkts \<Longrightarrow> prefix pkts (all_packets ms) \<Longrightarrow>
   receive_all sr tp s n = Some (Return (Ok ms'), s') \<Longrightarrow> prefix ms' ms"
proof (induction n arbitrary: s pkts ms ms')
  case (Suc n)
  from Suc.prems(3) obtain m s1 ms1 where
    r: "receive sr tp s = Some (Return (Ok m), s1)" "receive_all sr tp s1 n = Some (Return (Ok ms1), s')" "ms' = m # ms1"
    by (auto split: option.splits outcome.splits result.splits prod.splits)
  show ?case
  proof (cases ms)
    case Nil
    with Suc.prems(1,2) have "awaiting tp nonce log (rx_half s) []" by simp
    with receive_nothing r(1) show ?thesis by blast
  next
    case (Cons m0 ms0)
    obtain t data where m0: "m0 = (t, data)" by force
    have "prefix pkts (packets_of t data @ all_packets ms0)" using Suc.prems(2) by (simp add: Cons m0)
    from receive_genuine [OF Suc.prems(1) this r(1)] obtain pkts' where
      "m = (t, data)" "awaiting tp nonce log (rx_half s1) pkts'" "prefix pkts' (all_packets ms0)" by blast
    with Suc.IH [OF _ _ r(2)] r(3) show ?thesis by (simp add: Cons m0)
  qed
qed auto

section \<open>An instance of the contracts\<close>

text \<open>An ideal cipher: its state is the list of what it has sealed and its receiving nonce, and it opens
  exactly the messages of \<open>log\<close>, in order.\<close>

definition ideal_cipher :: "bytes list \<Rightarrow> (bytes list \<times> nat) transport_lib" where
  "ideal_cipher log =
     \<lparr>ts_write_message = (\<lambda>(sealed, j) plain buf.
        if length buf < length plain + 16 then (Err ''input'', buf, (sealed, j))
        else (Ok (length plain + 16), plain @ replicate 16 0 @ drop (length plain + 16) buf, (sealed @ [plain], j))),
      ts_read_message = (\<lambda>(sealed, j) ct buf.
        if j < length log \<and> ct = log ! j @ replicate 16 0 \<and> length (log ! j) \<le> length buf
        then (Ok (length (log ! j)), log ! j @ drop (length (log ! j)) buf, (sealed, Suc j))
        else (Err ''decrypt'', buf, (sealed, j)))\<rparr>"

lemma ideal_cipher_laws: "seal_log (ideal_cipher log) fst" "opens_only (ideal_cipher log) snd log"
  by (auto simp: seal_log_def opens_only_def ideal_cipher_def split: if_splits)

definition ideal_tx :: "(bytes list \<times> nat) \<times> bytes MessageTx" where
  "ideal_tx = (([], 0), message_tx_new \<lparr>tx_packet_builder = builder_new, tx_write = [], tx_write_buf = []\<rparr>)"

definition ideal_rx :: "bytes \<Rightarrow> (bytes list \<times> nat) \<times> bytes MessageRx" where
  "ideal_rx bs = (([], 0), message_rx_new \<lparr>rx_packet_reader = reader_new, rx_read = bs,
     rx_ciphertext_buf = [], rx_plaintext_buf = [], rx_payload_end = 0\<rparr>)"

section \<open>Property\<close>

text \<open>C3: The network cannot forge, alter, reorder, repeat or skip a message. Let a node send messages over
  a new connection, stopping at the first error, and let its peer receive over any stream at all: the
  messages it gets are the first of the messages that were sent, whole and in order. Nothing is assumed
  of the two streams; of the cipher, that what opens under a nonce is what the peer sealed under it.\<close>

theorem received_messages_genuine:
  assumes "seal_log tp sealed" "opens_only tp nonce (sealed (fst s'))"
    and "sealed (fst s) = []" "tx_builder (snd s) = builder_new" "types_ok ms"
    and "send_all sw tp s ms = (r, s')"
    and "nonce (fst q) = 0" "rx_reader (snd q) = reader_new"
    and "receive_all sr tp q n = Some (Return (Ok ms'), q')"
  shows "prefix ms' ms"
proof -
  have "in_step (tx_builder (snd s)) reader_new" "builder_opened (tx_builder (snd s)) = None"
    unfolding assms(4) by (rule in_step_new, simp add: builder_new_def builder_opened_def)
  from send_all_logged [OF assms(1,5) this assms(6)] obtain raws pkts pr' where
    "sealed (fst s') = raws" "read_all read reader_new raws = (Ok (map fst pkts), pr')"
    "map (drop 2) raws = map snd pkts" "prefix pkts (all_packets ms)"
    using assms(3) unfolding logged_def by auto
  with assms(2,7,8) have "awaiting tp nonce (sealed (fst s')) (rx_half q) pkts" "prefix pkts (all_packets ms)"
    by (auto simp: awaiting_def)
  from receive_all_genuine [OF this assms(9)] show ?thesis .
qed

text \<open>Two messages are sent; the network delivers the first one, and then the first one again.\<close>

definition sample_messages :: "(u16 \<times> bytes) list" where
  "sample_messages = [(1, [10, 20]), (2, [30])]"

definition sample_log :: "bytes list" where
  "sample_log = [u16_to_be_bytes (header_word Sole 1) @ [10, 20], u16_to_be_bytes (header_word Sole 2) @ [30]]"

definition replayed :: bytes where
  "replayed = (let fr = frame_of (sample_log ! 0 @ replicate 16 0) in fr @ fr)"

lemma sample_headers:
  "u16_to_be_bytes (header_word Sole 1) = [0, 1]" "u16_to_be_bytes (header_word Sole 2) = [0, 2]"
  by code_simp+

lemma sample_sent: "fst (fst (snd (send_all list_writer (ideal_cipher sample_log) ideal_tx sample_messages))) = sample_log"
  by (simp add: sample_log_def sample_messages_def ideal_tx_def message_tx_new_def op_defs prepare_message_def prepare_def
      builder_new_def TYPE_MASK_def send_slice_plan slice_plan_def chunks_short size_defs send_packet_def pack_def Let_def
      encrypt_and_write_def write_frame_def list_writer_def ideal_cipher_def)

lemma sample_received:
  "map_option fst (receive_all list_reader (ideal_cipher sample_log) (ideal_rx replayed) 1) = Some (Return (Ok [(1, [10, 20])]))"
proof -
  have "u16_to_be_bytes 20 = [0, 20]" by code_simp
  then have frame: "replayed = [0, 20, 0, 1, 10, 20] @ replicate 16 0 @ [0, 20, 0, 1, 10, 20] @ replicate 16 0"
    by (simp add: replayed_def sample_log_def sample_headers frame_of_def Let_def)
  have rd: "read reader_new [0, 1, 10, 20] = (Ok (hdr 1 Sole), reader_new)" by code_simp
  have len: "u16_from_be_bytes 0 20 = 20" by code_simp
  show ?thesis
    by (simp add: frame sample_log_def sample_headers ideal_rx_def message_rx_new_def receive_def read_message_def read_bytes_def
        read_packet_def read_frame_def list_reader_def ideal_cipher_def len rd vec_resize_def payload_def msg_type_def Let_def)
qed

theorem received_messages_genuine_witness:
  "map_option fst (receive_all list_reader (ideal_cipher sample_log) (ideal_rx replayed) 1) = Some (Return (Ok [(1, [10, 20])]))
   \<and> prefix [(1, [10, 20])] sample_messages"
proof (rule conjI [OF sample_received(1)])
  let ?tp = "ideal_cipher sample_log"
  obtain r s' where run: "send_all list_writer ?tp ideal_tx sample_messages = (r, s')" by (metis prod.collapse)
  with sample_sent have log: "fst (fst s') = sample_log" by simp
  obtain q' where "receive_all list_reader ?tp (ideal_rx replayed) 1 = Some (Return (Ok [(1, [10, 20])]), q')"
    using sample_received(1) by (auto simp: map_option_eq_Some)
  from received_messages_genuine [OF ideal_cipher_laws(1) _ _ _ _ run _ _ this, of snd] log
  show "prefix [(1, [10, 20])] sample_messages"
    by (simp add: ideal_cipher_laws ideal_tx_def ideal_rx_def message_tx_new_def message_rx_new_def
        sample_messages_def TYPE_MASK_def)
qed

end
