(* ===== verification/Buffers.thy ===== *)
theory Buffers
  imports Pool
begin

text \<open>
  How much memory a connection holds. The buffers of the two halves are grown by what the code sends and
  by what it reads, and the peer chooses the length of every frame. Whatever the peer and the streams do,
  and whatever operations the application performs with whatever results, the buffers of the packet layer
  stay within one frame. Of the libraries only the contract of a slice is used: a call that is handed a
  \<open>&mut [u8]\<close> leaves its length unchanged (\<open>slices_kept\<close>).
\<close>

section \<open>Slices keep their length\<close>

definition slices_kept :: "'r stream_reader \<Rightarrow> 't transport_lib \<Rightarrow> 'rd source_reader \<Rightarrow> bool" where
  "slices_kept sr tp rr \<longleftrightarrow>
     (\<forall>r buf. length (fst (snd (sr_read_exact sr r buf))) = length buf)
   \<and> (\<forall>t ct buf. length (fst (snd (ts_read_message tp t ct buf))) = length buf)
   \<and> (\<forall>t plain buf. length (fst (snd (ts_write_message tp t plain buf))) = length buf)
   \<and> (\<forall>rd buf. length (fst (snd (rr rd buf))) = length buf)"

lemma slices_keptD:
  assumes "slices_kept sr tp rr"
  shows "sr_read_exact sr r buf = (res, buf', r') \<Longrightarrow> length buf' = length buf"
    and "ts_read_message tp t ct buf = (n, buf', t') \<Longrightarrow> length buf' = length buf"
    and "ts_write_message tp t plain buf = (n, buf', t') \<Longrightarrow> length buf' = length buf"
    and "rr rd buf = (n, buf', rd') \<Longrightarrow> length buf' = length buf"
  using assms unfolding slices_kept_def by (metis fst_conv snd_conv)+

definition handshake_slices :: "('hs, 't) handshake_lib \<Rightarrow> 's stream_reader \<Rightarrow> bool" where
  "handshake_slices hl sr \<longleftrightarrow>
     (\<forall>r buf. length (fst (snd (sr_read_exact sr r buf))) = length buf)
   \<and> (\<forall>h pl buf. length (fst (snd (hl_write_message hl h pl buf))) = length buf)
   \<and> (\<forall>h m buf. length (fst (snd (hl_read_message hl h m buf))) = length buf)"

lemma handshake_slicesD:
  assumes "handshake_slices hl sr"
  shows "sr_read_exact sr r buf = (res, buf', r') \<Longrightarrow> length buf' = length buf"
    and "hl_write_message hl h pl buf = (n, buf', h') \<Longrightarrow> length buf' = length buf"
    and "hl_read_message hl h m buf = (n, buf', h') \<Longrightarrow> length buf' = length buf"
  using assms unfolding handshake_slices_def by (metis fst_conv snd_conv)+

section \<open>The bounds\<close>

definition tx_fits :: "'w PacketTx \<Rightarrow> bool" where
  "tx_fits tx \<longleftrightarrow> length (tx_write_buf tx) \<le> FRAME_HEADER_SIZE + MAX_CIPHERTEXT_SIZE
     \<and> length (pb_buf (tx_packet_builder tx)) \<le> MAX_RAW_PACKET_SIZE"

definition rx_fits :: "'r PacketRx \<Rightarrow> bool" where
  "rx_fits rx \<longleftrightarrow> length (rx_ciphertext_buf rx) \<le> MAX_CIPHERTEXT_SIZE
     \<and> length (rx_plaintext_buf rx) \<le> FRAME_HEADER_SIZE + MAX_CIPHERTEXT_SIZE"

section \<open>Receiving\<close>

lemma read_frame_fits:
  assumes "\<And>r buf res buf' r'. sr_read_exact sr r buf = (res, buf', r') \<Longrightarrow> length buf' = length buf"
    and "read_frame sr r frame = (res, frame', r')" "length frame \<le> MAX_CIPHERTEXT_SIZE"
  shows "length frame' \<le> MAX_CIPHERTEXT_SIZE"
proof -
  have "unat len \<le> MAX_CIPHERTEXT_SIZE" for len :: u16
  proof -
    have "unat len < 2 ^ LENGTH(16)" by (rule unsigned_less)
    then show ?thesis by (simp add: size_defs)
  qed
  with assms show ?thesis
    by (fastforce simp: read_frame_def split: prod.splits result.splits)
qed

lemma read_packet_fits:
  assumes laws: "slices_kept sr tp rr" and fits: "rx_fits (snd s)" and rp: "read_packet sr tp s = (res, s')"
  shows "rx_fits (snd s')"
proof -
  obtain t rx where s: "s = (t, rx)" by force
  obtain r1 ct rd where fr: "read_frame sr (rx_read rx) (rx_ciphertext_buf rx) = (r1, ct, rd)" by (metis prod_cases3)
  have ct: "length ct \<le> MAX_CIPHERTEXT_SIZE"
    by (rule read_frame_fits [OF slices_keptD(1) [OF laws] fr]) (use fits in \<open>simp_all add: s rx_fits_def\<close>)
  obtain r2 plain t2 where ts: "ts_read_message tp t ct (vec_resize (rx_plaintext_buf rx) (length ct)) = (r2, plain, t2)"
    by (metis prod_cases3)
  from slices_keptD(2) [OF laws ts] have "length plain = length ct" by simp
  moreover have "rx_ciphertext_buf (snd s') = ct \<and> rx_plaintext_buf (snd s') \<in> {rx_plaintext_buf rx, plain}"
    using rp ts by (cases r1; cases r2) (auto simp: s read_packet_def fr Let_def split: prod.splits result.splits)
  ultimately show ?thesis using ct fits by (auto simp: s rx_fits_def)
qed

lemma read_bytes_loop_fits:
  assumes laws: "slices_kept sr tp rr" and "read_bytes_loop (read_packet sr tp) pl s buf = Some y"
  shows "rx_fits (snd s) \<Longrightarrow> rx_fits (snd (fst (snd y)))"
  using assms(2)
proof (induction rule: read_bytes_loop_induct)
  case (continued s h s1 buf y)
  from continued.IH [OF read_packet_fits [OF laws continued.prems continued.hyps(1)]] show ?case .
qed (unfold fst_conv snd_conv, (erule read_packet_fits [OF laws], assumption)+)

lemma read_message_fits:
  assumes "slices_kept sr tp rr" "rx_fits (mr_packets (snd s))" "read_message sr tp s = (res, s')"
  shows "rx_fits (mr_packets (snd s'))"
  using assms(2,3) read_packet_fits [OF assms(1), of "(fst s, mr_packets (snd s))"]
  by (cases s) (fastforce simp: read_message_def split: prod.splits result.splits)

lemma read_bytes_fits:
  assumes "slices_kept sr tp rr" "rx_fits (mr_packets (snd s))" "read_bytes sr tp m s = Some (res, s')"
  shows "rx_fits (mr_packets (snd s'))"
  using assms(2,3) read_bytes_loop_fits [OF assms(1), of _ "(fst s, mr_packets (snd s))"]
  by (cases s) (fastforce simp: read_bytes_def Let_def split: prod.splits option.splits if_splits)

lemma packets_next_fits:
  assumes "slices_kept sr tp rr" "rx_fits (mr_packets (snd s))" "packets_next sr tp mp s = (res, mp', s')"
  shows "rx_fits (mr_packets (snd s'))"
proof -
  obtain t rx where s: "s = (t, rx)" by force
  obtain r t1 pk where rp: "read_packet sr tp (t, mr_packets rx) = (r, t1, pk)" by (metis prod_cases3)
  have "rx_fits pk" using read_packet_fits [OF assms(1) _ rp] assms(2) by (simp add: s)
  with assms(2,3) rp show ?thesis
    by (auto simp: s packets_next_def next_with_def Let_def split: option.splits result.splits PacketKind.splits if_splits)
qed

section \<open>Sending\<close>

lemma encrypt_and_write_fits:
  assumes laws: "slices_kept sr tp rr" and fits: "tx_fits tx" "length plain \<le> MAX_RAW_PACKET_SIZE"
    and ew: "encrypt_and_write sw tp (t, tx) plain = (res, t', tx')"
  shows "tx_fits tx'"
proof -
  let ?frame = "FRAME_HEADER_SIZE + (length plain + CIPHER_OVERHEAD_SIZE)"
  define wb where "wb = (if length (tx_write_buf tx) < ?frame then vec_resize (tx_write_buf tx) ?frame else tx_write_buf tx)"
  have wb: "FRAME_HEADER_SIZE \<le> length wb" "length wb \<le> FRAME_HEADER_SIZE + MAX_CIPHERTEXT_SIZE"
    using fits by (auto simp: wb_def tx_fits_def size_defs)
  obtain n c t1 where ts: "ts_write_message tp t plain (drop FRAME_HEADER_SIZE wb) = (n, c, t1)" by (metis prod_cases3)
  from slices_keptD(3) [OF laws ts] have c: "length c = length wb - FRAME_HEADER_SIZE" by simp
  have "encrypt_and_write sw tp (t, tx) plain =
      (case n of
         Err e \<Rightarrow> (Err (Noise e), t1, tx\<lparr>tx_write_buf := take FRAME_HEADER_SIZE wb @ c\<rparr>)
       | Ok n \<Rightarrow> write_frame sw (t1, tx\<lparr>tx_write_buf := u16_to_be_bytes (of_nat n) @ c\<rparr>)
           (take (FRAME_HEADER_SIZE + n) (u16_to_be_bytes (of_nat n) @ c)))"
    unfolding encrypt_and_write_def Let_def prod.case wb_def [symmetric] ts by simp
  with ew c wb fits(1) show ?thesis
    by (auto simp: write_frame_def tx_fits_def FRAME_HEADER_SIZE_def split: prod.splits result.splits)
qed

lemma send_packet_fits:
  assumes laws: "slices_kept sr tp rr" and fits: "tx_fits (snd s)" "length p \<le> MAX_PACKET_SIZE"
    and sp: "send_packet sw tp s p l = (res, s')"
  shows "tx_fits (snd s')"
proof -
  obtain t tx where s: "s = (t, tx)" by force
  show ?thesis
  proof (cases "pack (tx_packet_builder tx) p l")
    case (Pair r b)
    show ?thesis
    proof (cases r)
      case (Err e)
      with Pair sp fits show ?thesis
        by (auto simp: s send_packet_def pack_def tx_fits_def Let_def split: if_splits)
    next
      case (Ok raw)
      with Pair fits have "length raw \<le> MAX_RAW_PACKET_SIZE" "tx_fits (tx\<lparr>tx_packet_builder := b\<rparr>)"
        by (auto simp: s pack_def tx_fits_def Let_def size_defs split: if_splits)
      moreover have "encrypt_and_write sw tp (t, tx\<lparr>tx_packet_builder := b\<rparr>) raw = (res, s')"
        using sp Pair Ok by (simp add: s send_packet_def)
      ultimately show ?thesis using encrypt_and_write_fits [OF laws] by (metis prod.collapse)
    qed
  qed
qed

lemma send_plan_fits:
  assumes laws: "slices_kept sr tp rr"
  shows "tx_fits (snd s) \<Longrightarrow> room_for plan \<Longrightarrow> send_plan sw tp s plan = (res, s') \<Longrightarrow> tx_fits (snd s')"
proof (induction plan arbitrary: s)
  case (Cons piece plan)
  obtain p l where piece: "piece = (p, l)" by force
  obtain r1 s1 where s1: "send_packet sw tp s p l = (r1, s1)" by (metis prod.collapse)
  have "tx_fits (snd s1)" using send_packet_fits [OF laws Cons.prems(1) _ s1] Cons.prems(2) by (simp add: piece)
  with Cons s1 show ?case by (cases r1) (auto simp: piece send_plan_Cons)
qed auto

lemma prepare_message_fits:
  "tx_fits (snd s) \<Longrightarrow> prepare_message s t = (res, s') \<Longrightarrow> tx_fits (snd s')"
  by (auto simp: prepare_message_def prepare_def tx_fits_def split: prod.splits if_splits)

lemma send_message_fits:
  assumes laws: "slices_kept sr tp rr" and fits: "tx_fits (mt_packets (snd s))"
    and sm: "send_message sw tp s t data = (res, s')"
  shows "tx_fits (mt_packets (snd s'))"
proof -
  obtain ts tx where s: "s = (ts, tx)" by force
  obtain r1 t1 pk where pm: "prepare_message (ts, mt_packets tx) t = (r1, t1, pk)" by (metis prod_cases3)
  have "tx_fits pk" using prepare_message_fits [OF _ pm] fits by (simp add: s)
  moreover obtain r2 t2 pk2 where sp: "send_plan sw tp (t1, pk) (slice_plan data True) = (r2, t2, pk2)" by (metis prod_cases3)
  ultimately have "tx_fits pk2" using send_plan_fits [OF laws _ slice_plan_room sp] by simp
  with \<open>tx_fits pk\<close> sm pm sp show ?thesis by (cases r1) (auto simp: s send_message_def send_slice_plan)
qed

text \<open>One round of the loop of \<open>send_reader\<close>: a full buffer is sent first.\<close>

lemma flush_fits:
  assumes laws: "slices_kept sr tp rr" and fits: "tx_fits (snd s)" "length buf = MAX_PACKET_SIZE"
    and fl: "(if MAX_PACKET_SIZE - filled = 0
       then (case send_packet sw tp s (take filled buf) False of (Err e, s) \<Rightarrow> (Err e, s) | (Ok _, s) \<Rightarrow> (Ok 0, s))
       else (Ok filled, s)) = (r1, s1)"
  shows "tx_fits (snd s1)"
proof -
  obtain r2 s2 where sp: "send_packet sw tp s (take filled buf) False = (r2, s2)" by (metis prod.collapse)
  have "tx_fits (snd s2)" using send_packet_fits [OF laws fits(1) _ sp] fits(2) by simp
  with fl sp fits(1) show ?thesis by (cases r2) (auto split: if_splits)
qed

definition loop_fits where
  "loop_fits y \<longleftrightarrow> tx_fits (snd (fst (snd y))) \<and> (\<forall>buf f sa. fst y = Ok (buf, f, sa) \<longrightarrow> length buf = MAX_PACKET_SIZE)"

lemma round_fits:
  assumes laws: "slices_kept sr tp rr" and fits: "tx_fits (snd s)" "length buf = MAX_PACKET_SIZE"
    and body: "(let space = MAX_PACKET_SIZE - filled
       in case (if space = 0
                then (case send_packet sw tp s (take filled buf) False of (Err e, s) \<Rightarrow> (Err e, s) | (Ok _, s) \<Rightarrow> (Ok 0, s))
                else (Ok filled, s)) of
            (Err e, s) \<Rightarrow> Some (Err e, s, reader)
          | (Ok filled, s) \<Rightarrow>
              (case rr reader (drop filled buf) of
                 (Err e, buf_tail, reader) \<Rightarrow> Some (Err (Io e), s, reader)
               | (Ok n, buf_tail, reader) \<Rightarrow>
                   (let buf = take filled buf @ buf_tail in
                    if n = 0 then Some (Ok (buf, filled, sent_any), s, reader)
                    else f s reader buf (filled + n) True))) = Some y"
    and rest: "\<And>s reader buf filled sent_any. f s reader buf filled sent_any = Some y \<Longrightarrow>
      tx_fits (snd s) \<Longrightarrow> length buf = MAX_PACKET_SIZE \<Longrightarrow> loop_fits y"
  shows "loop_fits y"
proof -
  obtain r1 s1 where fl: "(if MAX_PACKET_SIZE - filled = 0
     then (case send_packet sw tp s (take filled buf) False of (Err e, s) \<Rightarrow> (Err e, s) | (Ok _, s) \<Rightarrow> (Ok 0, s))
     else (Ok filled, s)) = (r1, s1)" by (rule prod.exhaust)
  note s1 = flush_fits [OF laws fits fl]
  show ?thesis
  proof (cases r1)
    case (Err e)
    from body have "y = (Err e, s1, reader)" unfolding Let_def fl Err prod.case result.case by simp
    with s1 show ?thesis by (simp add: loop_fits_def)
  next
    case (Ok k)
    obtain n tail rd where rr: "rr reader (drop k buf) = (n, tail, rd)" by (metis prod_cases3)
    have buf: "length (take k buf @ tail) = MAX_PACKET_SIZE"
      using slices_keptD(4) [OF laws rr] fits(2) by simp
    note body' = body [unfolded Let_def fl Ok prod.case result.case rr]
    show ?thesis
    proof (cases "\<exists>m. n = Ok m \<and> m \<noteq> 0")
      case True
      then obtain m where "f s1 rd (take k buf @ tail) (k + m) True = Some y" using body' by auto
      from rest [OF this s1 buf] show ?thesis .
    next
      case False
      with body' s1 buf show ?thesis by (cases n) (auto simp: loop_fits_def)
    qed
  qed
qed

lemma send_reader_loop_fits:
  assumes laws: "slices_kept sr tp rr" and run: "send_reader_loop sw tp rr s reader buf filled sent_any = Some y"
    and "tx_fits (snd s)" "length buf = MAX_PACKET_SIZE"
  shows "loop_fits y"
proof -
  let ?P = "\<lambda>sw tp' rr' s reader buf filled sent_any y.
    tp' = tp \<and> rr' = rr \<and> tx_fits (snd s) \<and> length buf = MAX_PACKET_SIZE \<longrightarrow> loop_fits y"
  have "?P sw tp rr s reader buf filled sent_any y"
    apply (rule send_reader_loop.raw_induct [where P = ?P])
     apply (intro impI, elim conjE, hypsubst)
    subgoal premises prems for f sw tp' rr' s reader buf filled sent_any y
      by (rule round_fits [where f = "f sw tp rr", OF laws prems(3,4,2)]) (use prems(1) in blast)
    by (rule run)
  with assms(3,4) show ?thesis by blast
qed

lemma send_reader_fits:
  assumes laws: "slices_kept sr tp rr" and fits: "tx_fits (snd s)" and sr: "send_reader sw tp rr s reader = Some ((res, s'), reader')"
  shows "tx_fits (snd s')"
proof -
  from sr obtain r1 s1 rd where
    loop: "send_reader_loop sw tp rr s reader (replicate MAX_PACKET_SIZE 0) 0 False = Some (r1, s1, rd)"
    by (auto simp: send_reader_def split: option.splits)
  from send_reader_loop_fits [OF laws loop fits] have y: "loop_fits (r1, s1, rd)" by simp
  show ?thesis
  proof (cases r1)
    case (Err e)
    with sr loop y show ?thesis by (simp add: send_reader_def loop_fits_def)
  next
    case (Ok v)
    obtain buf f sa where v: "v = (buf, f, sa)" by (metis prod_cases3)
    have pk: "tx_fits (snd s2)" if "send_packet sw tp s1 p True = (r2, s2)" "length p \<le> MAX_PACKET_SIZE" for p r2 s2
      using send_packet_fits [OF laws _ that(2,1)] y by (simp add: loop_fits_def)
    from y Ok v have "length (take f buf) \<le> MAX_PACKET_SIZE" by (simp add: loop_fits_def)
    with sr loop y Ok v pk [of "take f buf" res s'] pk [of "[]" res s'] show ?thesis
      by (auto simp: send_reader_def loop_fits_def split: if_splits)
  qed
qed

lemma message_send_reader_fits:
  assumes laws: "slices_kept sr tp rr" and fits: "tx_fits (mt_packets (snd s))"
    and sr: "message_send_reader sw tp rr s t reader = Some ((res, s'), reader')"
  shows "tx_fits (mt_packets (snd s'))"
proof -
  obtain ts tx where s: "s = (ts, tx)" by force
  obtain r1 t1 pk where pm: "prepare_message (ts, mt_packets tx) t = (r1, t1, pk)" by (metis prod_cases3)
  have "tx_fits pk" using prepare_message_fits [OF _ pm] fits by (simp add: s)
  with sr pm send_reader_fits [OF laws, of "(t1, pk)"] show ?thesis
    by (cases r1) (fastforce simp: s message_send_reader_def split: option.splits)+
qed

lemma message_abort_fits:
  assumes laws: "slices_kept sr tp rr" and fits: "tx_fits (mt_packets (snd s))" and ab: "message_abort sw tp s = (res, s')"
  shows "tx_fits (mt_packets (snd s'))"
proof -
  obtain ts tx where s: "s = (ts, tx)" by force
  obtain r t' pk where am: "abort_message sw tp (ts, mt_packets tx) = (r, t', pk)" by (metis prod_cases3)
  have "tx_fits pk"
  proof (cases "pb_in_progress (tx_builder tx)")
    case True
    let ?raw = "u16_to_be_bytes (header_word Abort (pb_msg_type (tx_builder tx)))"
    let ?tx = "(mt_packets tx)\<lparr>tx_packet_builder := (tx_builder tx)\<lparr>pb_buf := ?raw, pb_in_progress := False, pb_is_first := True\<rparr>\<rparr>"
    have "encrypt_and_write sw tp (ts, ?tx) ?raw = (r, t', pk)"
      using am True by (simp add: abort_message_def abort_def Let_def)
    then show ?thesis
      by (rule encrypt_and_write_fits [OF laws, rotated 2]) (use fits in \<open>simp_all add: s tx_fits_def size_defs\<close>)
  next
    case False
    with am fits show ?thesis by (auto simp: s abort_message_def abort_def)
  qed
  with ab am show ?thesis by (auto simp: s message_abort_def)
qed

section \<open>After the handshake\<close>

definition context_fits :: "('hs, 's) HandshakeContext \<Rightarrow> bool" where
  "context_fits hs \<longleftrightarrow> length (hc_frame hs) \<le> MAX_CIPHERTEXT_SIZE \<and> full_buf (hc_noise_buf hs)"

lemma context_fits_new: "context_fits (new_context h s)"
  by (simp add: context_fits_def new_context_def)

lemma send_context_fits:
  assumes "handshake_slices hl sr" "send hl sw hs pl = (res, hs')"
  shows "context_fits hs \<Longrightarrow> context_fits hs'"
  using assms(2) handshake_slicesD(2) [OF assms(1)]
  by (fastforce simp: send_def context_fits_def Let_def FRAME_HEADER_SIZE_def split: prod.splits result.splits)

lemma recv_context_fits:
  assumes "handshake_slices hl sr" "recv hl sr hs = (res, hs')" "context_fits hs"
  shows "context_fits hs'"
proof -
  obtain r fr st where rf: "read_frame sr (hc_stream hs) (hc_frame hs) = (r, fr, st)" by (metis prod_cases3)
  have "length fr \<le> MAX_CIPHERTEXT_SIZE"
    by (rule read_frame_fits [OF handshake_slicesD(1) [OF assms(1)] rf]) (use assms(3) in \<open>simp_all add: context_fits_def\<close>)
  with assms(2,3) rf handshake_slicesD(3) [OF assms(1)] show ?thesis
    by (fastforce simp: recv_def context_fits_def Let_def split: prod.splits result.splits)
qed

lemma finish_fits:
  "finish lb h hs = (Ok ((t, tx, rx), details), hs') \<Longrightarrow> context_fits hs \<Longrightarrow> tx_fits tx \<and> rx_fits rx"
  by (auto simp: finish_def into_split_def context_fits_def tx_fits_def rx_fits_def builder_new_def Let_def
      split: prod.splits result.splits)

lemma connect_steps_fit:
  assumes laws: "handshake_slices (lb_noise lb) (lb_reader lb)" and hs: "context_fits hs"
    and con: "connect_steps lb cred vk hs = (Ok ((t, tx, rx), details), hs')"
  shows "tx_fits tx \<and> rx_fits rx"
proof -
  from con obtain a1 a2 c1 c2 c3 pl h where
    "send (lb_noise lb) (lb_writer lb) hs [] = (Ok a1, c1)" "recv (lb_noise lb) (lb_reader lb) c1 = (Ok pl, c2)"
    "send (lb_noise lb) (lb_writer lb) c2 (sah_expose cred) = (Ok a2, c3)" "finish lb h c3 = (Ok ((t, tx, rx), details), hs')"
    unfolding connect_steps_def by (elim try_then_OkD) auto
  with hs show ?thesis
    by (metis send_context_fits [OF laws] recv_context_fits [OF laws] finish_fits)
qed

lemma accept_steps_fit:
  assumes laws: "handshake_slices (lb_noise lb) (lb_reader lb)" and hs: "context_fits hs"
    and acc: "accept_steps lb cred vk hs = (Ok ((t, tx, rx), details), hs')"
  shows "tx_fits tx \<and> rx_fits rx"
proof -
  from acc obtain p1 a2 c1 c2 c3 pl h where
    "recv (lb_noise lb) (lb_reader lb) hs = (Ok p1, c1)" "send (lb_noise lb) (lb_writer lb) c1 (sah_expose cred) = (Ok a2, c2)"
    "recv (lb_noise lb) (lb_reader lb) c2 = (Ok pl, c3)" "finish lb h c3 = (Ok ((t, tx, rx), details), hs')"
    unfolding accept_steps_def by (elim try_then_OkD) auto
  with hs show ?thesis
    by (metis send_context_fits [OF laws] recv_context_fits [OF laws] finish_fits)
qed

text \<open>One end of a connection.\<close>

fun buffers_fit :: "'t \<times> 'w MessageTx \<times> 'r MessageRx \<Rightarrow> bool" where
  "buffers_fit (t, tx, rx) \<longleftrightarrow> tx_fits (mt_packets tx) \<and> rx_fits (mr_packets rx)"

lemma connect_fits:
  assumes "handshake_slices (lb_noise lb) (lb_reader lb)" "connect lb took stream priv cred vk = Ok (e, details)"
  shows "buffers_fit e"
proof -
  obtain t tx rx where e: "e = (t, tx, rx)" by (metis prod_cases3)
  from assms(2) obtain h tx' rx' hs' where
    "connect_steps lb cred vk (new_context h stream) = (Ok ((t, tx', rx'), details), hs')"
    "tx = message_tx_new tx'" "rx = message_rx_new rx'"
    by (auto simp: e connect_def packets_connect_def message_halves_Ok with_timeout_Ok new_initiator_def
        split: result.splits) (metis prod.collapse)
  with connect_steps_fit [OF assms(1) context_fits_new] show ?thesis
    by (auto simp: e message_tx_new_def message_rx_new_def)
qed

lemma accept_fits:
  assumes "handshake_slices (lb_noise lb) (lb_reader lb)" "accept lb took stream priv cred vk = Ok (e, details)"
  shows "buffers_fit e"
proof -
  obtain t tx rx where e: "e = (t, tx, rx)" by (metis prod_cases3)
  from assms(2) obtain h tx' rx' hs' where
    "accept_steps lb cred vk (new_context h stream) = (Ok ((t, tx', rx'), details), hs')"
    "tx = message_tx_new tx'" "rx = message_rx_new rx'"
    by (auto simp: e accept_def packets_accept_def message_halves_Ok with_timeout_Ok new_responder_def
        split: result.splits) (metis prod.collapse)
  with accept_steps_fit [OF assms(1) context_fits_new] show ?thesis
    by (auto simp: e message_tx_new_def message_rx_new_def)
qed

section \<open>Any use of a connection\<close>

text \<open>The calls of the public interface on the halves of a connection, in any order and whatever they
  return.\<close>

inductive used :: "'w stream_writer \<Rightarrow> 'r stream_reader \<Rightarrow> 't transport_lib \<Rightarrow> 'rd source_reader
    \<Rightarrow> 't \<times> 'w MessageTx \<times> 'r MessageRx \<Rightarrow> 't \<times> 'w MessageTx \<times> 'r MessageRx \<Rightarrow> bool"
  for sw :: "'w stream_writer" and sr :: "'r stream_reader" and tp :: "'t transport_lib" and rr :: "'rd source_reader" where
  unused: "used sw sr tp rr e e"
| used_send: "used sw sr tp rr e (t, tx, rx) \<Longrightarrow> send_message sw tp (t, tx) mtype data = (res, t', tx') \<Longrightarrow>
    used sw sr tp rr e (t', tx', rx)"
| used_stream: "used sw sr tp rr e (t, tx, rx) \<Longrightarrow>
    message_send_reader sw tp rr (t, tx) mtype reader = Some ((res, t', tx'), reader') \<Longrightarrow> used sw sr tp rr e (t', tx', rx)"
| used_abort: "used sw sr tp rr e (t, tx, rx) \<Longrightarrow> message_abort sw tp (t, tx) = (res, t', tx') \<Longrightarrow>
    used sw sr tp rr e (t', tx', rx)"
| used_read: "used sw sr tp rr e (t, tx, rx) \<Longrightarrow> read_message sr tp (t, rx) = (rm, t', rx') \<Longrightarrow>
    used sw sr tp rr e (t', tx, rx')"
| used_bytes: "used sw sr tp rr e (t, tx, rx) \<Longrightarrow> read_bytes sr tp m (t, rx) = Some (rb, t', rx') \<Longrightarrow>
    used sw sr tp rr e (t', tx, rx')"
| used_next: "used sw sr tp rr e (t, tx, rx) \<Longrightarrow> packets_next sr tp mp (t, rx) = (rn, mp', t', rx') \<Longrightarrow>
    used sw sr tp rr e (t', tx, rx')"

lemma used_fits:
  assumes "slices_kept sr tp rr" "used sw sr tp rr e e'"
  shows "buffers_fit e \<Longrightarrow> buffers_fit e'"
  using assms(2)
proof induction
  case (used_send e t tx rx mtype data res t' tx')
  with send_message_fits [OF assms(1) _ used_send.hyps(2)] show ?case by simp
next
  case (used_stream e t tx rx mtype reader res t' tx' reader')
  with message_send_reader_fits [OF assms(1) _ used_stream.hyps(2)] show ?case by simp
next
  case (used_abort e t tx rx res t' tx')
  with message_abort_fits [OF assms(1) _ used_abort.hyps(2)] show ?case by simp
next
  case (used_read e t tx rx rm t' rx')
  with read_message_fits [OF assms(1) _ used_read.hyps(2)] show ?case by simp
next
  case (used_bytes e t tx rx m rb t' rx')
  with read_bytes_fits [OF assms(1) _ used_bytes.hyps(2)] show ?case by simp
next
  case (used_next e t tx rx mp rn mp' t' rx')
  with packets_next_fits [OF assms(1) _ used_next.hyps(2)] show ?case by simp
qed

section \<open>Property\<close>

text \<open>C15: No peer makes a connection hold more than a frame in each of its packet buffers. From the moment
  \<open>connect\<close> or \<open>accept\<close> returns the halves, whatever the application calls, in any order, whatever the
  calls return and whatever frames the peer sends: the ciphertext buffer stays within 65535 bytes, the
  plaintext and the write buffer within 65537, and the packet under construction within 65519.\<close>

theorem packet_buffers_bounded:
  assumes "handshake_slices (lb_noise lb) (lb_reader lb)" "slices_kept sr tp rr"
    and "connect lb took stream priv cred vk = Ok (e, details) \<or> accept lb took stream priv cred vk = Ok (e, details)"
    and "used sw sr tp rr e (t, tx, rx)"
  shows "length (rx_ciphertext_buf (mr_packets rx)) \<le> 65535 \<and> length (rx_plaintext_buf (mr_packets rx)) \<le> 65537
    \<and> length (tx_write_buf (mt_packets tx)) \<le> 65537 \<and> length (pb_buf (tx_builder tx)) \<le> 65519"
proof -
  have "buffers_fit e" using assms(3) by (elim disjE) (rule connect_fits [OF assms(1)] accept_fits [OF assms(1)], assumption)+
  with used_fits [OF assms(2,4)] show ?thesis by (simp add: tx_fits_def rx_fits_def size_defs)
qed

lemma sample_slices:
  "handshake_slices (lb_noise sample_libs) (lb_reader sample_libs)"
  "slices_kept list_reader tag_cipher (list_source k fin)"
  by (auto simp: handshake_slices_def slices_kept_def plain_xx_def pair_reader_def list_reader_def tag_cipher_def
      list_source_def Let_def split: list.splits)

theorem packet_buffers_bounded_witness:
  "\<exists>stream t tx rx details res t' tx'.
      connect sample_libs (Some 3) stream (sample_priv 1) (credential sample_libs sample_sk (sample_header 1)) sample_vk
        = Ok ((t, tx, rx), details)
    \<and> send_message list_writer tag_cipher (t, tx) 1 (replicate 70000 5) = (res, t', tx')
    \<and> length (tx_write_buf (mt_packets tx')) \<le> 65537"
proof -
  obtain s t tx rx where "try_connect sample_libs (Some 3) (Ok s) (NodeId [2]) sample_creds = Ok (t, tx, rx)"
    by (rule sample_try_connect)
  then obtain details where
    con: "connect sample_libs (Some 3) s (sample_priv 1) (credential sample_libs sample_sk (sample_header 1)) sample_vk
        = Ok ((t, tx, rx), details)"
    by (auto simp: try_connect_def sample_creds_def split: result.splits prod.splits)
  obtain res t' tx' where sm: "send_message list_writer tag_cipher (t, tx) 1 (replicate 70000 5) = (res, t', tx')"
    by (metis prod_cases3)
  have "used list_writer list_reader tag_cipher (list_source 0 (Ok 0)) (t, tx, rx) (t', tx', rx)"
    by (rule used_send [OF unused sm])
  from packet_buffers_bounded [OF sample_slices disjI1 [OF con] this] con sm show ?thesis by blast
qed

end
