(* ===== verification/Spec2Isabelle.thy ===== *)
theory Spec2Isabelle
  imports Packet_Stream Credential_Tests Pool_Exchange Pool_Tests Round_Trip
    Forgery_Tests Tampering Buffers
begin

text \<open>
  A verification library of snowpack, an authenticated and encrypted transport for long-lived
  connections between the known nodes of a cluster, written in Rust.

  \<^bold>\<open>The program.\<close> A cluster operator holds an Ed25519 key pair (\<open>src/sign.rs\<close>) and signs, for every
  node, a header with its node id (\<open>src/node_id.rs\<close>), its X25519 transport key (\<open>src/noise.rs\<close>) and an
  optional role (\<open>src/auth.rs\<close>). Two nodes run the three messages of the Noise XX handshake
  (\<open>src/packets.rs\<close>, entered through \<open>accept\<close> and \<open>connect\<close> of \<open>src/lib.rs\<close>); each presents its signed
  header as a handshake payload and checks the other's signature and that the key in the header is
  the static key of the session. On the encrypted channel, messages (\<open>src/messages.rs\<close>) are cut into
  packets with a two-byte header (\<open>src/packet_state.rs\<close>), encrypted and written as length-prefixed
  frames (\<open>src/packets.rs\<close>). A connection pool (\<open>src/pool.rs\<close>) keeps one connection per peer,
  reconnects in the background, and hands out guards for one exchange at a time.

  \<^bold>\<open>Conventions.\<close> A struct is a record, an enum a datatype, a \<open>u8\<close>/\<open>u16\<close>/\<open>u32\<close>/\<open>u64\<close> a word of that width,
  a byte slice or vector a list of bytes, a \<open>Result\<close> the datatype \<open>result\<close>. A method on \<open>&mut self\<close> takes
  the state and returns it updated next to its result, also on errors. \<open>unreachable!\<close> is the outcome
  \<open>Panic\<close>. Third-party code is never defined here: \<open>hex\<close>, \<open>serde\<close>, \<open>ed25519_dalek\<close>, \<open>yatlv\<close>, \<open>snow\<close> and
  the Tokio streams are records of operations that the definitions take as arguments, and what the
  code relies on is a named predicate on such a record: \<open>hex_laws\<close>, \<open>ed25519_laws\<close>, \<open>yatlv_laws\<close>,
  \<open>cipher_laws\<close> and \<open>xx_laws\<close> (snow), \<open>read_laws\<close>, \<open>write_laws\<close>, \<open>write_live\<close> and \<open>duplex_laws\<close> (streams),
  \<open>yields\<close>, \<open>delivers\<close> and \<open>fails_after\<close> (sources of \<open>send_reader\<close>), \<open>network_laws\<close> and \<open>stream_arrivals\<close> (two
  streams with a network between them), \<open>session_laws\<close> (all that a session rests on), \<open>seal_log\<close> and
  \<open>opens_only\<close> (integrity of the transport messages of \<open>snow\<close>), \<open>slices_kept\<close> and \<open>handshake_slices\<close> (a call
  does not change the length of a slice), \<open>sig_parses\<close> (64 bytes are a signature, genuine or not). Theories
  \<open>Loopback\<close>, \<open>Sample_Libs\<close> and parts of \<open>Handshake_Run\<close>, \<open>Session\<close> and \<open>Tampering\<close> meet those that the
  properties use with small executable instances, on which the properties are applied to concrete
  cases. The JSON form of the messages in the tests is a pair of functions of which only the round trip
  is assumed.

  \<^bold>\<open>Theories.\<close>
  \<^item> \<open>Snow_Prelude\<close>: results, bytes, big-endian encodings, \<open>chunks\<close>, shared lemmas.
  \<^item> \<open>Packet_State\<close>: all of \<open>src/packet_state.rs\<close> (\<open>PacketBuilder::prepare\<close>, \<open>pack\<close>, \<open>abort\<close>;
    \<open>PacketReader::read\<close>), their invariants, and the locale \<open>packet_codec\<close> of builder and reader.
    \<open>Packet_Stream\<close>: a reader accepts exactly the streams of whole messages; it refines a two-state
    machine; whatever a caller does with a builder, what it emits is accepted (but for an abort before
    the first packet); headers and messages are read back.
  \<^item> \<open>Node_Id\<close>, \<open>Transport_Keys\<close>, \<open>Sign\<close>, \<open>Auth\<close>: \<open>src/node_id.rs\<close>, \<open>src/noise.rs\<close>, \<open>src/sign.rs\<close>,
    \<open>src/auth.rs\<close>, with the locales \<open>text_key\<close> (a key and its text and serde forms), \<open>record_signer\<close>
    (signed records) and \<open>peer_authenticator\<close> (what the handshake relies on). \<open>Credentials_Spec\<close>: round
    trips, what is accepted and refused and with which error.
  \<^item> \<open>Packets\<close>: framing, \<open>PacketTx\<close> and \<open>PacketRx\<close> of \<open>src/packets.rs\<close>. \<open>Send_Plan\<close>: what \<open>send_slice\<close> and
    the buffer loop of \<open>send_reader\<close> send, as lists of packets. \<open>Wire\<close>: what is written by one side is
    what is read by the other.
  \<^item> \<open>Messages\<close>: \<open>src/messages.rs\<close>, with the locale \<open>packet_source\<close>: reading reaches an
    \<open>unreachable!\<close> only after an error inside a message, and \<open>read_bytes\<close> equals draining \<open>MessagePackets\<close>. \<open>Delivery\<close>: sequences of messages
    arrive whole and in order; \<open>send_reader\<close> sends what \<open>send_message\<close> sends, and where it does not;
    abandoned and dropped messages; a peer that seals packets of its own making.
  \<^item> \<open>Handshake\<close>: \<open>HandshakeContext\<close>, \<open>accept\<close> and \<open>connect\<close> of \<open>src/packets.rs\<close> and \<open>src/lib.rs\<close>.
    \<open>Handshake_Run\<close>: complete runs; a node that gets a connection talks to the holder of an issued
    credential; a credential is worthless without its private key; the initiator does not reveal its
    credential to a peer it has not authenticated.
  \<^item> \<open>Conversation\<close>: both nodes send, from slices and from sources that may fail, abort and receive, in any
    order; an abstract pair of mailboxes with one queue of letters per direction, and the refinement of
    it by the code. \<open>Session\<close>: the same from the credentials on, through the handshake.
  \<^item> \<open>Tampering\<close>: a network that does what it likes with the bytes. Through the locale \<open>genuine_source\<close>,
    the messages a node receives are the first of the messages its peer sent, whatever the streams do.
  \<^item> \<open>Buffers\<close>: whatever the peer sends and the application calls, the packet buffers of a connection
    stay within a frame. The buffer in which \<open>read_bytes\<close> assembles a message has no bound in the code.
  \<^item> \<open>Pool\<close>: credentials, connectors, \<open>try_connect\<close>, the backoff of \<open>reconnect_task\<close> and the table of
    peers of \<open>src/pool.rs\<close> over any sequence of \<open>peer\<close> calls. \<open>Pool_Link\<close>: one \<open>PeerLink\<close> with its mutex, its reconnect tasks and any
    number of users in \<open>acquire\<close>, \<open>wait_connected\<close> or with a \<open>Guard\<close>, as a step relation with one rule per
    atomic action, and its invariants through the locale \<open>invariant_of\<close>. \<open>Link_Spec\<close>: the link refines a
    machine that is down, up, or in use with the exchange committed or not; guards are exclusive and end with the connection reset unless
    committed; one reconnect task runs exactly when the link is down; no notification is missed; from
    every reachable state the link can come up again. \<open>Pool_Exchange\<close>: the link together with the
    messages on its connection; a connection that \<open>acquire\<close> hands out has a session with the target
    and is between messages in both directions, if guards are committed after ended messages only.
  \<^item> \<open>Packet_Tests\<close>, \<open>Credential_Tests\<close>: the unit tests of \<open>packet_state\<close>, \<open>node_id\<close>, \<open>noise\<close>, \<open>sign\<close> and
    \<open>auth\<close>, run on the model, for every library that meets its contract. \<open>Forgery_Tests\<close>: those of them
    that hold with overwhelming probability only, for the draws that are not the exception. \<open>Message_Tests\<close>,
    \<open>Transport_Tests\<close>, \<open>Pool_Tests\<close>: the asynchronous tests of \<open>messages\<close>, \<open>packets\<close> and \<open>pool\<close> with their
    fixtures, which pass on every connected pair of ends, in particular on the one the fixture makes.
    \<open>Round_Trip\<close>: what \<open>benches/transport.rs\<close> repeats, from the set-up on; every payload comes back.
  \<^item> This theory: a session from the credentials of two nodes to the messages that arrive.

  \<^bold>\<open>Loops.\<close> No definition uses fuel. The loops that the other side keeps alive (\<open>read_bytes_loop\<close>,
  \<open>send_reader_loop\<close>, \<open>collect_packets\<close>, \<open>read_chunks\<close>) are partial functions whose value is \<open>None\<close> when they do not
  return; the theorems on them state that they return. Time appears as a number: the duration of a
  handshake against \<open>HANDSHAKE_TIMEOUT\<close>, the sleeps of the reconnect loop. \<open>cipher_laws\<close> counts the
  messages a session may still carry, so that the exhaustion of the \<open>2 ^ 64\<close> nonces of a Noise session
  is respected: theorems on sequences of messages bound the number of packets by it.

  \<^bold>\<open>What modelling showed.\<close> \<open>send_reader\<close> leaves a message unfinished, and reports success, when its
  source yields a positive multiple of \<open>MAX_PACKET_SIZE\<close> bytes; an abort before the first packet of a
  message is sent to a receiver that must refuse it; a \<open>Message\<close> of several packets that is dropped
  unread makes a later \<open>read_bytes\<close> panic; so does an error inside a message, which a peer can cause, in
  a caller that goes on reading. Each is a theorem of \<open>Delivery\<close>, and the positive theorems state the
  condition under which they hold. A node id over the bound can be deserialized and signed, and is then
  refused by every peer (\<open>Credentials_Spec\<close>).

  \<^bold>\<open>Not modelled.\<close> The bodies of the libraries, and cryptographic strength: that a signature was not
  forged is the hypothesis \<open>not_forged\<close>, and that a ciphertext was not, \<open>opens_only\<close>, where they are
  needed. Cancellation of a future between two awaits
  inside a frame; a cancelled exchange on a pooled connection is modelled as the drop of its guard,
  which resets the connection. Poisoned locks, metrics and log lines, the zeroing of secrets that
  \<open>secrecy\<close> adds, derived impls (\<open>Clone\<close>, \<open>Debug\<close>, \<open>Hash\<close>). The bounded
  capacity of a duplex stream: a write is not held up by a peer that does not read, and the tasks of an
  asynchronous test run one after the other, the writer first. The cache of the parsed Noise
  parameters. The Criterion harness and the sockets of the benchmarks.
\<close>

section \<open>A session, from the credentials to the messages\<close>

text \<open>The responder's part: when its stream brings the two handshake messages and what the initiator
  wrote afterwards, it accepts and receives.\<close>

lemma responder_receives:
  assumes laws: "cipher_laws tp sync" "write_laws sw hw" "read_laws sr hp" and "types_ok ms"
    and b: "hl_build_responder (lb_noise lb) NOISE_PARAMS (tpriv_expose priv) = Ok r0"
    and a: "accept_steps lb cred vk (new_context r0 so) = (Ok ((tr, txr, rxr), details), hs)"
      "rx_packet_reader rxr = reader_new" "hp (rx_read rxr) = wire @ resto"
    and tx: "tx_packet_builder tx = builder_new" "sync (length (all_packets ms)) ti tr"
      "send_all sw tp (ti, message_tx_new tx) ms = (Ok (), s')"
      "hw (tx_write (mt_packets (snd s'))) = hw (tx_write tx) @ wire"
    and "d \<le> HANDSHAKE_TIMEOUT"
  shows "\<exists>tr txr rxr r'. accept lb (Some d) so priv cred vk = Ok ((tr, txr, rxr), details)
    \<and> receive_all sr tp (tr, rxr) (length ms) = Some (Return (Ok ms), r') \<and> hp (rx_read (mr_packets (snd r'))) = resto"
proof -
  have "linked sync (length (all_packets ms) + 0) (ti, message_tx_new tx) (tr, message_rx_new rxr)"
    using halves_linked [where sync = sync, OF tx(1) a(2) tx(2)] by simp
  moreover have "carried hw hp (ti, message_tx_new tx) s' (tr, message_rx_new rxr) resto"
    using a(3) tx(4) by (simp add: carried_def message_tx_new_def message_rx_new_def)
  ultimately show ?thesis
    using deliver_messages [OF laws _ assms(4) tx(3)] accept_of_steps [OF b a(1) assms(13)] by blast
qed

text \<open>C4: From credentials to messages. Let two nodes have credentials of the same operator. There are
  three handshake messages such that an initiator whose stream brings the second one connects, to the
  right peer, and then sends any messages of 12-bit types over the connection; it writes the first and
  the third message and then some bytes \<open>wire\<close>; and a responder whose stream brings these accepts, from
  the right peer, and receives exactly the messages that were sent, in order and whole, leaving what
  follows them in its stream.\<close>

theorem session_delivers:
  assumes xx: "xx_laws (lb_noise lb) public pair sync"
    and lib: "duplex_laws (lb_reader lb) (lb_writer lb) (lb_split lb) pending written hp hw"
    and sig: "yatlv_laws (lb_yatlv lb)" "ed25519_laws (lb_ed25519 lb)" "key_pair (lb_ed25519 lb) sk vk"
    and nodes: "node_ok lb public sk privi hi" "node_ok lb public sk privr hr"
    and time: "d \<le> HANDSHAKE_TIMEOUT" "d' \<le> HANDSHAKE_TIMEOUT"
    and half: "cipher_laws tp sync" "write_laws sw hw" "write_live sw" "read_laws sr hp"
    and ms: "types_ok ms" "length (all_packets ms) < 2 ^ 64"
  shows "\<exists>m1 m2 m3. \<forall>si resti. pending si = frame_of m2 @ resti \<longrightarrow>
    (\<exists>wire ti txi rxi s'.
       connect lb (Some d) si privi (credential lb sk hi) vk = Ok ((ti, txi, rxi), AuthDetails_from hr)
     \<and> send_all sw tp (ti, txi) ms = (Ok (), s')
     \<and> hw (tx_write (mt_packets (snd s'))) = written si @ frame_of m1 @ frame_of m3 @ wire
     \<and> (\<forall>so resto. pending so = frame_of m1 @ frame_of m3 @ wire @ resto \<longrightarrow>
          (\<exists>tr txr rxr r'.
             accept lb (Some d') so privr (credential lb sk hr) vk = Ok ((tr, txr, rxr), AuthDetails_from hi)
           \<and> receive_all sr tp (tr, rxr) (length ms) = Some (Return (Ok ms), r')
           \<and> hp (rx_read (mr_packets (snd r'))) = resto)))"
    (is "\<exists>m1 m2 m3. \<forall>si resti. _ \<longrightarrow> ?delivers m1 m2 m3 si")
proof -
  let ?n = "length (all_packets ms)"
  obtain m1 m2 m3 i0 r0 ti tr where
    b: "hl_build_initiator (lb_noise lb) NOISE_PARAMS (tpriv_expose privi) = Ok i0"
      "hl_build_responder (lb_noise lb) NOISE_PARAMS (tpriv_expose privr) = Ok r0"
    and sy: "sync ?n ti tr"
    and con: "\<forall>s rest. pending s = frame_of m2 @ rest \<longrightarrow> (\<exists>tx rx hs.
      connect_steps lb (credential lb sk hi) vk (new_context i0 s) = (Ok ((ti, tx, rx), AuthDetails_from hr), hs)
      \<and> tx_packet_builder tx = builder_new \<and> rx_packet_reader rx = reader_new
      \<and> hw (tx_write tx) = written s @ frame_of m1 @ frame_of m3 \<and> hp (rx_read rx) = rest)"
    and acc: "\<forall>s rest. pending s = frame_of m1 @ frame_of m3 @ rest \<longrightarrow> (\<exists>tx rx hs.
      accept_steps lb (credential lb sk hr) vk (new_context r0 s) = (Ok ((tr, tx, rx), AuthDetails_from hi), hs)
      \<and> tx_packet_builder tx = builder_new \<and> rx_packet_reader rx = reader_new
      \<and> hw (tx_write tx) = written s @ frame_of m2 \<and> hp (rx_read rx) = rest)"
    by (rule xx_runs [OF xx lib sig nodes ms(2)]) blast
  show ?thesis
  proof (rule exI [of _ m1], rule exI [of _ m2], rule exI [of _ m3], intro allI impI)
    fix si resti assume "pending si = frame_of m2 @ resti"
    with con obtain tx rx hs where
      c: "connect_steps lb (credential lb sk hi) vk (new_context i0 si) = (Ok ((ti, tx, rx), AuthDetails_from hr), hs)"
        "tx_packet_builder tx = builder_new" "hw (tx_write tx) = written si @ frame_of m1 @ frame_of m3" by meson
    note cn = connect_of_steps [OF b(1) c(1) time(1)]
    obtain s' wire where s': "send_all sw tp (ti, message_tx_new tx) ms = (Ok (), s')"
      and wire: "hw (tx_write (mt_packets (snd s'))) = written si @ frame_of m1 @ frame_of m3 @ wire"
      by (rule send_all_wire [OF half(1-3), where s = "(ti, message_tx_new tx)" and n = 0 and ?tr0.0 = tr and pr = reader_new])
        (use sy ms(1) c(2,3) in \<open>simp_all add: message_tx_new_def in_step_new\<close>)
    have "\<exists>tr txr rxr r'.
        accept lb (Some d') so privr (credential lb sk hr) vk = Ok ((tr, txr, rxr), AuthDetails_from hi)
      \<and> receive_all sr tp (tr, rxr) (length ms) = Some (Return (Ok ms), r') \<and> hp (rx_read (mr_packets (snd r'))) = resto"
      if so: "pending so = frame_of m1 @ frame_of m3 @ wire @ resto" for so resto
    proof -
      from acc so obtain txr rxr hs where
        a: "accept_steps lb (credential lb sk hr) vk (new_context r0 so) = (Ok ((tr, txr, rxr), AuthDetails_from hi), hs)"
          "rx_packet_reader rxr = reader_new" "hp (rx_read rxr) = wire @ resto" by meson
      show ?thesis
        by (rule responder_receives [OF half(1,2,4) ms(1) b(2) a c(2) sy s' _ time(2)]) (simp add: wire c(3))
    qed
    with cn s' wire show "?delivers m1 m2 m3 si" by meson
  qed
qed

theorem session_delivers_witness:
  "\<exists>m1 m2 m3 wire ti txi rxi s' tr txr rxr r'.
      connect sample_libs (Some 3) (frame_of m2, []) (sample_priv 1) (credential sample_libs sample_sk (sample_header 1)) sample_vk
        = Ok ((ti, txi, rxi), AuthDetails_from (sample_header 2))
    \<and> send_all list_writer tag_cipher (ti, txi) [(1, [10, 20]), (2, replicate 70000 5)] = (Ok (), s')
    \<and> accept sample_libs (Some 4) (frame_of m1 @ frame_of m3 @ wire, []) (sample_priv 2)
        (credential sample_libs sample_sk (sample_header 2)) sample_vk
        = Ok ((tr, txr, rxr), AuthDetails_from (sample_header 1))
    \<and> receive_all list_reader tag_cipher (tr, rxr) 2 = Some (Return (Ok [(1, [10, 20]), (2, replicate 70000 5)]), r')"
proof -
  let ?ms = "[(1, [10, 20]), (2, replicate 70000 5)] :: (u16 \<times> bytes) list"
  have "types_ok ?ms" by (simp add: TYPE_MASK_def)
  moreover have "length (all_packets ?ms) < 2 ^ 64"
    by (simp add: all_packets_def one_packet two_packets size_defs)
  ultimately obtain m1 m2 m3 where run: "\<forall>si resti. fst si = frame_of m2 @ resti \<longrightarrow>
    (\<exists>wire ti txi rxi s'.
       connect sample_libs (Some 3) si (sample_priv 1) (credential sample_libs sample_sk (sample_header 1)) sample_vk
         = Ok ((ti, txi, rxi), AuthDetails_from (sample_header 2))
     \<and> send_all list_writer tag_cipher (ti, txi) ?ms = (Ok (), s')
     \<and> id (tx_write (mt_packets (snd s'))) = snd si @ frame_of m1 @ frame_of m3 @ wire
     \<and> (\<forall>so resto. fst so = frame_of m1 @ frame_of m3 @ wire @ resto \<longrightarrow>
          (\<exists>tr txr rxr r'.
             accept sample_libs (Some 4) so (sample_priv 2) (credential sample_libs sample_sk (sample_header 2)) sample_vk
               = Ok ((tr, txr, rxr), AuthDetails_from (sample_header 1))
           \<and> receive_all list_reader tag_cipher (tr, rxr) (length ?ms) = Some (Return (Ok ?ms), r')
           \<and> id (rx_read (mr_packets (snd r'))) = resto)))"
    using session_delivers [OF sample_libs_laws sample_node [of 1] sample_node [of 2] _ _ loop_laws, of 3 4 ?ms]
    by (auto simp: HANDSHAKE_TIMEOUT_def)
  have len: "length ?ms = 2" by simp
  from run [rule_format, of "(frame_of m2, [])" "[]"] show ?thesis
    unfolding len by (metis append_Nil2 fst_conv)
qed

end
